(* ===== verification/Phy_Prelude.thy ===== *)
theory Phy_Prelude
  imports Main "HOL-Library.Word"
begin

text \<open>
  Shared vocabulary of the development: names for the C integer types, the unsigned 32-bit
  subtraction the sources use on indices, the C error codes, stores through a pointer into a
  byte array, and the generic lemmas on lists, iteration and words the component theories use.
  C arrays are lists; an array of unpacked bits is a list of bytes each holding one bit.
\<close>

unbundle bit_operations_syntax

type_synonym u8 = "8 word"
type_synonym u16 = "16 word"
type_synonym u32 = "32 word"
type_synonym u64 = "64 word"

named_theorems bits_simps \<open>facts about arrays of unpacked bits\<close>
named_theorems store_simps \<open>facts about stores into arrays\<close>

section \<open>Integers\<close>

text \<open>Subtraction of two \<open>uint32_t\<close> values, with the wrap-around written out.\<close>

definition sub32 :: "nat \<Rightarrow> nat \<Rightarrow> nat" where
  "sub32 a b = (a + 2 ^ 32 - b) mod 2 ^ 32"

lemma sub32_le:
  assumes "b \<le> a" "a < 2 ^ 32"
  shows "sub32 a b = a - b"
proof -
  have "sub32 a b = ((a - b) + 2 ^ 32) mod 2 ^ 32"
    unfolding sub32_def using assms(1) by (simp add: add.commute)
  also have "\<dots> = a - b"
    using assms(2) by (simp only: mod_add_self2) simp
  finally show ?thesis .
qed

lemma sub32_underflow: "a < b \<Longrightarrow> b < 2 ^ 32 \<Longrightarrow> sub32 a b = a + 2 ^ 32 - b"
  by (simp add: sub32_def)

text \<open>Sums and products of \<open>uint32_t\<close> values.\<close>

definition add32 :: "nat \<Rightarrow> nat \<Rightarrow> nat" where
  "add32 a b = (a + b) mod 2 ^ 32"

definition mul32 :: "nat \<Rightarrow> nat \<Rightarrow> nat" where
  "mul32 a b = (a * b) mod 2 ^ 32"

lemma add32_small: "a + b < 2 ^ 32 \<Longrightarrow> add32 a b = a + b"
  by (simp add: add32_def)

lemma mul32_small: "a * b < 2 ^ 32 \<Longrightarrow> mul32 a b = a * b"
  by (simp add: mul32_def)

text \<open>\<open>SRSRAN_CEIL(NUM, DEN)\<close> of \<open>phy_common.h\<close>.\<close>

definition ceil_div :: "nat \<Rightarrow> nat \<Rightarrow> nat" where
  "ceil_div a b = (a + b - 1) div b"

lemma ceil_div_le_iff: "0 < b \<Longrightarrow> ceil_div a b \<le> c \<longleftrightarrow> a \<le> c * b"
proof -
  assume b: "0 < b"
  have "(a + b - 1) div b \<le> c \<longleftrightarrow> (a + b - 1) div b < Suc c" by auto
  also have "\<dots> \<longleftrightarrow> a + b - 1 < Suc c * b" using b by (rule div_less_iff_less_mult)
  also have "\<dots> \<longleftrightarrow> a \<le> c * b" using b by auto
  finally show ?thesis by (simp add: ceil_div_def)
qed

lemma ceil_div_mult_ge: "0 < b \<Longrightarrow> a \<le> ceil_div a b * b"
  using ceil_div_le_iff [of b a "ceil_div a b"] by simp

section \<open>Arrays of unpacked bits\<close>

text \<open>An array in the one-bit-per-byte format: every element is 0 or 1.\<close>

definition unpacked_bits :: "u8 list \<Rightarrow> bool" where
  "unpacked_bits xs \<longleftrightarrow> (\<forall>x \<in> set xs. x = 0 \<or> x = 1)"

lemma unpacked_bits_Nil [bits_simps, simp]: "unpacked_bits []"
  by (simp add: unpacked_bits_def)

lemma unpacked_bits_Cons [bits_simps, simp]:
  "unpacked_bits (x # xs) \<longleftrightarrow> (x = 0 \<or> x = 1) \<and> unpacked_bits xs"
  by (auto simp: unpacked_bits_def)

lemma unpacked_bits_append [bits_simps, simp]:
  "unpacked_bits (xs @ ys) \<longleftrightarrow> unpacked_bits xs \<and> unpacked_bits ys"
  by (auto simp: unpacked_bits_def)

lemma unpacked_bits_nth: "unpacked_bits xs \<Longrightarrow> i < length xs \<Longrightarrow> xs ! i = 0 \<or> xs ! i = 1"
  by (simp add: unpacked_bits_def)

lemma unpacked_bits_take: "unpacked_bits xs \<Longrightarrow> unpacked_bits (take n xs)"
  by (auto simp: unpacked_bits_def dest: in_set_takeD)

lemma unpacked_bits_drop: "unpacked_bits xs \<Longrightarrow> unpacked_bits (drop n xs)"
  by (auto simp: unpacked_bits_def dest: in_set_dropD)

lemma unpacked_bits_mapI: "(\<And>x. x \<in> set xs \<Longrightarrow> f x = 0 \<or> f x = 1) \<Longrightarrow> unpacked_bits (map f xs)"
  by (auto simp: unpacked_bits_def)

lemma unpacked_bits_replicate [simp]: "x = 0 \<or> x = 1 \<Longrightarrow> unpacked_bits (replicate n x)"
  by (auto simp: unpacked_bits_def)

text \<open>The value of a bit as a byte, and back.\<close>

definition bit_of :: "bool \<Rightarrow> u8" where
  "bit_of b = of_bool b"

lemma bit_of_simps [simp]: "bit_of True = 1" "bit_of False = 0"
  by (simp_all add: bit_of_def)

lemma bit_of_01 [simp]: "bit_of b = 0 \<or> bit_of b = 1"
  by (cases b) auto

lemma bit_of_inj [simp]: "bit_of a = bit_of b \<longleftrightarrow> a = b"
  by (cases a; cases b) auto

lemma bit_of_neq_0: "bit_of b \<noteq> 0 \<longleftrightarrow> b"
  by (cases b) auto

lemma bit_of_xor: "bit_of a XOR bit_of b = bit_of (a \<noteq> b)"
  by (cases a; cases b) auto

lemma word_and_1_bit_of: "ucast ((w :: 'a::len word) AND 1) = bit_of (bit w 0)"
proof -
  have "w AND 1 = of_bool (bit w 0)" by (simp add: and_one_eq bit_0 mod2_eq_if)
  then show ?thesis by (cases "bit w 0") auto
qed

section \<open>Stores through a pointer\<close>

text \<open>
  \<open>store buf pos xs\<close> is the array after the bytes \<open>xs\<close> have been written from index \<open>pos\<close> on.
  The sources write inside the array; lemmas carry that as a length hypothesis.
\<close>

definition store :: "'a list \<Rightarrow> nat \<Rightarrow> 'a list \<Rightarrow> 'a list" where
  "store buf pos xs = take pos buf @ xs @ drop (pos + length xs) buf"

lemma length_store [store_simps]:
  "pos + length xs \<le> length buf \<Longrightarrow> length (store buf pos xs) = length buf"
  by (simp add: store_def)

lemma nth_store [store_simps]:
  "pos + length xs \<le> length buf \<Longrightarrow> i < length buf \<Longrightarrow>
   store buf pos xs ! i = (if pos \<le> i \<and> i < pos + length xs then xs ! (i - pos) else buf ! i)"
  by (auto simp: store_def nth_append)

lemma store_Nil [store_simps, simp]: "store buf pos [] = buf"
  by (simp add: store_def)

lemma store_store:
  "pos + length xs + length ys \<le> length buf \<Longrightarrow>
   store (store buf pos xs) (pos + length xs) ys = store buf pos (xs @ ys)"
  by (simp add: store_def ac_simps)

lemma take_store:
  "pos + length xs \<le> length buf \<Longrightarrow> take (pos + length xs) (store buf pos xs) = take pos buf @ xs"
  by (simp add: store_def)

section \<open>Iteration\<close>

lemma funpow_add_apply: "(f ^^ (m + n)) x = (f ^^ m) ((f ^^ n) x)"
  by (simp add: funpow_add)

lemma foldl_upt_Suc: "foldl f a [0..<Suc n] = f (foldl f a [0..<n]) n"
  by simp

text \<open>A loop whose body stores at its own index: the array after the loop.\<close>

lemma foldl_list_update_nth:
  "n \<le> length xs \<Longrightarrow> i < length xs \<Longrightarrow>
   foldl (\<lambda>o' k. o'[k := g k]) xs [m..<n] ! i = (if m \<le> i \<and> i < n then g i else xs ! i)"
proof (induction n)
  case 0
  then show ?case by simp
next
  case (Suc n)
  have len: "length (foldl (\<lambda>o' k. o'[k := g k]) xs ks) = length xs" for ks
    by (induction ks arbitrary: xs) auto
  show ?case
  proof (cases "m \<le> n")
    case True
    then show ?thesis using Suc by (auto simp: nth_list_update len)
  next
    case False
    then show ?thesis by auto
  qed
qed

lemma length_foldl_list_update [simp]:
  "length (foldl (\<lambda>o' k. o'[h k := g k o']) xs ks) = length xs"
  by (induction ks arbitrary: xs) auto

section \<open>Words\<close>

lemma bit_push_bit_word: "bit (push_bit k (w :: 'a::len word)) i \<longleftrightarrow> k \<le> i \<and> i < LENGTH('a) \<and> bit w (i - k)"
  by (simp add: bit_push_bit_iff)

lemma bit_times_2_word: "bit ((w :: 'a::len word) * 2) i \<longleftrightarrow> 0 < i \<and> i < LENGTH('a) \<and> bit w (i - 1)"
  using bit_push_bit_word [of 1 w i] by (auto simp: push_bit_eq_mult)

lemma bit_push_bit_1_word: "bit (push_bit i (1 :: 'a::len word)) k \<longleftrightarrow> k = i \<and> i < LENGTH('a)"
  by (auto simp: bit_exp_iff possible_bit_word)

lemma take_bit_eq_iff_word: "take_bit n w = (w :: 'a::len word) \<longleftrightarrow> (\<forall>k. bit w k \<longrightarrow> k < n)"
  by (auto simp: bit_eq_iff bit_take_bit_iff possible_bit_word dest: bit_imp_le_length)

lemma bit_01_word: "x = 0 \<or> x = 1 \<Longrightarrow> bit (x :: 'a::len word) i \<longleftrightarrow> i = 0 \<and> x = 1"
  by (auto simp: bit_1_iff)

lemma unat_take_bit_word: "unat (take_bit n (w :: 'a::len word)) = unat w mod 2 ^ n"
  by (simp add: unsigned_take_bit_eq flip: take_bit_eq_mod)

end
