(* ===== verification/Linear_Register.thy ===== *)
theory Linear_Register
  imports Phy_Prelude
begin

text \<open>
  The interface of a linear feedback shift register: one step of the register distributes over
  exclusive or. Both the pseudo-random sequence generators (\<open>sequence.c\<close>) and the CRC register
  (\<open>crc.c\<close>) are clients. An invertible register also has a step back, which \<open>crc.c\<close> uses to
  undo the padding of a last partial byte.
\<close>

unbundle bit_operations_syntax

section \<open>Exclusive-or sums\<close>

definition xor_list :: "'a::len word list \<Rightarrow> 'a word" where
  "xor_list xs = foldr (XOR) xs 0"

lemma xor_list_simps [simp]: "xor_list [] = 0" "xor_list (x # xs) = x XOR xor_list xs"
  by (simp_all add: xor_list_def)

lemma xor_list_append [simp]: "xor_list (xs @ ys) = xor_list xs XOR xor_list ys"
  by (induction xs) (simp_all add: ac_simps)

lemma bit_xor_list_single:
  "bit (xor_list (map (\<lambda>i. if P i then push_bit i 1 else 0) [0..<n]) :: 'a::len word) k
     \<longleftrightarrow> k < n \<and> k < LENGTH('a) \<and> P k"
proof (induction n)
  case 0
  then show ?case by simp
next
  case (Suc n)
  have "bit (push_bit n 1 :: 'a word) k \<longleftrightarrow> k = n \<and> k < LENGTH('a)"
    by (auto simp: bit_exp_iff possible_bit_word)
  with Suc show ?case by (auto simp: bit_xor_iff less_Suc_eq)
qed

text \<open>A word is the exclusive or of its single bits.\<close>

lemma xor_list_bits:
  "LENGTH('a) \<le> n \<or> take_bit n w = w \<Longrightarrow>
   xor_list (map (\<lambda>i. if bit w i then push_bit i 1 else 0) [0..<n]) = (w :: 'a::len word)"
proof (rule bit_word_eqI)
  fix k assume n: "LENGTH('a) \<le> n \<or> take_bit n w = w" and k: "k < LENGTH('a)"
  have "bit w k \<Longrightarrow> k < n"
    using n k by (metis bit_take_bit_iff le_trans linorder_not_less not_le)
  then show "bit (xor_list (map (\<lambda>i. if bit w i then push_bit i 1 else 0) [0..<n]) :: 'a word) k = bit w k"
    using k by (auto simp: bit_xor_list_single)
qed

section \<open>The interfaces\<close>

locale linear_register =
  fixes step :: "'a::len word \<Rightarrow> 'a word"
  assumes step_xor: "step (x XOR y) = step x XOR step y"
begin

lemma step_zero [simp]: "step 0 = 0"
  using step_xor [of 0 0] by simp

lemma funpow_xor: "(step ^^ n) (x XOR y) = (step ^^ n) x XOR (step ^^ n) y"
  by (induction n) (simp_all add: step_xor)

lemma funpow_zero [simp]: "(step ^^ n) 0 = 0"
  by (induction n) simp_all

lemma funpow_xor_list: "(step ^^ n) (xor_list xs) = xor_list (map (step ^^ n) xs)"
  by (induction xs) (simp_all add: funpow_xor)

text \<open>
  Superposition: the state after \<open>n\<close> steps is the exclusive or of the states reached from the
  single bits of the seed.
\<close>

lemma superposition:
  assumes "take_bit m s = s"
  shows "(step ^^ n) s =
    xor_list (map (\<lambda>i. if bit s i then (step ^^ n) (push_bit i 1) else 0) [0..<m])"
proof -
  have "(step ^^ n) s = (step ^^ n) (xor_list (map (\<lambda>i. if bit s i then push_bit i 1 else 0) [0..<m]))"
    using assms by (simp add: xor_list_bits)
  also have "\<dots> = xor_list (map (\<lambda>i. if bit s i then (step ^^ n) (push_bit i 1) else 0) [0..<m])"
    by (simp add: funpow_xor_list comp_def if_distrib [of "step ^^ n"] cong: if_cong)
  finally show ?thesis .
qed

end

locale invertible_register = linear_register +
  fixes unstep :: "'a::len word \<Rightarrow> 'a word" and width :: nat
  assumes unstep_step: "take_bit width x = x \<Longrightarrow> unstep (step x) = x"
    and step_width: "take_bit width x = x \<Longrightarrow> take_bit width (step x) = step x"
begin

lemma funpow_width: "take_bit width x = x \<Longrightarrow> take_bit width ((step ^^ n) x) = (step ^^ n) x"
  by (induction n) (simp_all add: step_width)

lemma unstep_funpow: "take_bit width x = x \<Longrightarrow> (unstep ^^ n) ((step ^^ n) x) = x"
proof (induction n)
  case 0
  then show ?case by simp
next
  case (Suc n)
  have "(unstep ^^ Suc n) ((step ^^ Suc n) x) = (unstep ^^ n) (unstep (step ((step ^^ n) x)))"
    by (simp add: funpow_swap1)
  also have "unstep (step ((step ^^ n) x)) = (step ^^ n) x"
    using Suc.prems by (intro unstep_step funpow_width)
  finally show ?case using Suc by simp
qed

lemma funpow_inj:
  "take_bit width x = x \<Longrightarrow> take_bit width y = y \<Longrightarrow> (step ^^ n) x = (step ^^ n) y \<Longrightarrow> x = y"
  by (metis unstep_funpow)

lemma funpow_eq_0_iff: "take_bit width x = x \<Longrightarrow> (step ^^ n) x = 0 \<longleftrightarrow> x = 0"
  using funpow_inj [of x 0 n] by auto

end

end
