(* ===== verification/Bit_Ops.thy ===== *)
theory Bit_Ops
  imports Phy_Prelude
begin

text \<open>
  The bit utilities of \<open>lib/src/phy/utils/bit.c\<close>: conversion between machine words and
  arrays of unpacked bits (most significant bit first), between packed and unpacked arrays, the
  bit-level interleavers and the bit-array comparison and counting functions. The generic
  branches of the source are modelled, those compiled when SSE is not available. A function that
  writes through a pointer it then advances returns the bytes it writes; one that reads and
  advances returns the value and the remaining array.
\<close>

unbundle bit_operations_syntax

section \<open>Words and unpacked bits\<close>

definition srsran_bit_unpack :: "u32 \<Rightarrow> nat \<Rightarrow> u8 list" where
  "srsran_bit_unpack value n = map (\<lambda>i. ucast (drop_bit (n - i - 1) value AND 1)) [0..<n]"

definition srsran_bit_unpack_l :: "u64 \<Rightarrow> nat \<Rightarrow> u8 list" where
  "srsran_bit_unpack_l value n = map (\<lambda>i. ucast (drop_bit (n - i - 1) value AND 1)) [0..<n]"

definition srsran_bit_unpack_lsb :: "u32 \<Rightarrow> nat \<Rightarrow> u8 list" where
  "srsran_bit_unpack_lsb value n =
     foldl (\<lambda>bits i. bits[n - i - 1 := ucast (drop_bit (n - i - 1) value AND 1)])
       (replicate n 0) [0..<n]"

definition srsran_bit_pack :: "u8 list \<Rightarrow> nat \<Rightarrow> u32 \<times> u8 list" where
  "srsran_bit_pack bits n =
     (foldl (\<lambda>value i. value OR push_bit (n - i - 1) (ucast (bits ! i))) 0 [0..<n], drop n bits)"

definition srsran_bit_pack_l :: "u8 list \<Rightarrow> nat \<Rightarrow> u64 \<times> u8 list" where
  "srsran_bit_pack_l bits n =
     (foldl (\<lambda>value i. value OR push_bit (n - i - 1) (ucast (bits ! i))) 0 [0..<n], drop n bits)"

text \<open>
  The abstract reading of both pairs: the bits of a word from bit \<open>n - 1\<close> down to bit 0, and the
  word a list of bits denotes.
\<close>

definition msb_bits :: "'a::len word \<Rightarrow> nat \<Rightarrow> u8 list" where
  "msb_bits w n = map (\<lambda>i. bit_of (bit w (n - i - 1))) [0..<n]"

definition bits_word :: "u8 list \<Rightarrow> nat \<Rightarrow> 'a::len word" where
  "bits_word bits n = foldl (\<lambda>v i. v OR push_bit (n - i - 1) (ucast (bits ! i))) 0 [0..<n]"

lemma length_msb_bits [simp]: "length (msb_bits w n) = n"
  by (simp add: msb_bits_def)

lemma nth_msb_bits [simp]: "i < n \<Longrightarrow> msb_bits w n ! i = bit_of (bit w (n - i - 1))"
  by (simp add: msb_bits_def)

lemma unpacked_msb_bits [simp]: "unpacked_bits (msb_bits w n)"
  unfolding msb_bits_def by (rule unpacked_bits_mapI) simp

lemma bit_ucast_01: "x = 0 \<or> x = 1 \<Longrightarrow> bit (ucast (x :: u8) :: 'a::len word) i \<longleftrightarrow> i = 0 \<and> x = 1"
  by (auto simp: bit_1_iff)

lemma bit_foldl_or:
  "bit (foldl (\<lambda>v i. v OR f i) (a :: 'a::len word) is) k \<longleftrightarrow> bit a k \<or> (\<exists>i \<in> set is. bit (f i) k)"
  by (induction "is" arbitrary: a) (auto simp: bit_or_iff)

lemma bit_bits_word:
  assumes "unpacked_bits bits" "n \<le> length bits"
  shows "bit (bits_word bits n :: 'a::len word) k \<longleftrightarrow> k < n \<and> k < LENGTH('a) \<and> bits ! (n - k - 1) = 1"
proof -
  have "bit (push_bit (n - i - 1) (ucast (bits ! i)) :: 'a word) k \<longleftrightarrow>
          k = n - i - 1 \<and> k < LENGTH('a) \<and> bits ! i = 1" if "i < n" for i
    using unpacked_bits_nth [OF assms(1), of i] that assms(2)
    by (auto simp: bit_push_bit_word bit_ucast_01)
  then show ?thesis
    unfolding bits_word_def bit_foldl_or
    by (auto simp: Bex_def intro!: exI [of _ "n - k - 1"])
qed

lemma bits_word_msb_bits:
  "n \<le> LENGTH('a) \<Longrightarrow> bits_word (msb_bits w n @ rest) n = take_bit n (w :: 'a::len word)"
proof (rule bit_word_eqI)
  fix k assume n: "n \<le> LENGTH('a)" and k: "k < LENGTH('a)"
  have "bits_word (msb_bits w n @ rest) n = (bits_word (msb_bits w n) n :: 'a word)"
    unfolding bits_word_def by (intro foldl_cong) (auto simp: nth_append)
  then show "bit (bits_word (msb_bits w n @ rest) n :: 'a word) k = bit (take_bit n w) k"
    using k by (auto simp: bit_bits_word bit_take_bit_iff bit_of_def split: if_splits)
qed

lemma msb_bits_bits_word:
  assumes "unpacked_bits bits" "n \<le> length bits" "n \<le> LENGTH('a)"
  shows "msb_bits (bits_word bits n :: 'a::len word) n = take n bits"
proof (rule nth_equalityI)
  fix i assume "i < length (msb_bits (bits_word bits n :: 'a word) n)"
  then have i: "i < n" by simp
  have "bits ! i \<noteq> 1 \<Longrightarrow> bits ! i = 0" using assms i unpacked_bits_nth [of bits i] by auto
  then show "msb_bits (bits_word bits n :: 'a word) n ! i = take n bits ! i"
    using i assms by (cases "bits ! i = 1") (auto simp: bit_bits_word bit_of_def)
qed (use assms in simp)

lemma srsran_bit_unpack_msb: "srsran_bit_unpack v n = msb_bits v n"
  by (simp add: srsran_bit_unpack_def msb_bits_def word_and_1_bit_of bit_drop_bit_eq)

lemma srsran_bit_unpack_l_msb: "srsran_bit_unpack_l v n = msb_bits v n"
  by (simp add: srsran_bit_unpack_l_def msb_bits_def word_and_1_bit_of bit_drop_bit_eq)

lemma srsran_bit_pack_word: "srsran_bit_pack bits n = (bits_word bits n, drop n bits)"
  by (simp add: srsran_bit_pack_def bits_word_def)

lemma srsran_bit_pack_l_word: "srsran_bit_pack_l bits n = (bits_word bits n, drop n bits)"
  by (simp add: srsran_bit_pack_l_def bits_word_def)

section \<open>The interface of a bit-field codec\<close>

text \<open>
  What the message packers rely on: \<open>put v n\<close> writes \<open>n\<close> bits, each 0 or 1, and \<open>get\<close> reads
  them back, returns the field and leaves the rest of the array. A message is a sequence of
  fields; writing a sequence and reading it with the same widths is the identity on every
  sequence of values that fit their width.
\<close>

locale bit_codec =
  fixes put :: "'a::len word \<Rightarrow> nat \<Rightarrow> u8 list" and get :: "u8 list \<Rightarrow> nat \<Rightarrow> 'a word \<times> u8 list"
  assumes length_put: "length (put v n) = n"
    and unpacked_put: "unpacked_bits (put v n)"
    and get_put: "n \<le> LENGTH('a) \<Longrightarrow> get (put v n @ rest) n = (take_bit n v, rest)"
    and put_get: "unpacked_bits bits \<Longrightarrow> n \<le> length bits \<Longrightarrow> n \<le> LENGTH('a) \<Longrightarrow>
      put (fst (get bits n)) n @ snd (get bits n) = bits"
begin

fun put_fields :: "('a word \<times> nat) list \<Rightarrow> u8 list" where
  "put_fields [] = []"
| "put_fields ((v, n) # fs) = put v n @ put_fields fs"

fun get_fields :: "u8 list \<Rightarrow> nat list \<Rightarrow> 'a word list \<times> u8 list" where
  "get_fields bits [] = ([], bits)"
| "get_fields bits (n # ns) =
     (let (v, bits1) = get bits n; (vs, bits2) = get_fields bits1 ns in (v # vs, bits2))"

lemma length_put_fields: "length (put_fields fs) = sum_list (map snd fs)"
  by (induction fs rule: put_fields.induct) (simp_all add: length_put)

lemma unpacked_put_fields: "unpacked_bits (put_fields fs)"
  by (induction fs rule: put_fields.induct) (simp_all add: unpacked_put)

lemma get_put_fields:
  "\<forall>(v, n) \<in> set fs. n \<le> LENGTH('a) \<Longrightarrow>
   get_fields (put_fields fs @ rest) (map snd fs) = (map (\<lambda>(v, n). take_bit n v) fs, rest)"
  by (induction fs rule: put_fields.induct) (auto simp: get_put)

lemma put_get_fields:
  "unpacked_bits bits \<Longrightarrow> sum_list ns \<le> length bits \<Longrightarrow> \<forall>n \<in> set ns. n \<le> LENGTH('a) \<Longrightarrow>
   put_fields (zip (fst (get_fields bits ns)) ns) @ snd (get_fields bits ns) = bits"
proof (induction ns arbitrary: bits)
  case Nil
  then show ?case by simp
next
  case (Cons n ns)
  obtain v bits1 where g: "get bits n = (v, bits1)" by fastforce
  obtain vs bits2 where gs: "get_fields bits1 ns = (vs, bits2)" by fastforce
  have split: "put v n @ bits1 = bits" using put_get [of bits n] Cons.prems g by simp
  then have "unpacked_bits bits1" "sum_list ns \<le> length bits1"
    using Cons.prems length_put [of v n] by auto
  with Cons.IH [of bits1] Cons.prems have "put_fields (zip vs ns) @ bits2 = bits1" by (simp add: gs)
  then show ?case by (simp add: g gs split)
qed

end

interpretation bit32: bit_codec srsran_bit_unpack srsran_bit_pack
  by unfold_locales
    (simp_all add: srsran_bit_unpack_msb srsran_bit_pack_word bits_word_msb_bits msb_bits_bits_word)

interpretation bit64: bit_codec srsran_bit_unpack_l srsran_bit_pack_l
  by unfold_locales
    (simp_all add: srsran_bit_unpack_l_msb srsran_bit_pack_l_word bits_word_msb_bits msb_bits_bits_word)

lemma foldl_store_down:
  "m \<le> n \<Longrightarrow> n \<le> length xs \<Longrightarrow> k < n \<Longrightarrow>
   foldl (\<lambda>o' i. o'[n - i - 1 := f (n - i - 1)]) xs [0..<m] ! k = (if n - m \<le> k then f k else xs ! k)"
proof (induction m)
  case (Suc m)
  then have "n - Suc m < length xs" by simp
  with Suc show ?case by (auto simp: nth_list_update)
qed simp

text \<open>The least-significant-bit-first writer is the reversal of the other one.\<close>

lemma srsran_bit_unpack_lsb_rev: "srsran_bit_unpack_lsb v n = rev (srsran_bit_unpack v n)"
  by (rule nth_equalityI)
    (simp_all add: srsran_bit_unpack_lsb_def srsran_bit_unpack_def rev_nth Suc_diff_Suc
      foldl_store_down [where f = "\<lambda>k. ucast (drop_bit k v AND 1)", simplified])

section \<open>Packed arrays\<close>

definition srsran_bit_unpack_vector :: "u8 list \<Rightarrow> nat \<Rightarrow> u8 list" where
  "srsran_bit_unpack_vector packed nof_bits =
     (let nbytes = nof_bits div 8 in
      concat (map (\<lambda>i. srsran_bit_unpack (ucast (packed ! i)) 8) [0..<nbytes]) @
      (if nof_bits mod 8 \<noteq> 0
       then srsran_bit_unpack (drop_bit (8 - nof_bits mod 8) (ucast (packed ! nbytes))) (nof_bits mod 8)
       else []))"

definition srsran_bit_pack_vector :: "u8 list \<Rightarrow> nat \<Rightarrow> u8 list" where
  "srsran_bit_pack_vector unpacked nof_bits =
     (let nbytes = nof_bits div 8 in
      map (\<lambda>i. ucast (fst (srsran_bit_pack (drop (8 * i) unpacked) 8))) [0..<nbytes] @
      (if nof_bits mod 8 \<noteq> 0
       then [push_bit (8 - nof_bits mod 8)
               (ucast (fst (srsran_bit_pack (drop (8 * nbytes) unpacked) (nof_bits mod 8))))]
       else []))"

text \<open>The abstract reading: bit \<open>p\<close> of a packed array, counted from the most significant end.\<close>

definition packed_bit :: "u8 list \<Rightarrow> nat \<Rightarrow> bool" where
  "packed_bit bs p = bit (bs ! (p div 8)) (7 - p mod 8)"

lemma length_concat_blocks: "(\<And>i. i \<in> set is \<Longrightarrow> length (f i) = k) \<Longrightarrow> length (concat (map f is)) = k * length is"
  by (induction "is") auto

lemma nth_concat_blocks:
  assumes "\<And>i. i < n \<Longrightarrow> length (f i) = k" "p < k * n"
  shows "concat (map f [0..<n]) ! p = f (p div k) ! (p mod k)"
  using assms
proof (induction n)
  case (Suc n)
  have len: "length (concat (map f [0..<n])) = k * n"
    using length_concat_blocks [of "[0..<n]" f k] Suc.prems(1) by simp
  show ?case
  proof (cases "p < k * n")
    case True
    with Suc show ?thesis by (simp add: nth_append len)
  next
    case False
    with Suc.prems have "p div k = n" by (intro div_nat_eqI) auto
    moreover from this have "p mod k = p - k * n" by (metis minus_mult_div_eq_mod)
    ultimately show ?thesis using False by (simp add: nth_append len)
  qed
qed simp

lemma div8E:
  obtains d r where "n = 8 * d + r" "r < 8" "n div 8 = d" "n mod 8 = (r::nat)"
  using that [of "n div 8" "n mod 8"] by simp

lemma length_unpack_bytes:
  "length (concat (map (\<lambda>i. srsran_bit_unpack (g i) 8) [0..<m])) = 8 * m"
  using length_concat_blocks [of "[0..<m]" "\<lambda>i. srsran_bit_unpack (g i) 8" 8]
  by (simp add: srsran_bit_unpack_msb)

lemma length_unpack_vector [simp]: "length (srsran_bit_unpack_vector packed n) = n"
proof -
  obtain d r where "n = 8 * d + r" "r < 8" "n div 8 = d" "n mod 8 = r" by (rule div8E)
  then show ?thesis
    unfolding srsran_bit_unpack_vector_def Let_def length_append length_unpack_bytes
    by (simp add: srsran_bit_unpack_msb)
qed

lemma ceil_div_8: "ceil_div n 8 = n div 8 + (if n mod 8 \<noteq> 0 then 1 else 0)"
proof -
  obtain d r where n: "n = 8 * d + r" "r < 8" "n div 8 = d" "n mod 8 = r" by (rule div8E)
  have "(8 * d + r + 8 - 1) div 8 = (if r = 0 then d else d + 1)"
    using n by (cases "r = 0") (auto intro!: div_nat_eqI)
  then show ?thesis using n by (simp add: ceil_div_def)
qed

lemma length_pack_vector [simp]: "length (srsran_bit_pack_vector bits n) = ceil_div n 8"
  by (simp add: srsran_bit_pack_vector_def Let_def ceil_div_8)

lemma bit_ucast_u8_u32 [simp]: "bit (ucast (w :: u8) :: u32) k \<longleftrightarrow> bit w k"
  by (auto simp: bit_ucast_iff dest: bit_imp_le_length)

lemma nth_unpack_vector [simp]:
  assumes "p < n"
  shows "srsran_bit_unpack_vector packed n ! p = bit_of (packed_bit packed p)"
proof (cases "p < 8 * (n div 8)")
  case True
  then have "srsran_bit_unpack_vector packed n ! p =
      concat (map (\<lambda>i. srsran_bit_unpack (ucast (packed ! i)) 8) [0..<n div 8]) ! p"
    by (simp add: srsran_bit_unpack_vector_def Let_def nth_append length_unpack_bytes)
  also have "\<dots> = srsran_bit_unpack (ucast (packed ! (p div 8))) 8 ! (p mod 8)"
    by (rule nth_concat_blocks) (use True in \<open>simp_all add: srsran_bit_unpack_msb\<close>)
  also have "\<dots> = bit_of (packed_bit packed p)"
    by (simp add: srsran_bit_unpack_msb packed_bit_def)
  finally show ?thesis .
next
  case False
  define r where "r = n mod 8"
  obtain d r' where n: "n = 8 * d + r'" "r' < 8" "n div 8 = d" "n mod 8 = r'" by (rule div8E)
  obtain i j where p: "p = 8 * i + j" "j < 8" "p div 8 = i" "p mod 8 = j" by (rule div8E)
  have "\<not> 8 * i + j < 8 * d" using False unfolding n(3) p(1) .
  moreover have "8 * i + j < 8 * d + r'" using assms unfolding n(1) p(1) .
  ultimately have "i = d" using n(2) p(2) by arith
  then have r: "p div 8 = n div 8" "p mod 8 = p - 8 * (n div 8)" "p mod 8 < r" "r < 8"
    using assms n p unfolding r_def by simp_all
  have "srsran_bit_unpack_vector packed n ! p =
      srsran_bit_unpack (drop_bit (8 - r) (ucast (packed ! (p div 8)))) r ! (p mod 8)"
    using False r
    by (simp add: srsran_bit_unpack_vector_def Let_def nth_append length_unpack_bytes flip: r_def)
  also have "\<dots> = bit_of (bit (packed ! (p div 8)) (8 - r + (r - p mod 8 - 1)))"
    using r by (simp add: srsran_bit_unpack_msb bit_drop_bit_eq)
  also have "8 - r + (r - p mod 8 - 1) = 7 - p mod 8" using r by simp
  finally show ?thesis by (simp add: packed_bit_def)
qed

lemma nth_pack_vector:
  assumes "unpacked_bits bits" "n \<le> length bits" "p < 8 * ceil_div n 8"
  shows "packed_bit (srsran_bit_pack_vector bits n) p \<longleftrightarrow> p < n \<and> bits ! p = 1"
proof (cases "p < 8 * (n div 8)")
  case True
  obtain d r where n: "n = 8 * d + r" "r < 8" "n div 8 = d" "n mod 8 = r" by (rule div8E)
  obtain i j where p: "p = 8 * i + j" "j < 8" "p div 8 = i" "p mod 8 = j" by (rule div8E)
  have "8 * i + j < 8 * d" using True by (simp only: n(3) p(1))
  then have "i < d" by arith
  then have fits: "8 * (p div 8) + 8 \<le> length bits" using assms(2) n p by simp
  have "bit (bits_word (drop (8 * i) bits) 8 :: u32) (7 - j) \<longleftrightarrow> drop (8 * i) bits ! (8 - (7 - j) - 1) = 1"
    using fits assms(1) p by (subst bit_bits_word) (auto intro: unpacked_bits_drop)
  also have "8 - (7 - j) - 1 = j" using p(2) by simp
  also have "drop (8 * i) bits ! j = bits ! p" using fits p by simp
  finally have "bit (bits_word (drop (8 * i) bits) 8 :: u32) (7 - j) \<longleftrightarrow> bits ! p = 1" .
  moreover have "7 - j < (8::nat)" by arith
  ultimately show ?thesis
    using \<open>i < d\<close> \<open>8 * i + j < 8 * d\<close> n p
    by (simp add: packed_bit_def srsran_bit_pack_vector_def Let_def nth_append srsran_bit_pack_word
        bit_ucast_iff)
next
  case False
  define r where "r = n mod 8"
  obtain d r' where n: "n = 8 * d + r'" "r' < 8" "n div 8 = d" "n mod 8 = r'" by (rule div8E)
  obtain i j where p: "p = 8 * i + j" "j < 8" "p div 8 = i" "p mod 8 = j" by (rule div8E)
  have "\<not> 8 * i + j < 8 * d" using False unfolding n(3) p(1) .
  moreover have "8 * i + j < 8 * (d + (if r' \<noteq> 0 then 1 else 0))"
    using assms(3) unfolding ceil_div_8 by (simp only: n(3,4) p(1))
  ultimately have "i = d" "r' \<noteq> 0" using n(2) p(2) by (auto split: if_splits)
  then have r: "0 < r" "p div 8 = n div 8" "p mod 8 = p - 8 * (n div 8)" "r < 8" "p < n \<longleftrightarrow> p mod 8 < r"
    "8 * (n div 8) + r = n"
    using n p unfolding r_def by simp_all
  have "7 - p mod 8 < 8" "7 - p mod 8 - (8 - r) < 8" by (rule le_less_trans [of _ 7], simp_all)+
  have "packed_bit (srsran_bit_pack_vector bits n) p \<longleftrightarrow>
      8 - r \<le> 7 - p mod 8 \<and> bit (bits_word (drop (8 * (n div 8)) bits) r :: u32) (7 - p mod 8 - (8 - r))"
    using False r \<open>7 - p mod 8 < 8\<close> \<open>7 - p mod 8 - (8 - r) < 8\<close>
    by (simp add: packed_bit_def srsran_bit_pack_vector_def Let_def nth_append srsran_bit_pack_word
        bit_push_bit_word bit_ucast_iff flip: r_def)
  also have "\<dots> \<longleftrightarrow> p mod 8 < r \<and> bits ! p = 1"
  proof (cases "p mod 8 < r")
    case True
    then have "bit (bits_word (drop (8 * d) bits) r :: u32) (7 - j - (8 - r)) \<longleftrightarrow> drop (8 * d) bits ! j = 1"
      using r n p assms by (subst bit_bits_word) (auto intro: unpacked_bits_drop)
    with True show ?thesis using n p assms \<open>i = d\<close> r by auto
  qed (use r in auto)
  finally show ?thesis using r by simp
qed

lemma unpack_vector_pack_vector:
  assumes "unpacked_bits bits" "n \<le> length bits"
  shows "srsran_bit_unpack_vector (srsran_bit_pack_vector bits n) n = take n bits"
proof (rule nth_equalityI)
  fix p assume p: "p < length (srsran_bit_unpack_vector (srsran_bit_pack_vector bits n) n)"
  then have "p < 8 * ceil_div n 8" using ceil_div_mult_ge [of 8 n] by simp
  moreover have "bits ! p \<noteq> 1 \<Longrightarrow> bits ! p = 0" using unpacked_bits_nth [of bits p] assms p by auto
  ultimately show "srsran_bit_unpack_vector (srsran_bit_pack_vector bits n) n ! p = take n bits ! p"
    using p assms by (cases "bits ! p = 1") (simp_all add: nth_pack_vector)
qed (use assms in simp)

lemma unpacked_unpack_vector [simp]: "unpacked_bits (srsran_bit_unpack_vector packed n)"
  unfolding unpacked_bits_def all_set_conv_all_nth by simp

lemma pack_vector_unpack_vector:
  assumes "length packed = n div 8" "n mod 8 = 0"
  shows "srsran_bit_pack_vector (srsran_bit_unpack_vector packed n) n = packed"
proof (rule nth_equalityI)
  fix i assume "i < length (srsran_bit_pack_vector (srsran_bit_unpack_vector packed n) n)"
  then have i: "i < n div 8" using assms by (simp add: ceil_div_8)
  show "srsran_bit_pack_vector (srsran_bit_unpack_vector packed n) n ! i = packed ! i"
  proof (rule bit_word_eqI)
    fix k assume "k < LENGTH(8)"
    then have k: "k < 8" by simp
    define p where "p = 8 * i + (7 - k)"
    have pm: "p div 8 = i" "p mod 8 = 7 - k"
      unfolding p_def by (intro div_nat_eqI, use k in auto) (use k in \<open>simp add: mod_nat_eqI\<close>)
    moreover have "p < 8 * (n div 8)" using i k unfolding p_def by arith
    ultimately have p: "p div 8 = i" "7 - p mod 8 = k" "p < n" "p < 8 * ceil_div n 8"
      using k assms mult_div_mod_eq [of 8 n] unfolding ceil_div_8 by simp_all
    have "packed_bit (srsran_bit_pack_vector (srsran_bit_unpack_vector packed n) n) p = packed_bit packed p"
      using p by (simp add: nth_pack_vector bit_of_def)
    then show "bit (srsran_bit_pack_vector (srsran_bit_unpack_vector packed n) n ! i) k = bit (packed ! i) k"
      by (simp add: packed_bit_def p)
  qed
qed (use assms in \<open>simp add: ceil_div_8\<close>)

section \<open>Comparing and counting bits\<close>

definition srsran_bit_diff :: "u8 list \<Rightarrow> u8 list \<Rightarrow> nat \<Rightarrow> nat" where
  "srsran_bit_diff x y nbits = foldl (\<lambda>errors i. if x ! i \<noteq> y ! i then errors + 1 else errors) 0 [0..<nbits]"

lemma srsran_bit_diff_card: "srsran_bit_diff x y n = card {i. i < n \<and> x ! i \<noteq> y ! i}"
proof (induction n)
  case 0
  then show ?case by (simp add: srsran_bit_diff_def)
next
  case (Suc n)
  have "{i. i < Suc n \<and> x ! i \<noteq> y ! i} = {i. i < n \<and> x ! i \<noteq> y ! i} \<union> (if x ! n \<noteq> y ! n then {n} else {})"
    by (auto simp: less_Suc_eq)
  then have "card {i. i < Suc n \<and> x ! i \<noteq> y ! i} =
      card {i. i < n \<and> x ! i \<noteq> y ! i} + (if x ! n \<noteq> y ! n then 1 else 0)"
    by (simp add: card_Un_disjoint)
  with Suc show ?case by (simp add: srsran_bit_diff_def)
qed

text \<open>Kernighan's loop: \<open>n &= n - 1\<close> clears the lowest bit that is set.\<close>

lemma and_minus_1_less: "(n :: 'a::len word) \<noteq> 0 \<Longrightarrow> unat (n AND (n - 1)) < unat n"
  using measure_unat [of n] word_and_le1 [of n "n - 1"] by (simp add: word_le_nat_alt)

function bit_count_loop :: "u32 \<Rightarrow> nat \<Rightarrow> nat" where
  "bit_count_loop n c = (if n \<noteq> 0 then bit_count_loop (n AND (n - 1)) (c + 1) else c)"
  by pat_completeness auto
termination
  by (relation "measure (\<lambda>(n, c). unat n)") (auto simp: and_minus_1_less)

declare bit_count_loop.simps [simp del]

definition srsran_bit_count :: "u32 \<Rightarrow> nat" where
  "srsran_bit_count n = bit_count_loop n 0"

fun nat_ones :: "nat \<Rightarrow> nat" where
  "nat_ones n = (if n = 0 then 0 else n mod 2 + nat_ones (n div 2))"

declare nat_ones.simps [simp del]

lemma nat_ones_0 [simp]: "nat_ones 0 = 0"
  by (simp add: nat_ones.simps)

lemma nat_ones_rec: "nat_ones n = n mod 2 + nat_ones (n div 2)"
  by (cases "n = 0") (simp_all add: nat_ones.simps [of n])

lemma nat_ones_clear_lowest: "0 < n \<Longrightarrow> nat_ones n = Suc (nat_ones (n AND (n - 1)))"
proof (induction n rule: less_induct)
  case (less n)
  have rec: "n AND (n - 1) = of_bool (odd n \<and> odd (n - 1)) + 2 * ((n div 2) AND ((n - 1) div 2))"
    by (rule and_rec)
  show ?case
  proof (cases "odd n")
    case True
    then have "(n - 1) div 2 = n div 2" "n mod 2 = 1" by (auto elim!: oddE)
    then show ?thesis using rec True nat_ones_rec [of n] nat_ones_rec [of "2 * (n div 2)"] by simp
  next
    case False
    then obtain m where m: "n = 2 * m" by (auto elim: evenE)
    with less have "0 < m" "m < n" "(n - 1) div 2 = m - 1" by auto
    then show ?thesis
      using rec False less.IH [of m] nat_ones_rec [of n] nat_ones_rec [of "2 * (m AND (m - 1))"] m by simp
  qed
qed

lemma nat_ones_card: "nat_ones n = card {i. bit n i}"
proof (induction n rule: nat_ones.induct)
  case (1 n)
  show ?case
  proof (cases "n = 0")
    case False
    have "{i. bit n i} = {i. i = 0 \<and> odd n} \<union> Suc ` {i. bit (n div 2) i}"
    proof -
      have "bit n i \<longleftrightarrow> i = 0 \<and> odd n \<or> (\<exists>j. i = Suc j \<and> bit (n div 2) j)" for i
        by (cases i) (auto simp: bit_0 bit_Suc)
      then show ?thesis by auto
    qed
    moreover have fin: "finite {i. bit k i}" for k :: nat
    proof (rule finite_subset)
      have "i \<le> k" if "bit k i" for i
      proof -
        have "2 ^ i \<le> k" using that by (cases "k < 2 ^ i") (auto simp: bit_iff_odd)
        then show ?thesis using less_exp [of i] by linarith
      qed
      then show "{i. bit k i} \<subseteq> {..k}" by auto
    qed simp
    moreover have "card {i::nat. i = 0 \<and> odd n} = n mod 2" by (cases "odd n") (auto simp: mod2_eq_if)
    moreover have "card ({i. i = 0 \<and> odd n} \<union> Suc ` {i. bit (n div 2) i}) =
        card {i::nat. i = 0 \<and> odd n} + card (Suc ` {i. bit (n div 2) i})"
      by (rule card_Un_disjoint) (auto intro: fin)
    ultimately have "card {i. bit n i} = n mod 2 + card {i. bit (n div 2) i}"
      by (simp add: card_image)
    then show ?thesis using 1 False by (simp add: nat_ones_rec [of n])
  qed simp
qed

lemma bit_count_loop_ones: "bit_count_loop n c = c + nat_ones (unat n)"
proof (induction n c rule: bit_count_loop.induct)
  case (1 n c)
  show ?case
  proof (cases "n = 0")
    case False
    have "unat (n AND (n - 1)) = unat n AND (unat n - 1)"
      using False by (simp add: unsigned_and_eq unat_minus_one)
    moreover have "0 < unat n" using False by (simp add: unat_gt_0)
    ultimately show ?thesis
      using 1 False by (simp add: bit_count_loop.simps [of n c] nat_ones_clear_lowest)
  qed (simp add: bit_count_loop.simps)
qed

lemma srsran_bit_count_card: "srsran_bit_count n = card {i. bit n i}"
  by (simp add: srsran_bit_count_def bit_count_loop_ones nat_ones_card bit_unsigned_iff)

section \<open>Bit interleavers\<close>

text \<open>
  The packed input and output are byte arrays; \<open>mask\<close> selects the bits of a byte from the most
  significant one. Output starts at bit \<open>w_offset\<close> of the first byte.
\<close>

definition mask8 :: "u8 list" where
  "mask8 = [0x80, 0x40, 0x20, 0x10, 0x8, 0x4, 0x2, 0x1]"

definition put_bit :: "u8 list \<Rightarrow> nat \<Rightarrow> nat \<Rightarrow> bool \<Rightarrow> u8 list" where
  "put_bit output b j on =
     (if on then output[b := output ! b OR mask8 ! j] else output[b := output ! b AND NOT (mask8 ! j)])"

definition in_bit :: "u8 list \<Rightarrow> nat \<Rightarrow> bool" where
  "in_bit input i_p \<longleftrightarrow> input ! (i_p div 8) AND mask8 ! (i_p mod 8) \<noteq> 0"

definition gather_byte :: "(nat \<Rightarrow> bool) \<Rightarrow> u8" where
  "gather_byte f =
     (if f 0 then mask8 ! 0 else 0) OR (if f 1 then mask8 ! 1 else 0) OR
     (if f 2 then mask8 ! 2 else 0) OR (if f 3 then mask8 ! 3 else 0) OR
     (if f 4 then mask8 ! 4 else 0) OR (if f 5 then mask8 ! 5 else 0) OR
     (if f 6 then mask8 ! 6 else 0) OR (if f 7 then mask8 ! 7 else 0)"

definition interleave_head :: "u8 list \<Rightarrow> u8 list \<Rightarrow> nat list \<Rightarrow> nat \<Rightarrow> nat \<times> nat \<times> u8 list" where
  "interleave_head input output interleaver w_offset =
     (if w_offset < 8 \<and> w_offset > 0
      then (1, 8 - w_offset,
            foldl (\<lambda>o' j. put_bit o' 0 (j + w_offset) (in_bit input (interleaver ! j)))
              output [0..<8 - w_offset])
      else (0, 0, output))"

definition interleave_tail :: "u8 list \<Rightarrow> u8 list \<Rightarrow> nat list \<Rightarrow> nat \<Rightarrow> nat \<Rightarrow> u8 list" where
  "interleave_tail input output interleaver nof_bits w_offset =
     (let src = \<lambda>j. in_bit input (interleaver ! sub32 ((nof_bits div 8) * 8 + j) w_offset);
          out1 = foldl (\<lambda>o' j. put_bit o' (nof_bits div 8) j (src j)) output [0..<nof_bits mod 8]
      in foldl (\<lambda>o' j. put_bit o' (nof_bits div 8) j (src j)) out1 [0..<w_offset])"

definition srsran_bit_interleave_w_offset ::
  "u8 list \<Rightarrow> u8 list \<Rightarrow> nat list \<Rightarrow> nat \<Rightarrow> nat \<Rightarrow> u8 list" where
  "srsran_bit_interleave_w_offset input output interleaver nof_bits w_offset =
     (let (st, w_offset_p, out1) = interleave_head input output interleaver w_offset;
          out2 = foldl (\<lambda>o' i. o'[i := gather_byte (\<lambda>k. in_bit input (interleaver ! (i * 8 + k - w_offset_p)))])
                   out1 [st..<nof_bits div 8]
      in interleave_tail input out2 interleaver nof_bits w_offset)"

definition srsran_bit_interleave :: "u8 list \<Rightarrow> u8 list \<Rightarrow> nat list \<Rightarrow> nat \<Rightarrow> u8 list" where
  "srsran_bit_interleave input output interleaver nof_bits =
     srsran_bit_interleave_w_offset input output interleaver nof_bits 0"

record srsran_bit_interleaver_t =
  il_interleaver :: "nat list"
  il_byte_idx :: "nat list"
  il_bit_mask :: "u8 list"
  il_nof_bits :: nat

definition srsran_bit_interleaver_init :: "nat list \<Rightarrow> nat \<Rightarrow> srsran_bit_interleaver_t" where
  "srsran_bit_interleaver_init interleaver nof_bits =
     \<lparr>il_interleaver = map (\<lambda>i. interleaver ! i) [0..<nof_bits],
      il_byte_idx = map (\<lambda>i. interleaver ! i div 8) [0..<nof_bits],
      il_bit_mask = map (\<lambda>i. mask8 ! (interleaver ! i mod 8)) [0..<nof_bits],
      il_nof_bits = nof_bits\<rparr>"

text \<open>
  The byte loop \<open>for (; i < nof_bits - 7; i += 8)\<close> visits the byte numbers from \<open>st\<close> to
  \<open>nof_bits / 8 - 1\<close>; the pointers into the tables start \<open>w_offset_p\<close> entries back.
\<close>

definition srsran_bit_interleaver_run ::
  "srsran_bit_interleaver_t \<Rightarrow> u8 list \<Rightarrow> u8 list \<Rightarrow> nat \<Rightarrow> u8 list" where
  "srsran_bit_interleaver_run q input output w_offset =
     (let (st, w_offset_p, out1) = interleave_head input output (il_interleaver q) w_offset;
          out2 = foldl (\<lambda>o' b. o'[b := gather_byte (\<lambda>k.
                    input ! (il_byte_idx q ! (b * 8 - w_offset_p + k)) AND
                    il_bit_mask q ! (b * 8 - w_offset_p + k) \<noteq> 0)])
                   out1 [st..<il_nof_bits q div 8]
      in interleave_tail input out2 (il_interleaver q) (il_nof_bits q) w_offset)"

lemma bit_mask8: "j < 8 \<Longrightarrow> bit (mask8 ! j) k \<longleftrightarrow> k = 7 - j"
proof -
  assume "j < 8"
  then consider "j = 0" | "j = 1" | "j = 2" | "j = 3" | "j = 4" | "j = 5" | "j = 6" | "j = 7" by linarith
  moreover have "bit (push_bit i 1 :: u8) k \<longleftrightarrow> k = i" if "i < 8" for i
    using that by (auto simp: bit_exp_iff possible_bit_word)
  from this [of 0] this [of 1] this [of 2] this [of 3] this [of 4] this [of 5] this [of 6] this [of 7]
  have "bit (0x80 :: u8) k \<longleftrightarrow> k = 7" "bit (0x40 :: u8) k \<longleftrightarrow> k = 6" "bit (0x20 :: u8) k \<longleftrightarrow> k = 5"
    "bit (0x10 :: u8) k \<longleftrightarrow> k = 4" "bit (0x8 :: u8) k \<longleftrightarrow> k = 3" "bit (0x4 :: u8) k \<longleftrightarrow> k = 2"
    "bit (0x2 :: u8) k \<longleftrightarrow> k = 1" "bit (0x1 :: u8) k \<longleftrightarrow> k = 0"
    by simp_all
  ultimately show ?thesis by cases (simp_all add: mask8_def)
qed

lemma length_mask8 [simp]: "length mask8 = 8"
  by (simp add: mask8_def)

lemma in_bit_packed: "in_bit input p \<longleftrightarrow> packed_bit input p"
proof -
  have "in_bit input p \<longleftrightarrow> (\<exists>k < 8. bit (input ! (p div 8)) k \<and> bit (mask8 ! (p mod 8)) k)"
    unfolding in_bit_def by (auto simp: bit_and_iff bit_eq_iff possible_bit_word)
  then show ?thesis by (auto simp: bit_mask8 packed_bit_def)
qed

lemma bit_gather_byte: "k < 8 \<Longrightarrow> bit (gather_byte f) k \<longleftrightarrow> f (7 - k)"
proof -
  have gm: "bit (if b then mask8 ! j else 0) m \<longleftrightarrow> b \<and> m = 7 - j" if "j < 8" for b j m
    using that by (simp add: bit_mask8)
  assume "k < 8"
  then consider "k = 0" | "k = 1" | "k = 2" | "k = 3" | "k = 4" | "k = 5" | "k = 6" | "k = 7" by linarith
  then show ?thesis
    unfolding gather_byte_def bit_or_iff by cases (simp_all add: gm split del: if_split)
qed

lemma gather_byte_cong: "(\<And>k. k < 8 \<Longrightarrow> f k = g k) \<Longrightarrow> gather_byte f = gather_byte g"
  by (rule bit_word_eqI) (simp add: bit_gather_byte)

lemma length_put_bit [simp]: "length (put_bit out b j on) = length out"
  by (simp add: put_bit_def)

lemma packed_bit_put_bit:
  assumes "b < length out" "j < 8"
  shows "packed_bit (put_bit out b j on) p = (if p div 8 = b \<and> p mod 8 = j then on else packed_bit out p)"
proof -
  have "7 - p mod 8 = 7 - j \<longleftrightarrow> p mod 8 = j" using assms(2) mod_less_divisor [of 8 p] by arith
  then show ?thesis
    using assms by (auto simp: put_bit_def packed_bit_def nth_list_update bit_or_iff bit_and_iff
        bit_not_iff bit_mask8 possible_bit_word)
qed

lemma length_foldl_put_bit [simp]:
  "length (foldl (\<lambda>o' j. put_bit o' b (h j) (g j)) out js) = length out"
  by (induction js arbitrary: out) simp_all

lemma packed_bit_put_bits:
  "b < length out \<Longrightarrow> s + m \<le> 8 \<Longrightarrow>
   packed_bit (foldl (\<lambda>o' j. put_bit o' b (j + s) (g j)) out [0..<m]) p =
     (if p div 8 = b \<and> s \<le> p mod 8 \<and> p mod 8 < s + m then g (p mod 8 - s) else packed_bit out p)"
  by (induction m) (auto simp: packed_bit_put_bit)

lemma packed_bit_gather:
  assumes "n \<le> length out" "p div 8 < length out"
  shows "packed_bit (foldl (\<lambda>o' i. o'[i := gather_byte (f i)]) out [m..<n]) p =
    (if m \<le> p div 8 \<and> p div 8 < n then f (p div 8) (p mod 8) else packed_bit out p)"
proof -
  have "7 - (7 - p mod 8) = p mod 8" "7 - p mod 8 < 8" using mod_less_divisor [of 8 p] by arith+
  then show ?thesis
    using assms by (simp add: packed_bit_def foldl_list_update_nth bit_gather_byte)
qed

text \<open>With no offset every output bit is the input bit its table entry names.\<close>

lemma interleave_correct:
  assumes "nof_bits < 2 ^ 32" "nof_bits \<le> 8 * length out" "p < 8 * length out"
  shows "packed_bit (srsran_bit_interleave input out il nof_bits) p =
    (if p < nof_bits then packed_bit input (il ! p) else packed_bit out p)"
proof -
  obtain d r where n: "nof_bits = 8 * d + r" "r < 8" "nof_bits div 8 = d" "nof_bits mod 8 = r" by (rule div8E)
  obtain i j where p: "p = 8 * i + j" "j < 8" "p div 8 = i" "p mod 8 = j" by (rule div8E)
  have d: "d \<le> length out" "i < length out" "r \<noteq> 0 \<Longrightarrow> d < length out" using assms n p by auto
  let ?out2 = "foldl (\<lambda>o' i. o'[i := gather_byte (\<lambda>k. in_bit input (il ! (i * 8 + k)))]) out [0..<d]"
  have mid: "packed_bit ?out2 p = (if i < d then in_bit input (il ! p) else packed_bit out p)"
    using d p by (simp add: packed_bit_gather mult.commute)
  have "srsran_bit_interleave input out il nof_bits =
      foldl (\<lambda>o' j. put_bit o' d j (in_bit input (il ! sub32 (d * 8 + j) 0))) ?out2 [0..<r]"
    by (simp add: srsran_bit_interleave_def srsran_bit_interleave_w_offset_def interleave_head_def
        interleave_tail_def n Let_def)
  moreover have "packed_bit \<dots> p = (if i = d \<and> j < r then in_bit input (il ! sub32 (d * 8 + j) 0)
      else packed_bit ?out2 p)"
    using packed_bit_put_bits [of d ?out2 0 r "\<lambda>j. in_bit input (il ! sub32 (d * 8 + j) 0)" p] d n p
    by (cases "r = 0") auto
  moreover have "i = d \<Longrightarrow> j < r \<Longrightarrow> sub32 (d * 8 + j) 0 = p" using assms n p by (simp add: sub32_le)
  moreover have "p < nof_bits \<longleftrightarrow> i < d \<or> i = d \<and> j < r" using n p by arith
  ultimately show ?thesis using mid by (auto simp: in_bit_packed)
qed

text \<open>
  With the offset of four bits that the turbo rate matcher uses for the parity streams, and whole
  bytes of input, the output starts in the middle of the first byte and ends in the middle of the
  last one.
\<close>

lemma interleave_offset_4_correct:
  assumes "nof_bits < 2 ^ 32" "nof_bits mod 8 = 0" "8 \<le> nof_bits" "nof_bits + 4 \<le> 8 * length out"
    and "p < 8 * length out"
  shows "packed_bit (srsran_bit_interleave_w_offset input out il nof_bits 4) p =
    (if 4 \<le> p \<and> p < nof_bits + 4 then packed_bit input (il ! (p - 4)) else packed_bit out p)"
proof -
  obtain d where n: "nof_bits = 8 * d" "nof_bits div 8 = d" "0 < d" using assms(2,3) by (cases "nof_bits div 8") auto
  obtain i j where p: "p = 8 * i + j" "j < 8" "p div 8 = i" "p mod 8 = j" by (rule div8E)
  have d: "d < length out" "i < length out" "0 < length out" using assms n p by auto
  let ?out1 = "foldl (\<lambda>o' j. put_bit o' 0 (j + 4) (in_bit input (il ! j))) out [0..<4]"
  let ?out2 = "foldl (\<lambda>o' i. o'[i := gather_byte (\<lambda>k. in_bit input (il ! (i * 8 + k - 4)))]) ?out1 [1..<d]"
  let ?src = "\<lambda>j. in_bit input (il ! sub32 (d * 8 + j) 4)"
  have 1: "packed_bit ?out1 p = (if i = 0 \<and> 4 \<le> j then in_bit input (il ! (j - 4)) else packed_bit out p)"
    using packed_bit_put_bits [of 0 out 4 4 "\<lambda>j. in_bit input (il ! j)" p] d p by auto
  have 2: "packed_bit ?out2 p = (if 1 \<le> i \<and> i < d then in_bit input (il ! (p - 4)) else packed_bit ?out1 p)"
    using packed_bit_gather [of d ?out1 p "\<lambda>i k. in_bit input (il ! (i * 8 + k - 4))" 1] d p
    by (simp add: mult.commute)
  have "srsran_bit_interleave_w_offset input out il nof_bits 4 =
      foldl (\<lambda>o' j. put_bit o' d j (?src j)) ?out2 [0..<4]"
    unfolding srsran_bit_interleave_w_offset_def interleave_head_def interleave_tail_def Let_def n(2)
    using assms(2) by simp
  moreover have "packed_bit \<dots> p = (if i = d \<and> j < 4 then ?src j else packed_bit ?out2 p)"
    using packed_bit_put_bits [of d ?out2 0 4 ?src p] d p by auto
  moreover have "i = d \<Longrightarrow> j < 4 \<Longrightarrow> sub32 (d * 8 + j) 4 = p - 4"
    using assms n p by (subst sub32_le) auto
  moreover have "4 \<le> p \<and> p < nof_bits + 4 \<longleftrightarrow> i = 0 \<and> 4 \<le> j \<or> 1 \<le> i \<and> i < d \<or> i = d \<and> j < 4"
    using n p by arith
  moreover have "i = 0 \<Longrightarrow> p = j" using p by simp
  ultimately show ?thesis using 1 2 n by (auto simp: in_bit_packed)
qed

text \<open>The table-driven interleaver computes what the direct one does.\<close>

lemma interleaver_run_eq:
  assumes "w_offset = 0 \<or> w_offset = 4 \<and> 8 \<le> nof_bits \<and> nof_bits mod 8 = 0" "nof_bits < 2 ^ 32"
  shows "srsran_bit_interleaver_run (srsran_bit_interleaver_init il nof_bits) input out w_offset =
    srsran_bit_interleave_w_offset input out il nof_bits w_offset"
proof -
  let ?q = "srsran_bit_interleaver_init il nof_bits"
  have q: "il_interleaver ?q ! i = il ! i" "il_byte_idx ?q ! i = il ! i div 8"
    "il_bit_mask ?q ! i = mask8 ! (il ! i mod 8)" if "i < nof_bits" for i
    using that by (simp_all add: srsran_bit_interleaver_init_def)
  have nq: "il_nof_bits ?q = nof_bits" by (simp add: srsran_bit_interleaver_init_def)
  obtain d r where n: "nof_bits = 8 * d + r" "r < 8" "nof_bits div 8 = d" "nof_bits mod 8 = r" by (rule div8E)
  have idx: "sub32 (d * 8 + j) w_offset < nof_bits" if "j < r \<or> j < w_offset" for j
    using that assms n by (auto simp: sub32_le)
  have head: "interleave_head input out (il_interleaver ?q) w_offset = interleave_head input out il w_offset"
    unfolding interleave_head_def using assms(1) by (auto intro!: foldl_cong simp: q)
  have byte: "gather_byte (\<lambda>k. input ! (il_byte_idx ?q ! (b * 8 - w_p + k)) AND
        il_bit_mask ?q ! (b * 8 - w_p + k) \<noteq> 0) =
      gather_byte (\<lambda>k. in_bit input (il ! (b * 8 + k - w_p)))"
    if "b < d" "w_p \<le> b * 8" for b w_p
  proof (rule gather_byte_cong)
    fix k :: nat assume "k < 8"
    then have "b * 8 - w_p + k < nof_bits" using that(1) n(1) by arith
    moreover have "b * 8 + k - w_p = b * 8 - w_p + k" using that(2) by simp
    ultimately show "(input ! (il_byte_idx ?q ! (b * 8 - w_p + k)) AND
        il_bit_mask ?q ! (b * 8 - w_p + k) \<noteq> 0) = in_bit input (il ! (b * 8 + k - w_p))"
      by (simp add: q in_bit_def)
  qed
  have tail: "interleave_tail input o' (il_interleaver ?q) nof_bits w_offset =
      interleave_tail input o' il nof_bits w_offset" for o'
  proof -
    have "foldl (\<lambda>o' j. put_bit o' d j (in_bit input (il_interleaver ?q ! sub32 (d * 8 + j) w_offset))) o1 [0..<m] =
        foldl (\<lambda>o' j. put_bit o' d j (in_bit input (il ! sub32 (d * 8 + j) w_offset))) o1 [0..<m]"
      if "m = r \<or> m = w_offset" for o1 m
      by (rule foldl_cong) (use that in \<open>auto simp: q idx\<close>)
    then show ?thesis unfolding interleave_tail_def Let_def n(3,4) by simp
  qed
  obtain st w_p o1 where h: "interleave_head input out il w_offset = (st, w_p, o1)"
    by (cases "interleave_head input out il w_offset") auto
  then have st: "st = 0 \<and> w_p = 0 \<or> st = 1 \<and> w_p = 4"
    using assms(1) by (auto simp: interleave_head_def)
  have "foldl (\<lambda>o' b. o'[b := gather_byte (\<lambda>k. input ! (il_byte_idx ?q ! (b * 8 - w_p + k)) AND
        il_bit_mask ?q ! (b * 8 - w_p + k) \<noteq> 0)]) o1 [st..<d] =
      foldl (\<lambda>o' i. o'[i := gather_byte (\<lambda>k. in_bit input (il ! (i * 8 + k - w_p)))]) o1 [st..<d]"
  proof (rule foldl_cong)
    fix a x assume "x \<in> set [st..<d]"
    then have "x < d" "w_p \<le> x * 8" using st by auto
    then show "a[x := gather_byte (\<lambda>k. input ! (il_byte_idx ?q ! (x * 8 - w_p + k)) AND
        il_bit_mask ?q ! (x * 8 - w_p + k) \<noteq> 0)] =
      a[x := gather_byte (\<lambda>k. in_bit input (il ! (x * 8 + k - w_p)))]"
      by (simp only: byte)
  qed simp_all
  then show ?thesis
    unfolding srsran_bit_interleaver_run_def srsran_bit_interleave_w_offset_def head nq tail n(3) h
    by simp
qed

text \<open>
  C16: packing any number of unpacked bits into bytes and unpacking them returns the bits, the unused
  bits of the last byte are zero, and unpacking whole bytes and packing them returns the bytes.
\<close>

theorem bit_vector_roundtrip:
  "(\<forall>bits n. unpacked_bits bits \<and> n \<le> length bits \<longrightarrow>
      srsran_bit_unpack_vector (srsran_bit_pack_vector bits n) n = take n bits \<and>
      (\<forall>p. n \<le> p \<and> p < 8 * ceil_div n 8 \<longrightarrow> \<not> packed_bit (srsran_bit_pack_vector bits n) p)) \<and>
   (\<forall>packed n. length packed = n div 8 \<and> n mod 8 = 0 \<longrightarrow>
      srsran_bit_pack_vector (srsran_bit_unpack_vector packed n) n = packed)"
  by (simp add: unpack_vector_pack_vector nth_pack_vector pack_vector_unpack_vector)

theorem bit_vector_roundtrip_witness:
  "srsran_bit_unpack_vector (srsran_bit_pack_vector [1, 0, 1, 1, 0, 0, 0, 1, 1, 0] 10) 10 = [1, 0, 1, 1, 0, 0, 0, 1, 1, 0] \<and>
   srsran_bit_pack_vector (srsran_bit_unpack_vector [0xA5, 0x5A] 16) 16 = [0xA5, 0x5A]"
  using conjunct1 [OF bit_vector_roundtrip, rule_format, of "[1, 0, 1, 1, 0, 0, 0, 1, 1, 0]" 10]
    conjunct2 [OF bit_vector_roundtrip, rule_format, of "[0xA5, 0x5A]" 16] by simp

text \<open>
  the table-driven bit interleaver of the rate matcher, run on \<open>nof_bits\<close> bits with the offset of
  4 bits used for the parity streams, writes at bit \<open>p\<close> of the output the input bit that entry
  \<open>p - 4\<close> of the table names and leaves every other output bit as it was; without an offset it
  writes at bit \<open>p\<close> the input bit that entry \<open>p\<close> names, for any number of bits.
\<close>

theorem bit_interleaver_correct:
  assumes "nof_bits < 2 ^ 32" "p < 8 * length out"
  shows "(nof_bits \<le> 8 * length out \<longrightarrow>
      packed_bit (srsran_bit_interleaver_run (srsran_bit_interleaver_init il nof_bits) input out 0) p =
        (if p < nof_bits then packed_bit input (il ! p) else packed_bit out p)) \<and>
    (nof_bits mod 8 = 0 \<and> 8 \<le> nof_bits \<and> nof_bits + 4 \<le> 8 * length out \<longrightarrow>
      packed_bit (srsran_bit_interleaver_run (srsran_bit_interleaver_init il nof_bits) input out 4) p =
        (if 4 \<le> p \<and> p < nof_bits + 4 then packed_bit input (il ! (p - 4)) else packed_bit out p))"
  using assms interleave_correct [of nof_bits out p input il] interleave_offset_4_correct [of nof_bits out p input il]
  by (auto simp: interleaver_run_eq srsran_bit_interleave_def)

theorem bit_interleaver_correct_witness:
  "packed_bit (srsran_bit_interleaver_run (srsran_bit_interleaver_init [7, 6, 5, 4, 3, 2, 1, 0] 8) [0x01] [0, 0] 4) 4"
  using bit_interleaver_correct [of 8 4 "[0, 0]" "[7, 6, 5, 4, 3, 2, 1, 0]" "[0x01]"]
  by (simp add: packed_bit_def)

end
