(* ===== verification/Crc.thy ===== *)
theory Crc
  imports Linear_Register Bit_Ops
begin

text \<open>
  The cyclic redundancy check of \<open>lib/src/phy/fec/crc.c\<close> and \<open>crc.h\<close>: the table-driven generator
  over bytes, the correction for a last partial byte, and the attach and match operations on
  unpacked and on packed messages. The state of a generator is its parameters, its table and
  the running remainder \<open>crcinit\<close>, which is kept unmasked between bytes as the source does.
  The specification is the bit-serial shift register with the same polynomial.
\<close>

unbundle bit_operations_syntax

section \<open>The generator\<close>

record srsran_crc_t =
  crc_table :: "u64 list"
  polynom :: u32
  order :: nat
  crcinit :: u64
  crcmask :: u64
  crchighbit :: u64

definition gen_crc_entry :: "srsran_crc_t \<Rightarrow> nat \<Rightarrow> u64" where
  "gen_crc_entry h i =
     (let pad = (if order h < 8 then 8 - order h else 0);
          ord = order h + pad - 8;
          polynom' = push_bit pad (polynom h);
          crchighbit' = (ucast (push_bit pad (crchighbit h)) :: u32);
          crc = foldl (\<lambda>crc _. let bit' = crc AND ucast crchighbit' \<noteq> 0;
                                    crc1 = push_bit 1 crc
                                in if bit' then crc1 XOR ucast polynom' else crc1)
                  (push_bit ord (of_nat i)) [0..<8::nat]
      in drop_bit pad crc AND crcmask h)"

definition gen_crc_table :: "srsran_crc_t \<Rightarrow> srsran_crc_t" where
  "gen_crc_table h = h\<lparr>crc_table := map (gen_crc_entry h) [0..<256]\<rparr>"

definition reversecrcbit :: "u32 \<Rightarrow> nat \<Rightarrow> srsran_crc_t \<Rightarrow> u64" where
  "reversecrcbit crc nbits h =
     ucast (foldl (\<lambda>crc _. if 1 AND crc = 1 then drop_bit 1 (crc XOR polynom h) else drop_bit 1 crc)
              crc [0..<nbits]) AND crcmask h"

definition srsran_crc_set_init :: "srsran_crc_t \<Rightarrow> u64 \<Rightarrow> srsran_crc_t \<times> int" where
  "srsran_crc_set_init crc_par crc_init_value =
     (let crc_par' = crc_par\<lparr>crcinit := crc_init_value\<rparr>
      in (crc_par', if crcinit crc_par' \<noteq> crcinit crc_par' AND crcmask crc_par' then -1 else 0))"

definition srsran_crc_init :: "u32 \<Rightarrow> nat \<Rightarrow> srsran_crc_t \<times> int" where
  "srsran_crc_init crc_poly crc_order =
     (let h = \<lparr>crc_table = replicate 256 0, polynom = crc_poly, order = crc_order, crcinit = 0,
               crcmask = push_bit 1 (push_bit (crc_order - 1) 1 - 1) OR 1,
               crchighbit = push_bit (crc_order - 1) 1\<rparr>;
          (h', ret) = srsran_crc_set_init h (crcinit h)
      in if ret \<noteq> 0 then (h', -1) else (gen_crc_table h', 0))"

definition srsran_crc_checksum_put_byte :: "srsran_crc_t \<Rightarrow> u8 \<Rightarrow> srsran_crc_t" where
  "srsran_crc_checksum_put_byte h byte =
     (let crc = crcinit h;
          idx = (if order h > 8
                 then (drop_bit (order h - 8) crc AND 0xff) XOR ucast byte
                 else (push_bit (8 - order h) crc AND 0xff) XOR ucast byte);
          crc' = push_bit 8 crc XOR crc_table h ! unat idx
      in h\<lparr>crcinit := crc'\<rparr>)"

definition srsran_crc_checksum_get :: "srsran_crc_t \<Rightarrow> u64" where
  "srsran_crc_checksum_get h = crcinit h AND crcmask h"

text \<open>The byte the loop of \<open>srsran_crc_checksum\<close> packs from position \<open>8 * i\<close>.\<close>

definition checksum_byte_at :: "u8 list \<Rightarrow> nat \<Rightarrow> nat \<Rightarrow> nat \<Rightarrow> u8" where
  "checksum_byte_at data len8 res8 i =
     (if i = len8
      then foldl (\<lambda>byte k. byte OR push_bit (7 - k) (data ! (8 * i + k))) 0 [0..<res8]
      else ucast (fst (srsran_bit_pack (drop (8 * i) data) 8) AND 0xFF))"

definition srsran_crc_checksum :: "srsran_crc_t \<Rightarrow> u8 list \<Rightarrow> nat \<Rightarrow> srsran_crc_t \<times> u32" where
  "srsran_crc_checksum h data len =
     (let h0 = fst (srsran_crc_set_init h 0);
          len8 = len div 8;
          res8 = len - len8 * 8;
          a = (if res8 > 0 then 1 else 0);
          h1 = foldl (\<lambda>h i. srsran_crc_checksum_put_byte h (checksum_byte_at data len8 res8 i))
                 h0 [0..<len8 + a];
          crc = (ucast (srsran_crc_checksum_get h1) :: u32)
      in (h1, if a = 1 then ucast (reversecrcbit crc (8 - res8) h1) else crc))"

definition srsran_crc_checksum_byte :: "srsran_crc_t \<Rightarrow> u8 list \<Rightarrow> nat \<Rightarrow> srsran_crc_t \<times> u32" where
  "srsran_crc_checksum_byte h data len =
     (let h0 = fst (srsran_crc_set_init h 0);
          h1 = foldl (\<lambda>h i. srsran_crc_checksum_put_byte h (data ! i)) h0 [0..<len div 8]
      in (h1, ucast (srsran_crc_checksum_get h1)))"

definition srsran_crc_attach_byte ::
  "srsran_crc_t \<Rightarrow> u8 list \<Rightarrow> nat \<Rightarrow> srsran_crc_t \<times> u8 list \<times> u32" where
  "srsran_crc_attach_byte h data len =
     (let (h', checksum) = srsran_crc_checksum_byte h data len;
          data' = foldl (\<lambda>data i. data[len div 8 + (order h div 8 - i - 1) :=
                       ucast (drop_bit (8 * i) (checksum AND push_bit (8 * i) 0xff))])
                    data [0..<order h div 8]
      in (h', data', checksum))"

definition srsran_crc_attach :: "srsran_crc_t \<Rightarrow> u8 list \<Rightarrow> nat \<Rightarrow> srsran_crc_t \<times> u8 list \<times> u32" where
  "srsran_crc_attach h data len =
     (let (h', checksum) = srsran_crc_checksum h data len
      in (h', store data len (srsran_bit_unpack checksum (order h)), checksum))"

definition srsran_crc_match :: "srsran_crc_t \<Rightarrow> u8 list \<Rightarrow> nat \<Rightarrow> srsran_crc_t \<times> bool" where
  "srsran_crc_match h data len =
     (let (h', crc) = srsran_crc_checksum h data (len + order h) in (h', crc = 0))"

definition srsran_crc_match_byte :: "srsran_crc_t \<Rightarrow> u8 list \<Rightarrow> nat \<Rightarrow> srsran_crc_t \<times> bool" where
  "srsran_crc_match_byte h data len =
     (let (h', crc) = srsran_crc_checksum_byte h data (len + order h) in (h', crc = 0))"

section \<open>The bit-serial register\<close>

text \<open>
  One step of a register of \<open>w\<close> bits with polynomial \<open>P\<close>; \<open>feed\<close> enters a message bit at the top.
\<close>

definition reg_step :: "nat \<Rightarrow> u64 \<Rightarrow> u64 \<Rightarrow> u64" where
  "reg_step w P c = take_bit w (push_bit 1 c XOR (if bit c (w - 1) then P else 0))"

definition reg_feed :: "nat \<Rightarrow> u64 \<Rightarrow> u64 \<Rightarrow> bool \<Rightarrow> u64" where
  "reg_feed w P c b = reg_step w P (c XOR (if b then push_bit (w - 1) 1 else 0))"

definition reg_unstep :: "u64 \<Rightarrow> u64 \<Rightarrow> u64" where
  "reg_unstep P c = drop_bit 1 (if bit c 0 then c XOR P else c)"

definition crc_spec :: "srsran_crc_t \<Rightarrow> bool list \<Rightarrow> u64" where
  "crc_spec h bs = foldl (reg_feed (order h) (ucast (polynom h))) 0 bs"

definition msg_bits :: "u8 list \<Rightarrow> bool list" where
  "msg_bits data = map (\<lambda>x. x = 1) data"

text \<open>
  The generator polynomials of the standard: monic of the given degree, with constant term.
\<close>

definition crc_poly_ok :: "u32 \<Rightarrow> nat \<Rightarrow> bool" where
  "crc_poly_ok P w \<longleftrightarrow> 1 \<le> w \<and> w \<le> 31 \<and> bit P 0 \<and> bit P w \<and> take_bit (w + 1) P = P"

text \<open>A generator as \<open>srsran_crc_init\<close> leaves it, with any running remainder.\<close>

definition crc_inv :: "srsran_crc_t \<Rightarrow> bool" where
  "crc_inv h \<longleftrightarrow> crc_poly_ok (polynom h) (order h) \<and> crcmask h = mask (order h) \<and>
     crchighbit h = push_bit (order h - 1) 1 \<and> crc_table h = map (gen_crc_entry h) [0..<256]"

interpretation reg: linear_register "reg_step w P" for w P
proof
  fix x y
  show "reg_step w P (x XOR y) = reg_step w P x XOR reg_step w P y"
    by (rule bit_word_eqI) (auto simp: reg_step_def bit_take_bit_iff bit_xor_iff bit_push_bit_word)
qed

lemma reg_step_width [simp]: "take_bit w (reg_step w P x) = reg_step w P x"
  by (simp add: reg_step_def)

lemma reg_funpow_width: "0 < n \<Longrightarrow> take_bit w ((reg_step w P ^^ n) x) = (reg_step w P ^^ n) x"
  by (cases n) simp_all

lemma take_bit_bitD: "take_bit n x = x \<Longrightarrow> bit (x :: u64) k \<Longrightarrow> k < n"
  by (simp add: take_bit_eq_iff_word)

lemma take_bit_push_bitI: "take_bit m x = x \<Longrightarrow> m + n \<le> w \<Longrightarrow> take_bit w (push_bit n x) = push_bit n (x :: u64)"
  by (fastforce simp: take_bit_eq_iff_word bit_push_bit_word)

lemma reg_step_no_feedback:
  assumes "take_bit (w - 1) x = x" "0 < w"
  shows "reg_step w P x = push_bit 1 x"
proof -
  have "\<not> bit x (w - 1)" using assms take_bit_bitD [of "w - 1" x "w - 1"] by auto
  moreover have "take_bit w (push_bit 1 x) = push_bit 1 x"
    using assms by (intro take_bit_push_bitI [of "w - 1"]) auto
  ultimately show ?thesis by (simp add: reg_step_def)
qed

lemma reg_funpow_no_feedback:
  assumes "take_bit (w - n) x = x" "n \<le> w"
  shows "(reg_step w P ^^ n) x = push_bit n x"
  using assms
proof (induction n)
  case (Suc n)
  have "take_bit (w - n) x = x" using Suc.prems(1) by (fastforce simp: take_bit_eq_iff_word)
  then have IH: "(reg_step w P ^^ n) x = push_bit n x" using Suc by simp
  have "take_bit (w - 1) (push_bit n x) = push_bit n x"
    using Suc.prems by (intro take_bit_push_bitI [of "w - Suc n"]) auto
  then have "reg_step w P (push_bit n x) = push_bit 1 (push_bit n x)"
    using Suc.prems(2) by (intro reg_step_no_feedback) auto
  then show ?case using IH by (simp add: push_bit_push_bit)
qed simp

text \<open>
  Entering the \<open>n\<close> bits of a value one at a time is the same as adding the value at the top of the
  register and stepping \<open>n\<close> times.
\<close>

lemma reg_feed_value:
  assumes "n \<le> w" "take_bit n v = v" "w \<le> 64"
  shows "foldl (reg_feed w P) c (map (\<lambda>i. bit v (n - i - 1)) [0..<n]) =
    (reg_step w P ^^ n) (c XOR push_bit (w - n) v)"
  using assms
proof (induction n arbitrary: c v)
  case 0
  then show ?case by simp
next
  case (Suc n)
  define v' where "v' = take_bit n v"
  define top where "top = (if bit v n then push_bit (w - 1) 1 else 0 :: u64)"
  have v': "take_bit n v' = v'" by (simp add: v'_def)
  have split: "push_bit (w - Suc n) v = top XOR push_bit (w - Suc n) v'"
  proof (rule bit_word_eqI)
    fix k assume "k < LENGTH(64)"
    then show "bit (push_bit (w - Suc n) v) k = bit (top XOR push_bit (w - Suc n) v') k"
      using Suc.prems take_bit_bitD [OF Suc.prems(2), of "k - (w - Suc n)"]
      by (auto simp: top_def v'_def bit_push_bit_word bit_xor_iff bit_take_bit_iff bit_exp_iff
          possible_bit_word less_Suc_eq)
  qed
  have low: "push_bit (w - n) v' = reg_step w P (push_bit (w - Suc n) v')"
  proof -
    have "take_bit (w - 1) (push_bit (w - Suc n) v') = push_bit (w - Suc n) v'"
      using Suc.prems(1) by (intro take_bit_push_bitI [OF v']) auto
    then have "reg_step w P (push_bit (w - Suc n) v') = push_bit 1 (push_bit (w - Suc n) v')"
      using Suc.prems(1) by (intro reg_step_no_feedback) auto
    then show ?thesis using Suc.prems(1) by (simp add: push_bit_push_bit Suc_diff_Suc)
  qed
  have bits: "map (\<lambda>i. bit v (Suc n - i - 1)) [0..<Suc n] = bit v n # map (\<lambda>i. bit v' (n - i - 1)) [0..<n]"
    by (rule nth_equalityI) (auto simp: nth_Cons' v'_def bit_take_bit_iff simp del: upt_Suc)
  have "foldl (reg_feed w P) c (map (\<lambda>i. bit v (Suc n - i - 1)) [0..<Suc n]) =
      foldl (reg_feed w P) (reg_step w P (c XOR top)) (map (\<lambda>i. bit v' (n - i - 1)) [0..<n])"
    unfolding bits by (simp add: reg_feed_def [of w P c] top_def)
  also have "\<dots> = (reg_step w P ^^ n) (reg_step w P (c XOR top) XOR reg_step w P (push_bit (w - Suc n) v'))"
    using Suc.IH [OF _ v'] Suc.prems by (simp add: low)
  also have "\<dots> = (reg_step w P ^^ n) (reg_step w P (c XOR push_bit (w - Suc n) v))"
    by (simp add: split reg.step_xor ac_simps)
  finally show ?case by (simp add: funpow_swap1)
qed

section \<open>The table\<close>

text \<open>
  For orders below 8 the source works on a register padded to 8 bits. \<open>crc_pad\<close> is the padding,
  \<open>crc_width\<close> and \<open>crc_poly\<close> the width and the polynomial of the padded register.
\<close>

definition crc_pad :: "srsran_crc_t \<Rightarrow> nat" where
  "crc_pad h = (if order h < 8 then 8 - order h else 0)"

definition crc_width :: "srsran_crc_t \<Rightarrow> nat" where
  "crc_width h = order h + crc_pad h"

definition crc_poly :: "srsran_crc_t \<Rightarrow> u64" where
  "crc_poly h = push_bit (crc_pad h) (ucast (polynom h))"

lemma foldl_const_funpow: "foldl (\<lambda>x _. f x) a xs = (f ^^ length xs) a"
  by (induction xs arbitrary: a) (simp_all add: funpow_swap1)

lemma crc_inv_bounds:
  assumes "crc_inv h"
  shows "1 \<le> order h" "order h \<le> 31" "8 \<le> crc_width h" "crc_width h \<le> 31"
    "crc_pad h \<noteq> 0 \<Longrightarrow> crc_width h = 8" "crc_pad h < 8"
  using assms by (auto simp: crc_inv_def crc_poly_ok_def crc_width_def crc_pad_def)

lemma crc_poly_ucast:
  assumes "crc_inv h"
  shows "ucast (push_bit (crc_pad h) (polynom h)) = crc_poly h"
proof (rule bit_word_eqI)
  fix k assume "k < LENGTH(64)"
  have "bit (polynom h) m \<Longrightarrow> m < order h + 1" for m
    using assms by (simp add: crc_inv_def crc_poly_ok_def take_bit_eq_iff_word)
  from this [of "k - crc_pad h"]
  show "bit (ucast (push_bit (crc_pad h) (polynom h)) :: u64) k = bit (crc_poly h) k"
    using crc_inv_bounds [OF assms] \<open>k < LENGTH(64)\<close>
    by (auto simp: crc_poly_def bit_ucast_iff bit_push_bit_word crc_width_def)
qed

lemma crc_highbit_ucast:
  assumes "crc_inv h"
  shows "(ucast (ucast (push_bit (crc_pad h) (crchighbit h)) :: u32) :: u64) = push_bit (crc_width h - 1) 1"
proof -
  have "push_bit (crc_pad h) (crchighbit h) = push_bit (crc_width h - 1) 1"
  proof -
    have "crc_pad h + (order h - 1) = crc_width h - 1"
      using crc_inv_bounds [OF assms] by (simp add: crc_width_def)
    moreover have "crchighbit h = push_bit (order h - 1) 1" using assms by (simp add: crc_inv_def)
    ultimately show ?thesis by (simp only: push_bit_push_bit)
  qed
  then show ?thesis
    using crc_inv_bounds [OF assms]
    by (intro bit_word_eqI) (auto simp: bit_ucast_iff bit_exp_iff possible_bit_word)
qed

definition raw_step :: "nat \<Rightarrow> u64 \<Rightarrow> u64 \<Rightarrow> u64" where
  "raw_step w P c = push_bit 1 c XOR (if bit c (w - 1) then P else 0)"

lemma take_bit_raw_step: "0 < w \<Longrightarrow> take_bit w (raw_step w P c) = reg_step w P (take_bit w c)"
  by (rule bit_word_eqI)
    (auto simp: raw_step_def reg_step_def bit_take_bit_iff bit_xor_iff bit_times_2_word)

lemma take_bit_raw_funpow: "0 < w \<Longrightarrow> take_bit w ((raw_step w P ^^ n) c) = (reg_step w P ^^ n) (take_bit w c)"
  by (induction n) (simp_all add: take_bit_raw_step)

lemma and_push_bit_1: "c AND push_bit m 1 = 0 \<longleftrightarrow> \<not> bit (c :: u64) m"
  using and_exp_eq_0_iff_not_bit [of c m] by simp

lemma gen_crc_entry_eq:
  assumes "crc_inv h" "i < 256"
  shows "gen_crc_entry h i = drop_bit (crc_pad h)
    ((reg_step (crc_width h) (crc_poly h) ^^ 8) (push_bit (crc_width h - 8) (of_nat i)))"
proof -
  let ?w = "crc_width h" and ?pad = "crc_pad h"
  have step: "(\<lambda>crc. let bit' = crc AND ucast (ucast (push_bit ?pad (crchighbit h)) :: u32) \<noteq> 0;
         crc1 = push_bit 1 crc in if bit' then crc1 XOR ucast (push_bit ?pad (polynom h)) else crc1) =
      raw_step ?w (crc_poly h)"
    unfolding crc_highbit_ucast [OF assms(1)] crc_poly_ucast [OF assms(1)] Let_def and_push_bit_1
    by (auto simp: raw_step_def fun_eq_iff)
  have start: "take_bit ?w (push_bit (?w - 8) (of_nat i)) = push_bit (?w - 8) (of_nat i :: u64)"
  proof (rule take_bit_push_bitI)
    have "take_bit 8 (of_nat i :: u64) = of_nat (take_bit 8 i)" by (simp add: take_bit_of_nat)
    then show "take_bit 8 (of_nat i) = (of_nat i :: u64)" using assms(2) by (simp add: take_bit_eq_mod)
  qed (use crc_inv_bounds [OF assms(1)] in simp)
  have "gen_crc_entry h i = drop_bit ?pad ((raw_step ?w (crc_poly h) ^^ 8) (push_bit (?w - 8) (of_nat i))) AND mask (order h)"
  proof -
    have m: "crcmask h = mask (order h)" using assms(1) by (simp add: crc_inv_def)
    show ?thesis
      unfolding gen_crc_entry_def crc_pad_def [symmetric] Let_def [of "crc_pad h"]
        Let_def [of "order h + crc_pad h - 8"] Let_def [of "push_bit (crc_pad h) (polynom h)"]
        Let_def [of "ucast (push_bit (crc_pad h) (crchighbit h)) :: u32"] step foldl_const_funpow m
        crc_width_def [symmetric]
      by simp
  qed
  also have "\<dots> = drop_bit ?pad (take_bit ?w ((raw_step ?w (crc_poly h) ^^ 8) (push_bit (?w - 8) (of_nat i))))"
    by (simp add: crc_width_def drop_bit_take_bit flip: take_bit_eq_mask)
  finally show ?thesis
    using crc_inv_bounds [OF assms(1)] by (simp add: take_bit_raw_funpow start)
qed

section \<open>One byte\<close>

text \<open>The running remainder on the padded register.\<close>

definition crc_reg :: "srsran_crc_t \<Rightarrow> u64" where
  "crc_reg h = push_bit (crc_pad h) (take_bit (order h) (crcinit h))"

definition byte_bits :: "u8 \<Rightarrow> bool list" where
  "byte_bits b = map (\<lambda>i. bit b (7 - i)) [0..<8]"

lemma reg_low_zero:
  assumes "take_bit p P = 0" "p \<le> n" "p \<le> w"
  shows "take_bit p ((reg_step w P ^^ n) x) = 0"
proof -
  have "take_bit (min p m) ((reg_step w P ^^ m) x) = 0" for m
  proof (induction m)
    case (Suc m)
    show ?case
    proof (rule bit_word_eqI)
      fix k assume "k < LENGTH(64)"
      have P: "k < p \<Longrightarrow> \<not> bit P k" using assms(1) by (metis bit_take_bit_iff bit_0_eq bot_apply bot_bool_def)
      have "k - 1 < min p m \<Longrightarrow> \<not> bit ((reg_step w P ^^ m) x) (k - 1)"
        using Suc by (metis bit_take_bit_iff bit_0_eq bot_apply bot_bool_def)
      then show "bit (take_bit (min p (Suc m)) ((reg_step w P ^^ Suc m) x)) k = bit 0 k"
        using P assms(3) by (cases "0 < k \<and> k - 1 < min p m")
          (auto simp: reg_step_def bit_take_bit_iff bit_xor_iff bit_times_2_word)
    qed
  qed simp
  from this [of n] show ?thesis using assms(2) by (simp add: min_absorb1)
qed

lemma push_drop_bit: "take_bit p x = 0 \<Longrightarrow> push_bit p (drop_bit p x) = (x :: u64)"
  using bits_ident [of p x] by simp

lemma crc_poly_low: "take_bit (crc_pad h) (crc_poly h) = 0"
  by (rule bit_word_eqI) (auto simp: crc_poly_def bit_take_bit_iff bit_push_bit_word)

lemma byte_feed:
  assumes "8 \<le> w" "w \<le> 64"
  shows "foldl (reg_feed w P) c (byte_bits b) = (reg_step w P ^^ 8) (c XOR push_bit (w - 8) (ucast b))"
proof -
  have "take_bit 8 (ucast b) = (ucast b :: u64)"
    by (auto simp: take_bit_eq_iff_word bit_ucast_iff dest: bit_imp_le_length)
  moreover have "byte_bits b = map (\<lambda>i. bit (ucast b :: u64) (8 - i - 1)) [0..<8]"
    unfolding byte_bits_def by (intro map_cong) (auto simp: bit_ucast_iff dest: bit_imp_le_length)
  ultimately show ?thesis using assms reg_feed_value [of 8 w "ucast b" P c] by simp
qed

text \<open>The table index: the top byte of the register, with the message byte added.\<close>

lemma crc_index:
  assumes "crc_inv h"
  shows "(if order h > 8 then (drop_bit (order h - 8) (crcinit h) AND 0xff) XOR ucast byte
          else (push_bit (8 - order h) (crcinit h) AND 0xff) XOR ucast byte) =
    drop_bit (crc_width h - 8) (crc_reg h) XOR ucast byte"
proof -
  have m: "x AND 0xff = take_bit 8 x" for x :: u64 by (simp add: take_bit_eq_mask mask_numeral)
  show ?thesis
  proof (cases "order h > 8")
    case True
    then show ?thesis
      unfolding m by (simp add: crc_reg_def crc_width_def crc_pad_def drop_bit_take_bit)
  next
    case False
    then have w: "crc_width h = 8" "crc_pad h = 8 - order h"
      using crc_inv_bounds [OF assms] by (auto simp: crc_width_def crc_pad_def)
    have "take_bit 8 (push_bit (8 - order h) (crcinit h)) = push_bit (8 - order h) (take_bit (order h) (crcinit h))"
      by (rule bit_word_eqI) (use False in \<open>auto simp: bit_take_bit_iff bit_push_bit_word\<close>)
    then show ?thesis unfolding m using False by (simp add: w crc_reg_def)
  qed
qed

lemma gen_crc_entry_crcinit [simp]: "gen_crc_entry (h\<lparr>crcinit := x\<rparr>) = gen_crc_entry h"
  by (rule ext) (simp add: gen_crc_entry_def)

lemma gen_crc_entry_table [simp]: "gen_crc_entry (h\<lparr>crc_table := t\<rparr>) = gen_crc_entry h"
  by (rule ext) (simp add: gen_crc_entry_def)

lemma crc_inv_crcinit [simp]: "crc_inv (h\<lparr>crcinit := x\<rparr>) = crc_inv h"
  by (simp add: crc_inv_def)

lemma put_byte_crcinit: "\<exists>x. srsran_crc_checksum_put_byte h b = h\<lparr>crcinit := x\<rparr>"
  by (auto simp: srsran_crc_checksum_put_byte_def Let_def)

lemma put_byte_inv: "crc_inv h \<Longrightarrow> crc_inv (srsran_crc_checksum_put_byte h b)"
  using put_byte_crcinit [of h b] by auto

lemma put_byte_fields [simp]:
  "order (srsran_crc_checksum_put_byte h b) = order h"
  "polynom (srsran_crc_checksum_put_byte h b) = polynom h"
  "crcmask (srsran_crc_checksum_put_byte h b) = crcmask h"
  "crc_pad (srsran_crc_checksum_put_byte h b) = crc_pad h"
  "crc_width (srsran_crc_checksum_put_byte h b) = crc_width h"
  "crc_poly (srsran_crc_checksum_put_byte h b) = crc_poly h"
  by (simp_all add: srsran_crc_checksum_put_byte_def Let_def crc_pad_def crc_width_def crc_poly_def)

lemma put_byte_reg:
  assumes "crc_inv h"
  shows "crc_reg (srsran_crc_checksum_put_byte h b) =
    foldl (reg_feed (crc_width h) (crc_poly h)) (crc_reg h) (byte_bits b)"
proof -
  let ?w = "crc_width h" and ?P = "crc_poly h" and ?pad = "crc_pad h" and ?r = "crc_reg h"
  let ?S8 = "reg_step ?w ?P ^^ 8"
  note b = crc_inv_bounds [OF assms]
  define hi where "hi = drop_bit (?w - 8) ?r XOR ucast b"
  define lo where "lo = take_bit (?w - 8) ?r"
  have r_width: "take_bit ?w ?r = ?r"
    unfolding crc_reg_def by (rule take_bit_push_bitI [of "order h"]) (simp_all add: crc_width_def)
  have hi8: "take_bit 8 hi = hi"
    unfolding hi_def take_bit_eq_iff_word
  proof (intro allI impI)
    fix k assume "bit (drop_bit (?w - 8) ?r XOR ucast b) k"
    then consider "bit ?r (?w - 8 + k)" | "bit b k" by (auto simp: bit_xor_iff bit_drop_bit_eq bit_ucast_iff)
    then show "k < 8"
      by cases (use r_width b take_bit_bitD [OF r_width] in \<open>fastforce dest: bit_imp_le_length\<close>)+
  qed
  have "?r XOR push_bit (?w - 8) (ucast b) = push_bit (?w - 8) hi XOR lo"
    by (rule bit_word_eqI)
      (auto simp: hi_def lo_def bit_xor_iff bit_push_bit_word bit_drop_bit_eq bit_take_bit_iff)
  then have feed: "foldl (reg_feed ?w ?P) ?r (byte_bits b) = ?S8 (push_bit (?w - 8) hi) XOR ?S8 lo"
    using b by (simp add: byte_feed reg.funpow_xor)
  have lo8: "?S8 lo = push_bit 8 lo"
    by (rule reg_funpow_no_feedback) (use b in \<open>simp_all add: lo_def\<close>)
  have "unat hi = unat hi mod 2 ^ 8" using unat_take_bit_word [of 8 hi] hi8 by simp
  also have "\<dots> < 256" by simp
  finally have idx: "unat hi < 256" .
  have table: "crc_table h ! unat hi = drop_bit ?pad (?S8 (push_bit (?w - 8) hi))"
    using assms idx by (simp add: crc_inv_def gen_crc_entry_eq [OF assms idx])
  have tw: "push_bit ?pad (take_bit (order h) (drop_bit ?pad (?S8 (push_bit (?w - 8) hi)))) =
      ?S8 (push_bit (?w - 8) hi)"
  proof -
    let ?x = "?S8 (push_bit (?w - 8) hi)"
    have "take_bit ?w ?x = ?x" by (rule reg_funpow_width) simp
    then have "take_bit (order h) (drop_bit ?pad ?x) = drop_bit ?pad ?x"
      by (simp add: crc_width_def take_bit_drop_bit add.commute)
    moreover have "take_bit ?pad ?x = 0" using b by (intro reg_low_zero crc_poly_low) auto
    ultimately show ?thesis by (simp add: push_drop_bit)
  qed
  have "push_bit ?pad (take_bit (order h) (push_bit 8 (crcinit h))) = push_bit 8 lo"
    using b by (intro bit_word_eqI)
      (auto simp: lo_def crc_reg_def crc_width_def bit_push_bit_word bit_take_bit_iff add.commute)
  moreover have "crcinit (srsran_crc_checksum_put_byte h b) = push_bit 8 (crcinit h) XOR crc_table h ! unat hi"
    unfolding srsran_crc_checksum_put_byte_def Let_def crc_index [OF assms] hi_def by simp
  ultimately show ?thesis
    unfolding feed lo8 by (simp add: crc_reg_def [of "srsran_crc_checksum_put_byte h b"] table tw take_bit_xor push_bit_xor ac_simps)
qed

lemma foldl_put_byte:
  assumes "crc_inv h"
  shows "crc_inv (foldl srsran_crc_checksum_put_byte h bs)"
    "crc_reg (foldl srsran_crc_checksum_put_byte h bs) =
       foldl (reg_feed (crc_width h) (crc_poly h)) (crc_reg h) (concat (map byte_bits bs))"
    "polynom (foldl srsran_crc_checksum_put_byte h bs) = polynom h"
    "order (foldl srsran_crc_checksum_put_byte h bs) = order h"
  using assms by (induction bs arbitrary: h) (simp_all add: put_byte_inv put_byte_reg)

section \<open>From the padded register to the register\<close>

lemma reg_step_pad:
  assumes "0 < w" "w + p \<le> 64" "take_bit w c = c"
  shows "reg_step (w + p) (push_bit p P) (push_bit p c) = push_bit p (reg_step w P c)"
proof (rule bit_word_eqI)
  fix k assume k: "k < LENGTH(64)"
  have "bit (push_bit p c) (w + p - 1) = bit c (w - 1)"
    using assms take_bit_bitD [OF assms(3), of "w - 1"] by (auto simp: bit_push_bit_word)
  then show "bit (reg_step (w + p) (push_bit p P) (push_bit p c)) k = bit (push_bit p (reg_step w P c)) k"
    using k assms by (auto simp: reg_step_def bit_push_bit_word bit_take_bit_iff bit_xor_iff bit_times_2_word)
qed

lemma reg_feed_pad:
  assumes "0 < w" "w + p \<le> 64" "take_bit w c = c"
  shows "reg_feed (w + p) (push_bit p P) (push_bit p c) b = push_bit p (reg_feed w P c b)"
proof -
  have top: "push_bit p c XOR (if b then push_bit (w + p - 1) 1 else 0) =
      push_bit p (c XOR (if b then push_bit (w - 1) 1 else 0))"
    using assms by (cases b) (simp_all add: push_bit_xor push_bit_push_bit add.commute flip: push_bit_of_1)
  have "take_bit w (push_bit (w - 1) 1 :: u64) = push_bit (w - 1) 1"
    using assms(1) unfolding take_bit_eq_iff_word bit_push_bit_1_word by auto
  then have tw: "take_bit w (c XOR (if b then push_bit (w - 1) 1 else 0)) = c XOR (if b then push_bit (w - 1) 1 else 0)"
    using assms by (auto simp: take_bit_xor)
  show ?thesis unfolding reg_feed_def top by (rule reg_step_pad [OF assms(1,2) tw])
qed

lemma reg_feed_width [simp]: "take_bit w (reg_feed w P c b) = reg_feed w P c b"
  by (simp add: reg_feed_def)

lemma foldl_reg_feed_pad:
  assumes "0 < w" "w + p \<le> 64" "take_bit w c = c"
  shows "foldl (reg_feed (w + p) (push_bit p P)) (push_bit p c) bs = push_bit p (foldl (reg_feed w P) c bs)"
  using assms by (induction bs arbitrary: c) (simp_all add: reg_feed_pad)

lemma foldl_reg_feed_width: "take_bit w c = c \<Longrightarrow> take_bit w (foldl (reg_feed w P) c bs) = foldl (reg_feed w P) c bs"
  by (induction bs arbitrary: c) simp_all

lemma crc_spec_width: "take_bit (order h) (crc_spec h bs) = crc_spec h bs"
  by (simp add: crc_spec_def foldl_reg_feed_width)

text \<open>After any sequence of bytes the generator returns the remainder of their bits.\<close>

lemma checksum_get_bytes:
  assumes "crc_inv h" "crcinit h = 0"
  shows "srsran_crc_checksum_get (foldl srsran_crc_checksum_put_byte h bs) = crc_spec h (concat (map byte_bits bs))"
proof -
  let ?h = "foldl srsran_crc_checksum_put_byte h bs"
  note b = crc_inv_bounds [OF assms(1)]
  have pad: "crc_pad ?h = crc_pad h" by (simp add: crc_pad_def foldl_put_byte [OF assms(1)])
  have "crc_reg ?h = foldl (reg_feed (crc_width h) (crc_poly h)) (push_bit (crc_pad h) 0) (concat (map byte_bits bs))"
    using assms by (subst foldl_put_byte) (simp_all add: crc_reg_def)
  also have "\<dots> = push_bit (crc_pad h) (crc_spec h (concat (map byte_bits bs)))"
    unfolding crc_width_def crc_poly_def crc_spec_def
    by (rule foldl_reg_feed_pad) (use b in \<open>auto simp: crc_width_def\<close>)
  finally have reg: "push_bit (crc_pad h) (take_bit (order h) (crcinit ?h)) =
      push_bit (crc_pad h) (crc_spec h (concat (map byte_bits bs)))"
    by (simp add: crc_reg_def pad foldl_put_byte [OF assms(1)])
  have "take_bit (order h) (crcinit ?h) = crc_spec h (concat (map byte_bits bs))"
  proof (rule bit_word_eqI)
    fix k assume "k < LENGTH(64)"
    show "bit (take_bit (order h) (crcinit ?h)) k = bit (crc_spec h (concat (map byte_bits bs))) k"
    proof (cases "k < order h")
      case True
      then show ?thesis
        using arg_cong [OF reg, of "\<lambda>x. bit x (k + crc_pad h)"] b by (simp add: bit_push_bit_word crc_width_def)
    next
      case False
      then show ?thesis
        using take_bit_bitD [OF crc_spec_width [of h "concat (map byte_bits bs)"], of k] by (auto simp: bit_take_bit_iff)
    qed
  qed
  moreover have "crcmask ?h = mask (order h)"
    using foldl_put_byte [OF assms(1), of bs] by (simp add: crc_inv_def)
  ultimately show ?thesis by (simp add: srsran_crc_checksum_get_def take_bit_eq_mask)
qed

section \<open>The checksum of an unpacked message\<close>

lemma bit_checksum_byte_full:
  assumes "unpacked_bits data" "8 * i + 8 \<le> length data" "i \<noteq> len8" "j < 8"
  shows "bit (checksum_byte_at data len8 res8 i) (7 - j) \<longleftrightarrow> data ! (8 * i + j) = 1"
proof -
  have "bit (bits_word (drop (8 * i) data) 8 :: u32) (7 - j) \<longleftrightarrow> drop (8 * i) data ! (8 - (7 - j) - 1) = 1"
    using assms by (subst bit_bits_word) (auto intro: unpacked_bits_drop)
  also have "8 - (7 - j) - 1 = j" using assms(4) by simp
  also have "drop (8 * i) data ! j = data ! (8 * i + j)" using assms by simp
  finally have "bit (bits_word (drop (8 * i) data) 8 :: u32) (7 - j) \<longleftrightarrow> data ! (8 * i + j) = 1" .
  moreover have "x AND 0xFF = take_bit 8 x" for x :: u32 by (simp add: take_bit_eq_mask mask_numeral)
  moreover have "7 - j < 8" by (rule le_less_trans [of _ 7]) simp_all
  ultimately show ?thesis
    using assms(3) by (simp add: checksum_byte_at_def srsran_bit_pack_word bit_ucast_iff bit_take_bit_iff)
qed

lemma bit_checksum_byte_last:
  assumes "unpacked_bits data" "8 * i + res8 \<le> length data" "res8 < 8" "j < 8"
  shows "bit (checksum_byte_at data i res8 i) (7 - j) \<longleftrightarrow> j < res8 \<and> data ! (8 * i + j) = 1"
proof -
  have "bit (push_bit (7 - k) (data ! (8 * i + k))) (7 - j) \<longleftrightarrow> k = j \<and> data ! (8 * i + k) = 1"
    if "k < res8" for k
  proof -
    have "data ! (8 * i + k) = 0 \<or> data ! (8 * i + k) = 1"
      using assms that by (intro unpacked_bits_nth) auto
    then have "bit (data ! (8 * i + k)) m \<longleftrightarrow> m = 0 \<and> data ! (8 * i + k) = 1" for m
      by (rule bit_01_word)
    moreover have "7 - k \<le> 7 - j \<and> (7 - j) - (7 - k) = 0 \<longleftrightarrow> k = j" using that assms(3,4) by arith
    moreover have "7 - j < 8" by (rule le_less_trans [of _ 7]) simp_all
    ultimately show ?thesis by (simp add: bit_push_bit_word) blast
  qed
  then show ?thesis
    unfolding checksum_byte_at_def by (auto simp: bit_foldl_or)
qed

lemma length_concat_byte_bits [simp]: "length (concat (map byte_bits bs)) = 8 * length bs"
  by (induction bs) (simp_all add: byte_bits_def)

lemma nth_concat_byte_bits:
  assumes "p < 8 * length bs"
  shows "concat (map byte_bits bs) ! p = packed_bit bs p"
proof -
  have "concat (map byte_bits bs) = concat (map (\<lambda>i. byte_bits (bs ! i)) [0..<length bs])"
    by (rule arg_cong [of _ _ concat]) (rule nth_equalityI, simp_all)
  also have "\<dots> ! p = byte_bits (bs ! (p div 8)) ! (p mod 8)"
    using assms by (intro nth_concat_blocks) (simp_all add: byte_bits_def)
  finally show ?thesis by (simp add: byte_bits_def packed_bit_def)
qed

text \<open>The bits of the bytes the loop packs: the message, then zeros up to a whole byte.\<close>

lemma checksum_bytes_bits:
  assumes "unpacked_bits data" "len \<le> length data"
  shows "concat (map byte_bits (map (checksum_byte_at data (len div 8) (len mod 8)) [0..<ceil_div len 8])) =
    msg_bits (take len data) @ replicate (8 * ceil_div len 8 - len) False"
proof (rule nth_equalityI)
  show "length (concat (map byte_bits (map (checksum_byte_at data (len div 8) (len mod 8)) [0..<ceil_div len 8]))) =
    length (msg_bits (take len data) @ replicate (8 * ceil_div len 8 - len) False)"
    using assms ceil_div_mult_ge [of 8 len] by (simp add: msg_bits_def del: map_map)
next
  fix p
  let ?bs = "map (checksum_byte_at data (len div 8) (len mod 8)) [0..<ceil_div len 8]"
  assume "p < length (concat (map byte_bits ?bs))"
  then have p: "p < 8 * ceil_div len 8" by (simp del: map_map)
  obtain d r where n: "len = 8 * d + r" "r < 8" "len div 8 = d" "len mod 8 = r" by (rule div8E)
  obtain i j where pp: "p = 8 * i + j" "j < 8" "p div 8 = i" "p mod 8 = j" by (rule div8E)
  have c: "ceil_div len 8 = d + (if r \<noteq> 0 then 1 else 0)" by (simp add: ceil_div_8 n(3,4))
  have i: "i < ceil_div len 8" using p pp by simp
  have "concat (map byte_bits ?bs) ! p = bit (checksum_byte_at data d r i) (7 - j)"
    using p i by (simp add: nth_concat_byte_bits packed_bit_def pp(3,4) n(3,4) del: map_map)
  also have "\<dots> \<longleftrightarrow> p < len \<and> data ! p = 1"
  proof (cases "i = d")
    case True
    then show ?thesis using bit_checksum_byte_last [OF assms(1), of d r j] n(1,2) pp(1,2) assms(2) by auto
  next
    case False
    then have "i < d" using i c by (auto split: if_splits)
    then show ?thesis using bit_checksum_byte_full [OF assms(1), of i d j r] n(1) pp(1,2) assms(2) by auto
  qed
  finally show "concat (map byte_bits ?bs) ! p = (msg_bits (take len data) @ replicate (8 * ceil_div len 8 - len) False) ! p"
    using assms(2) p by (auto simp: nth_append msg_bits_def)
qed

section \<open>Undoing the padding\<close>

lemma bit_xor_u64 [simp]: "bit (x XOR y :: u64) k \<longleftrightarrow> bit x k \<noteq> bit y k"
  by (simp add: bit_xor_iff)

lemma invertible_reg:
  assumes "bit P 0" "bit P w" "take_bit (Suc w) P = P" "1 \<le> w" "w < 64"
  shows "invertible_register (reg_step w P) (reg_unstep P) w"
proof
  fix x :: u64 assume x: "take_bit w x = x"
  have high: "\<not> bit P k" if "w < k" for k
    using assms(3) that by (auto simp: take_bit_eq_iff_word)
  have low: "\<not> bit x k" if "w \<le> k" for k
    using x that by (auto simp: take_bit_eq_iff_word)
  have b0: "bit (reg_step w P x) 0 \<longleftrightarrow> bit x (w - 1)"
    using assms by (simp add: reg_step_def bit_take_bit_iff bit_times_2_word)
  have "bit (reg_unstep P (reg_step w P x)) k = bit x k" if "k < 64" for k
  proof -
    consider "Suc k = w" | "Suc k < w" | "w < Suc k" by linarith
    then show ?thesis
      by cases (use assms b0 high [of "Suc k"] low [of k] in
        \<open>auto simp: reg_unstep_def bit_drop_bit_eq reg_step_def bit_take_bit_iff bit_times_2_word\<close>)
  qed
  then show "reg_unstep P (reg_step w P x) = x" by (intro bit_word_eqI) simp
qed simp

lemma invertible_crc:
  assumes "crc_inv h"
  shows "invertible_register (reg_step (order h) (ucast (polynom h))) (reg_unstep (ucast (polynom h))) (order h)"
  using assms
  by (intro invertible_reg) (auto simp: crc_inv_def crc_poly_ok_def bit_ucast_iff take_bit_eq_iff_word)

interpretation crc24a: invertible_register "reg_step 24 0x1864CFB" "reg_unstep 0x1864CFB" 24
  by (rule invertible_reg) (simp_all add: take_bit_eq_mask mask_numeral)

interpretation crc24b: invertible_register "reg_step 24 0x1800063" "reg_unstep 0x1800063" 24
  by (rule invertible_reg) (simp_all add: take_bit_eq_mask mask_numeral)

interpretation crc16: invertible_register "reg_step 16 0x11021" "reg_unstep 0x11021" 16
  by (rule invertible_reg) (simp_all add: take_bit_eq_mask mask_numeral)

interpretation crc8: invertible_register "reg_step 8 0x19B" "reg_unstep 0x19B" 8
  by (rule invertible_reg) (simp_all add: take_bit_eq_mask mask_numeral)

lemma reg_feed_False [simp]: "reg_feed w P c False = reg_step w P c"
  by (simp add: reg_feed_def)

lemma foldl_reg_feed_zeros: "foldl (reg_feed w P) c (replicate n False) = (reg_step w P ^^ n) c"
  by (induction n arbitrary: c) (simp_all add: funpow_swap1)

lemma ucast_drop_bit_1: "ucast (drop_bit 1 (x :: u32)) = drop_bit 1 (ucast x :: u64)"
  by (rule bit_word_eqI) (auto simp: bit_ucast_iff bit_drop_bit_eq dest: bit_imp_le_length)

lemma ucast_xor_u32: "ucast (x XOR y :: u32) = (ucast x XOR ucast y :: u64)"
  by (rule bit_word_eqI) (auto simp: bit_ucast_iff bit_xor_iff)

lemma reversecrcbit_unstep:
  "reversecrcbit crc n h = (reg_unstep (ucast (polynom h)) ^^ n) (ucast crc) AND crcmask h"
proof -
  have step: "ucast (if 1 AND c = 1 then drop_bit 1 (c XOR polynom h) else drop_bit 1 c) =
      reg_unstep (ucast (polynom h)) (ucast c)" for c
  proof -
    have "1 AND c = 1 \<longleftrightarrow> bit (ucast c :: u64) 0"
    proof -
      have "1 AND c = of_bool (bit c 0)"
        by (rule bit_word_eqI) (auto simp: bit_and_iff bit_1_iff)
      moreover have "bit (ucast c :: u64) 0 = bit c 0" by (simp only: bit_ucast_iff) simp
      ultimately show ?thesis by simp
    qed
    then show ?thesis
      by (auto simp: reg_unstep_def ucast_drop_bit_1 ucast_xor_u32 simp del: One_nat_def)
  qed
  have "ucast (foldl (\<lambda>crc _. if 1 AND crc = 1 then drop_bit 1 (crc XOR polynom h) else drop_bit 1 crc) c xs) =
      (reg_unstep (ucast (polynom h)) ^^ length xs) (ucast c)" for c and xs :: "nat list"
    by (induction xs arbitrary: c) (simp_all add: step funpow_swap1 del: One_nat_def)
  then show ?thesis by (simp add: reversecrcbit_def)
qed

section \<open>The checksum is the remainder of the message\<close>

lemma ucast_ucast_width: "take_bit w x = x \<Longrightarrow> w \<le> 32 \<Longrightarrow> ucast (ucast (x :: u64) :: u32) = x"
  by (rule bit_word_eqI) (auto simp: bit_ucast_iff take_bit_eq_iff_word)

lemma set_init_crcinit: "fst (srsran_crc_set_init h v) = h\<lparr>crcinit := v\<rparr>"
  by (simp add: srsran_crc_set_init_def Let_def)

lemma crc_spec_crcinit [simp]: "crc_spec (h\<lparr>crcinit := v\<rparr>) = crc_spec h"
  by (rule ext) (simp add: crc_spec_def)

lemma foldl_put_bytes_map:
  "foldl (\<lambda>h i. srsran_crc_checksum_put_byte h (f i)) h is = foldl srsran_crc_checksum_put_byte h (map f is)"
  by (induction "is" arbitrary: h) simp_all

lemma crc_spec_append_zeros:
  "crc_spec h (bs @ replicate n False) = (reg_step (order h) (ucast (polynom h)) ^^ n) (crc_spec h bs)"
  by (simp add: crc_spec_def foldl_reg_feed_zeros)

lemma checksum_spec:
  assumes "crc_inv h" "unpacked_bits data" "len \<le> length data"
  shows "snd (srsran_crc_checksum h data len) = ucast (crc_spec h (msg_bits (take len data)))"
proof -
  let ?S = "reg_step (order h) (ucast (polynom h))" and ?U = "reg_unstep (ucast (polynom h))"
  let ?m = "crc_spec h (msg_bits (take len data))"
  obtain d r where n: "len = 8 * d + r" "r < 8" "len div 8 = d" "len mod 8 = r" by (rule div8E)
  have c: "ceil_div len 8 = d + (if r \<noteq> 0 then 1 else 0)" by (simp add: ceil_div_8 n(3,4))
  define h1 where "h1 = foldl srsran_crc_checksum_put_byte (h\<lparr>crcinit := 0\<rparr>)
    (map (checksum_byte_at data d r) [0..<ceil_div len 8])"
  have get: "srsran_crc_checksum_get h1 = (?S ^^ (8 * ceil_div len 8 - len)) ?m"
    unfolding h1_def using checksum_bytes_bits [OF assms(2,3)] assms(1)
    by (simp add: checksum_get_bytes crc_spec_append_zeros n(3,4) del: map_map)
  have fields: "polynom h1 = polynom h" "crcmask h1 = mask (order h)"
    using foldl_put_byte [of "h\<lparr>crcinit := 0\<rparr>"] assms(1) unfolding h1_def crc_inv_def by simp_all
  have width: "take_bit (order h) ((?S ^^ k) ?m) = (?S ^^ k) ?m" for k
    by (cases k) (simp_all add: crc_spec_width)
  have w32: "order h \<le> 32" using crc_inv_bounds [OF assms(1)] by simp
  have run: "snd (srsran_crc_checksum h data len) =
      (if r > 0 then ucast (reversecrcbit (ucast (srsran_crc_checksum_get h1)) (8 - r) h1)
       else ucast (srsran_crc_checksum_get h1))"
  proof -
    have r: "len - len div 8 * 8 = r" using n by simp
    have "foldl (\<lambda>h i. srsran_crc_checksum_put_byte h (checksum_byte_at data d r i)) (h\<lparr>crcinit := 0\<rparr>)
        [0..<d + (if 0 < r then 1 else 0)] = h1"
      unfolding h1_def foldl_put_bytes_map [symmetric] c by simp
    then show ?thesis
      unfolding srsran_crc_checksum_def Let_def set_init_crcinit r by (simp only: n(3)) simp
  qed
  show ?thesis
  proof (cases "r = 0")
    case True
    then show ?thesis using run get c n(1) by simp
  next
    case False
    then have pad: "8 * ceil_div len 8 - len = 8 - r" using n(1,2) c by simp
    have "reversecrcbit (ucast (srsran_crc_checksum_get h1)) (8 - r) h1 = (?U ^^ (8 - r)) ((?S ^^ (8 - r)) ?m) AND mask (order h)"
      unfolding reversecrcbit_unstep fields get pad using ucast_ucast_width [OF width w32] by simp
    also have "(?U ^^ (8 - r)) ((?S ^^ (8 - r)) ?m) = ?m"
      using invertible_register.unstep_funpow [OF invertible_crc [OF assms(1)]] crc_spec_width by blast
    also have "?m AND mask (order h) = ?m" by (simp add: crc_spec_width flip: take_bit_eq_mask)
    finally show ?thesis using run False by simp
  qed
qed

section \<open>Initialisation\<close>

lemma init_inv:
  assumes "crc_poly_ok P w"
  shows "crc_inv (fst (srsran_crc_init P w))" "snd (srsran_crc_init P w) = 0"
    "order (fst (srsran_crc_init P w)) = w" "polynom (fst (srsran_crc_init P w)) = P"
    "crcinit (fst (srsran_crc_init P w)) = 0"
proof -
  have w: "1 \<le> w" using assms by (simp add: crc_poly_ok_def)
  have "push_bit 1 (push_bit (w - 1) 1 - 1) OR 1 = (mask w :: u64)"
    using w mask_Suc_double [of "w - 1", where ?'a = u64]
    by (simp add: mask_eq_exp_minus_1 or.commute mult.commute)
  then have run: "srsran_crc_init P w = (gen_crc_table \<lparr>crc_table = replicate 256 0, polynom = P, order = w,
      crcinit = 0, crcmask = mask w, crchighbit = push_bit (w - 1) 1\<rparr>, 0)"
    by (simp add: srsran_crc_init_def Let_def srsran_crc_set_init_def)
  have "crc_inv (gen_crc_table h)" if "crc_poly_ok (polynom h) (order h)" "crcmask h = mask (order h)"
    "crchighbit h = push_bit (order h - 1) 1" for h
    using that by (simp add: crc_inv_def gen_crc_table_def)
  then show "crc_inv (fst (srsran_crc_init P w))"
    unfolding run fst_conv using assms by simp
  show "snd (srsran_crc_init P w) = 0"
    "order (fst (srsran_crc_init P w)) = w" "polynom (fst (srsran_crc_init P w)) = P"
    "crcinit (fst (srsran_crc_init P w)) = 0"
    unfolding run by (simp_all add: gen_crc_table_def)
qed

lemma crc_poly_ok_lte [simp]:
  "crc_poly_ok 0x1864CFB 24" "crc_poly_ok 0x1800063 24" "crc_poly_ok 0x1B2B117 24"
  "crc_poly_ok 0x11021 16" "crc_poly_ok 0x19B 8" "crc_poly_ok 0xE21 11" "crc_poly_ok 0x61 6"
  by (simp_all add: crc_poly_ok_def take_bit_eq_mask mask_numeral)

section \<open>Attach, match and error detection\<close>

lemma crc_spec_append: "crc_spec h (bs @ cs) = foldl (reg_feed (order h) (ucast (polynom h))) (crc_spec h bs) cs"
  by (simp add: crc_spec_def)

text \<open>Feeding the remainder itself clears the register.\<close>

lemma crc_spec_own_remainder:
  assumes "order h \<le> 64"
  shows "crc_spec h (bs @ map (\<lambda>i. bit (crc_spec h bs) (order h - i - 1)) [0..<order h]) = 0"
  unfolding crc_spec_append reg_feed_value [OF order_refl crc_spec_width assms] by simp

lemma crc_spec_zero_iff:
  assumes "crc_inv h"
  shows "(ucast (crc_spec h bs) :: u32) = 0 \<longleftrightarrow> crc_spec h bs = 0"
  using ucast_ucast_width [OF crc_spec_width, of h bs] crc_inv_bounds [OF assms] by auto

lemma match_iff:
  assumes "crc_inv h" "unpacked_bits data" "len + order h \<le> length data"
  shows "snd (srsran_crc_match h data len) \<longleftrightarrow> crc_spec h (msg_bits (take (len + order h) data)) = 0"
  using assms checksum_spec [OF assms] crc_spec_zero_iff
  by (auto simp: srsran_crc_match_def split: prod.splits)

lemma msg_bits_append [simp]: "msg_bits (xs @ ys) = msg_bits xs @ msg_bits ys"
  by (simp add: msg_bits_def)

lemma msg_bits_msb_bits: "msg_bits (msb_bits w n) = map (\<lambda>i. bit w (n - i - 1)) [0..<n]"
  by (auto simp: msg_bits_def msb_bits_def bit_of_def)

lemma unpacked_store: "unpacked_bits buf \<Longrightarrow> unpacked_bits xs \<Longrightarrow> unpacked_bits (store buf n xs)"
  by (simp add: store_def unpacked_bits_take unpacked_bits_drop)

text \<open>
  C18: after \<open>srsran_crc_attach\<close> the message bits and what follows the checksum are unchanged and
  \<open>srsran_crc_match\<close> accepts the block, for every message length.
\<close>

theorem crc_attach_match:
  assumes "crc_inv h" "unpacked_bits data" "len + order h \<le> length data"
  shows "let (h', data', c) = srsran_crc_attach h data len
         in take len data' = take len data \<and> drop (len + order h) data' = drop (len + order h) data \<and>
            snd (srsran_crc_match h data' len)"
proof -
  let ?c = "crc_spec h (msg_bits (take len data))"
  obtain h' where run: "srsran_crc_checksum h data len = (h', ucast ?c)"
    using checksum_spec [of h data len] assms by (metis add_leE prod.collapse)
  let ?tail = "srsran_bit_unpack (ucast ?c) (order h)"
  have tail: "msg_bits ?tail = map (\<lambda>i. bit ?c (order h - i - 1)) [0..<order h]"
    unfolding srsran_bit_unpack_msb msg_bits_msb_bits
    using crc_inv_bounds [OF assms(1)] by (intro map_cong) (auto simp: bit_ucast_iff)
  have len: "length ?tail = order h" by (simp add: srsran_bit_unpack_msb)
  have "take (len + order h) (store data len ?tail) = take len data @ ?tail"
    using take_store [of len ?tail data] assms(3) len by simp
  then have "crc_spec h (msg_bits (take (len + order h) (store data len ?tail))) = 0"
    using crc_spec_own_remainder [of h "msg_bits (take len data)"] crc_inv_bounds [OF assms(1)] by (simp add: tail)
  moreover have "unpacked_bits (store data len ?tail)"
    using assms(2) by (simp add: unpacked_store srsran_bit_unpack_msb)
  ultimately have "snd (srsran_crc_match h (store data len ?tail) len)"
    using assms len by (simp add: match_iff length_store)
  then show ?thesis
    using assms(3) len by (simp add: srsran_crc_attach_def run store_def)
qed

theorem crc_attach_match_witness:
  "let (h', data', c) = srsran_crc_attach (fst (srsran_crc_init 0x61 6)) [1, 0, 1, 1, 0, 0, 0, 0, 0, 0, 1] 5
   in take 5 data' = [1, 0, 1, 1, 0] \<and> drop 11 data' = [] \<and>
      snd (srsran_crc_match (fst (srsran_crc_init 0x61 6)) data' 5)"
  using crc_attach_match [of "fst (srsran_crc_init 0x61 6)" "[1, 0, 1, 1, 0, 0, 0, 0, 0, 0, 1]" 5]
  by (simp add: init_inv)

text \<open>The remainder of a corrupted message is that of the message plus that of the error.\<close>

lemma reg_feed_xor:
  "reg_feed w P (c XOR d) (a \<noteq> b) = reg_feed w P c a XOR reg_feed w P d b"
proof -
  have "(c XOR d) XOR (if a \<noteq> b then x else 0) = (c XOR (if a then x else 0)) XOR (d XOR (if b then x else 0))" for x
    by (cases a; cases b) (simp_all add: ac_simps)
  then show ?thesis unfolding reg_feed_def reg.step_xor [symmetric] by (simp only:)
qed

lemma foldl_reg_feed_xor:
  "length bs = length es \<Longrightarrow> foldl (reg_feed w P) (c XOR d) (map2 (\<noteq>) bs es) =
     foldl (reg_feed w P) c bs XOR foldl (reg_feed w P) d es"
proof (induction bs es arbitrary: c d rule: list_induct2)
  case (Cons a bs b es)
  show ?case
    unfolding zip_Cons_Cons list.map(2) foldl_Cons prod.case reg_feed_xor by (rule Cons.IH)
qed simp

lemma crc_spec_xor:
  "length bs = length es \<Longrightarrow> crc_spec h (map2 (\<noteq>) bs es) = crc_spec h bs XOR crc_spec h es"
  using foldl_reg_feed_xor [of bs es _ _ 0 0] by (simp add: crc_spec_def)

text \<open>A burst: a pattern of at most \<open>order\<close> bits, flipped at position \<open>p\<close>.\<close>

definition flip_burst :: "u8 list \<Rightarrow> nat \<Rightarrow> u8 list \<Rightarrow> u8 list" where
  "flip_burst data p pat = store data p (map2 (XOR) (take (length pat) (drop p data)) pat)"

lemma flip_burst_bits:
  assumes "unpacked_bits data" "unpacked_bits pat" "p + length pat \<le> n" "n \<le> length data"
  shows "msg_bits (take n (flip_burst data p pat)) = map2 (\<noteq>) (msg_bits (take n data))
      (replicate p False @ msg_bits pat @ replicate (n - p - length pat) False)"
    "unpacked_bits (flip_burst data p pat)" "length (flip_burst data p pat) = length data"
proof -
  have len: "length (map2 (XOR) (take (length pat) (drop p data)) pat) = length pat"
    using assms(3,4) by simp
  have fits: "p + length (map2 (XOR) (take (length pat) (drop p data)) pat) \<le> length data"
    using assms(3,4) len by simp
  have xor: "a XOR b = 1 \<longleftrightarrow> a \<noteq> b" "a XOR b = 0 \<or> a XOR b = 1" if "a = 0 \<or> a = 1" "b = 0 \<or> b = 1" for a b :: u8
    using that by auto
  have d01: "data ! i = 0 \<or> data ! i = 1" if "i < length data" for i
    using unpacked_bits_nth [OF assms(1) that] .
  have p01: "pat ! i = 0 \<or> pat ! i = 1" if "i < length pat" for i
    using unpacked_bits_nth [OF assms(2) that] .
  show "length (flip_burst data p pat) = length data"
    unfolding flip_burst_def by (rule length_store [OF fits])
  show "unpacked_bits (flip_burst data p pat)"
    unfolding flip_burst_def
  proof (rule unpacked_store [OF assms(1)])
    show "unpacked_bits (map2 (XOR) (take (length pat) (drop p data)) pat)"
      unfolding unpacked_bits_def
    proof
      fix x assume "x \<in> set (map2 (XOR) (take (length pat) (drop p data)) pat)"
      then obtain i where i: "i < length pat" "x = data ! (p + i) XOR pat ! i"
        using assms(3,4) by (auto simp: in_set_conv_nth)
      then show "x = 0 \<or> x = 1"
        using xor(2) [OF d01 [of "p + i"] p01 [of i]] assms(3,4) by simp
    qed
  qed
  show "msg_bits (take n (flip_burst data p pat)) = map2 (\<noteq>) (msg_bits (take n data))
      (replicate p False @ msg_bits pat @ replicate (n - p - length pat) False)" (is "?l = ?r")
  proof (rule nth_equalityI)
    show "length ?l = length ?r"
      using assms(3,4) length_store [OF fits] by (simp add: msg_bits_def flip_burst_def)
    fix i assume "i < length ?l"
    then have i: "i < n" by (simp add: msg_bits_def)
    then have "?l ! i \<longleftrightarrow> flip_burst data p pat ! i = 1"
      using assms(4) length_store [OF fits] by (simp add: msg_bits_def flip_burst_def)
    also have "\<dots> \<longleftrightarrow> (data ! i = 1) \<noteq> (p \<le> i \<and> i < p + length pat \<and> pat ! (i - p) = 1)"
    proof (cases "p \<le> i \<and> i < p + length pat")
      case True
      then have "flip_burst data p pat ! i = data ! i XOR pat ! (i - p)"
      proof -
        have "i - p < length pat" "i < length data" using True i assms(4) by auto
        then show ?thesis
          unfolding flip_burst_def using True assms(3,4) len by (simp add: nth_store [OF fits])
      qed
      moreover have "data ! i XOR pat ! (i - p) = 1 \<longleftrightarrow> data ! i \<noteq> pat ! (i - p)"
        using True i assms(4) by (intro xor(1) d01 p01) auto
      ultimately show ?thesis using True d01 [of i] p01 [of "i - p"] i assms(4) by auto
    next
      case False
      then have "flip_burst data p pat ! i = data ! i"
        unfolding flip_burst_def using i assms(4) len by (auto simp: nth_store [OF fits])
      then show ?thesis using False by auto
    qed
    also have "\<dots> \<longleftrightarrow> ?r ! i"
      using i assms(3,4) by (auto simp: msg_bits_def nth_append)
    finally show "?l ! i = ?r ! i" .
  qed
qed

lemma reg_feed_zeros_from_0: "foldl (reg_feed w P) 0 (replicate n False) = 0"
  by (simp add: foldl_reg_feed_zeros)

lemma crc_spec_burst:
  assumes "crc_inv h" "unpacked_bits pat" "length pat \<le> order h" "1 \<in> set pat"
  shows "crc_spec h (replicate p False @ msg_bits pat @ replicate q False) \<noteq> 0"
proof -
  let ?k = "length pat" and ?S = "reg_step (order h) (ucast (polynom h))"
  note b = crc_inv_bounds [OF assms(1)]
  define v where "v = (bits_word pat ?k :: u64)"
  have bit_v: "bit v i \<longleftrightarrow> i < ?k \<and> pat ! (?k - i - 1) = 1" for i
    using b assms(2,3) by (auto simp: v_def bit_bits_word)
  have v: "take_bit ?k v = v" by (simp add: take_bit_eq_iff_word bit_v)
  have "msg_bits pat = map (\<lambda>i. bit v (?k - i - 1)) [0..<?k]"
    by (rule nth_equalityI) (auto simp: msg_bits_def bit_v Suc_diff_Suc)
  then have feed: "foldl (reg_feed (order h) (ucast (polynom h))) 0 (msg_bits pat) =
      (?S ^^ ?k) (push_bit (order h - ?k) v)"
    using reg_feed_value [OF assms(3) v, of "ucast (polynom h)" 0] b by simp
  obtain i where "i < ?k" "pat ! i = 1" using assms(4) by (auto simp: in_set_conv_nth)
  then have "bit (push_bit (order h - ?k) v) (order h - ?k + (?k - i - 1))"
    using assms(3) b by (auto simp: bit_push_bit_word bit_v Suc_diff_Suc)
  then have nz: "push_bit (order h - ?k) v \<noteq> 0" by force
  have width: "take_bit (order h) (push_bit (order h - ?k) v) = push_bit (order h - ?k) v"
    by (rule take_bit_push_bitI [OF v]) (use assms(3) in simp)
  note inj = invertible_register.funpow_eq_0_iff [OF invertible_crc [OF assms(1)]]
  have "(?S ^^ ?k) (push_bit (order h - ?k) v) \<noteq> 0" using nz by (simp add: inj [OF width])
  moreover have "take_bit (order h) ((?S ^^ ?k) (push_bit (order h - ?k) v)) = (?S ^^ ?k) (push_bit (order h - ?k) v)"
    by (cases "?k = 0") (use width in \<open>auto intro: reg_funpow_width\<close>)
  ultimately have "(?S ^^ q) ((?S ^^ ?k) (push_bit (order h - ?k) v)) \<noteq> 0" by (simp add: inj)
  then show ?thesis
    by (simp add: crc_spec_def reg_feed_zeros_from_0 feed foldl_reg_feed_zeros)
qed

text \<open>
  C17: a block that \<open>srsran_crc_match\<close> accepts is rejected after any error burst: flipping a
  non-empty set of bits that lie within \<open>order\<close> consecutive positions, anywhere in the message or
  the checksum.
\<close>

theorem crc_burst_detected:
  assumes "crc_inv h" "unpacked_bits data" "len + order h \<le> length data"
    "snd (srsran_crc_match h data len)"
    "unpacked_bits pat" "length pat \<le> order h" "1 \<in> set pat" "p + length pat \<le> len + order h"
  shows "\<not> snd (srsran_crc_match h (flip_burst data p pat) len)"
proof -
  let ?e = "replicate p False @ msg_bits pat @ replicate (len + order h - p - length pat) False"
  note f = flip_burst_bits [OF assms(2,5,8,3)]
  have "length (msg_bits (take (len + order h) data)) = length ?e"
    using assms(3,8) by (simp add: msg_bits_def)
  then have "crc_spec h (msg_bits (take (len + order h) (flip_burst data p pat))) =
      crc_spec h (msg_bits (take (len + order h) data)) XOR crc_spec h ?e"
    unfolding f(1) by (rule crc_spec_xor)
  moreover have "crc_spec h (msg_bits (take (len + order h) data)) = 0"
    using assms(1-4) by (simp add: match_iff)
  ultimately have "crc_spec h (msg_bits (take (len + order h) (flip_burst data p pat))) \<noteq> 0"
    using crc_spec_burst [OF assms(1,5-7)] by simp
  then show ?thesis using assms(1,3) f(2,3) by (simp add: match_iff)
qed

theorem crc_burst_detected_witness:
  "\<not> snd (srsran_crc_match (fst (srsran_crc_init 0x61 6)) (flip_burst (replicate 11 0) 3 [1, 0, 1]) 5)"
proof -
  have "snd (srsran_crc_match (fst (srsran_crc_init 0x61 6)) (replicate 11 0) 5)"
    by (simp add: match_iff init_inv crc_spec_def msg_bits_def reg_feed_zeros_from_0)
  then show ?thesis
    using crc_burst_detected [of "fst (srsran_crc_init 0x61 6)" "replicate 11 0" 5 "[1, 0, 1]" 3]
    by (simp add: init_inv)
qed

section \<open>Packed messages\<close>

lemma checksum_byte_spec:
  assumes "crc_inv h" "len div 8 \<le> length data"
  shows "snd (srsran_crc_checksum_byte h data len) =
    ucast (crc_spec h (concat (map byte_bits (take (len div 8) data))))"
proof -
  have "map (\<lambda>i. data ! i) [0..<len div 8] = take (len div 8) data"
    using assms(2) by (intro nth_equalityI) simp_all
  moreover have "snd (srsran_crc_checksum_byte h data len) = ucast (srsran_crc_checksum_get
      (foldl srsran_crc_checksum_put_byte (h\<lparr>crcinit := 0\<rparr>) (map (\<lambda>i. data ! i) [0..<len div 8])))"
    unfolding srsran_crc_checksum_byte_def Let_def set_init_crcinit foldl_put_bytes_map [symmetric] by simp
  ultimately show ?thesis using assms(1) by (simp add: checksum_get_bytes)
qed

lemma match_byte_iff:
  assumes "crc_inv h" "(len + order h) div 8 \<le> length data"
  shows "snd (srsran_crc_match_byte h data len) \<longleftrightarrow>
    crc_spec h (concat (map byte_bits (take ((len + order h) div 8) data))) = 0"
proof -
  obtain h' c where run: "srsran_crc_checksum_byte h data (len + order h) = (h', c)" by fastforce
  then show ?thesis
    using checksum_byte_spec [OF assms] crc_spec_zero_iff [OF assms(1)]
    by (simp only: srsran_crc_match_byte_def Let_def prod.case snd_conv run)
qed

text \<open>The bytes \<open>srsran_crc_attach_byte\<close> appends, most significant byte first.\<close>

lemma attach_bytes_bits:
  assumes "length bs = m" "\<And>i. i < m \<Longrightarrow> bs ! i = ucast (drop_bit (8 * (m - Suc i)) (c :: u32))"
  shows "concat (map byte_bits bs) = map (\<lambda>i. bit c (8 * m - i - 1)) [0..<8 * m]"
proof (rule nth_equalityI)
  fix p assume "p < length (concat (map byte_bits bs))"
  then have p: "p < 8 * m" using assms(1) by simp
  obtain i j where pp: "p = 8 * i + j" "j < 8" "p div 8 = i" "p mod 8 = j" by (rule div8E)
  have "i < m" using p pp by simp
  then have e: "8 * (m - Suc i) + (7 - j) = 8 * m - p - 1" using pp(1,2) by (simp add: algebra_simps)
  have "7 - j < 8" by (rule le_less_trans [of _ 7]) simp_all
  then have "bit (ucast (drop_bit (8 * (m - Suc i)) c) :: u8) (7 - j) \<longleftrightarrow> bit c (8 * m - p - 1)"
    by (simp only: bit_ucast_iff bit_drop_bit_eq comp_def e) simp
  then have "packed_bit bs p \<longleftrightarrow> bit c (8 * m - p - 1)"
    by (simp only: packed_bit_def pp(3,4) assms(2) [OF \<open>i < m\<close>])
  then show "concat (map byte_bits bs) ! p = map (\<lambda>i. bit c (8 * m - i - 1)) [0..<8 * m] ! p"
    using p assms(1) by (simp add: nth_concat_byte_bits)
qed (use assms(1) in simp)

lemma attach_byte_byte: "ucast (drop_bit n (c AND push_bit n 0xff)) = (ucast (drop_bit n (c :: u32)) :: u8)"
proof (rule bit_word_eqI)
  fix k assume k: "k < LENGTH(8)"
  have "(0xff :: u32) = mask 8" by (simp add: mask_numeral)
  then have "bit (0xff :: u32) k" using k by (simp only: bit_mask_iff possible_bit_word) simp
  then show "bit (ucast (drop_bit n (c AND push_bit n 0xff)) :: u8) k = bit (ucast (drop_bit n c) :: u8) k"
    by (auto simp: bit_ucast_iff bit_drop_bit_eq bit_and_iff bit_push_bit_word dest: bit_imp_le_length)
qed

lemma foldl_store_down_from:
  "n + m \<le> length xs \<Longrightarrow> foldl (\<lambda>xs i. xs[n + (m - i - 1) := f i]) xs [0..<m] =
     store xs n (map (\<lambda>i. f (m - Suc i)) [0..<m])"
proof -
  assume len: "n + m \<le> length xs"
  have nth: "foldl (\<lambda>xs i. xs[n + (m - i - 1) := f i]) xs [0..<k] ! j =
      (if n + m - k \<le> j \<and> j < n + m then f (n + m - Suc j) else xs ! j)"
    if "k \<le> m" "j < length xs" for k j
    using that
  proof (induction k)
    case (Suc k)
    have e: "n + m - Suc (n + (m - k - 1)) = k" "n + (m - k - 1) < length xs" using Suc.prems len by simp_all
    consider "j = n + (m - k - 1)" | "j \<noteq> n + (m - k - 1)" by blast
    then show ?case
    proof cases
      case 1
      then show ?thesis using e Suc.prems by simp
    next
      case 2
      then have "n + m - Suc k \<le> j \<and> j < n + m \<longleftrightarrow> n + m - k \<le> j \<and> j < n + m"
        using Suc.prems by arith
      then show ?thesis using Suc 2 by simp
    qed
  qed auto
  show ?thesis
  proof (rule nth_equalityI)
    fix j assume "j < length (foldl (\<lambda>xs i. xs[n + (m - i - 1) := f i]) xs [0..<m])"
    then have j: "j < length xs" by simp
    then have "foldl (\<lambda>xs i. xs[n + (m - i - 1) := f i]) xs [0..<m] ! j =
        (if n \<le> j \<and> j < n + m then f (n + m - Suc j) else xs ! j)"
      using nth [of m j] by auto
    also have "\<dots> = store xs n (map (\<lambda>i. f (m - Suc i)) [0..<m]) ! j"
    proof (cases "n \<le> j \<and> j < n + m")
      case True
      then have "m - Suc (j - n) = n + m - Suc j" "j - n < m" by auto
      then show ?thesis using len j True by (simp add: nth_store)
    qed (use len j in \<open>auto simp: nth_store\<close>)
    finally show "foldl (\<lambda>xs i. xs[n + (m - i - 1) := f i]) xs [0..<m] ! j =
      store xs n (map (\<lambda>i. f (m - Suc i)) [0..<m]) ! j" .
  qed (use len in \<open>simp add: length_store\<close>)
qed

text \<open>
  on packed data \<open>srsran_crc_attach_byte\<close> writes the checksum, most significant byte first,
  after the message bytes, and \<open>srsran_crc_match_byte\<close> accepts the result.
\<close>

theorem crc_attach_byte_match:
  assumes "crc_inv h" "8 dvd len" "8 dvd order h" "(len + order h) div 8 \<le> length data"
  shows "let (h', data', c) = srsran_crc_attach_byte h data len
         in take (len div 8) data' = take (len div 8) data \<and> snd (srsran_crc_match_byte h data' len)"
proof -
  obtain n where n: "len = 8 * n" using assms(2) by blast
  obtain m where m: "order h = 8 * m" using assms(3) by blast
  have sum: "len + order h = 8 * (n + m)" by (simp add: n m)
  have div: "len div 8 = n" "order h div 8 = m" "(len + order h) div 8 = n + m"
    unfolding sum unfolding n m by simp_all
  have len: "n + m \<le> length data" using assms(4) by (simp only: div)
  let ?bits = "concat (map byte_bits (take n data))"
  let ?c = "crc_spec h ?bits"
  have "snd (srsran_crc_checksum_byte h data len) = ucast ?c"
    using checksum_byte_spec [OF assms(1), of len data] len by (simp add: div)
  then obtain h' where run: "srsran_crc_checksum_byte h data len = (h', ucast ?c)"
    by (metis prod.collapse)
  define tail where "tail = map (\<lambda>i. ucast (drop_bit (8 * (m - Suc i)) (ucast ?c :: u32)) :: u8) [0..<m]"
  have attach: "srsran_crc_attach_byte h data len = (h', store data n tail, ucast ?c)"
    by (simp only: srsran_crc_attach_byte_def run prod.case Let_def div attach_byte_byte
      foldl_store_down_from [OF len] tail_def)
  have [simp]: "length tail = m" by (simp add: tail_def)
  have "take (n + m) (store data n tail) = take n data @ tail"
    using take_store [of n tail data] len by simp
  moreover have "concat (map byte_bits tail) = map (\<lambda>i. bit (ucast ?c :: u32) (order h - i - 1)) [0..<order h]"
    unfolding m by (rule attach_bytes_bits) (simp_all add: tail_def)
  moreover have "map (\<lambda>i. bit (ucast ?c :: u32) (order h - i - 1)) [0..<order h] =
      map (\<lambda>i. bit ?c (order h - i - 1)) [0..<order h]"
    using crc_inv_bounds [OF assms(1)] by (intro map_cong) (auto simp: bit_ucast_iff)
  ultimately have "crc_spec h (concat (map byte_bits (take ((len + order h) div 8) (store data n tail)))) = 0"
    using crc_spec_own_remainder [of h ?bits] crc_inv_bounds [OF assms(1)] by (simp only: div) simp
  moreover have "(len + order h) div 8 \<le> length (store data n tail)"
    using len by (simp only: div length_store \<open>length tail = m\<close>)
  ultimately have "snd (srsran_crc_match_byte h (store data n tail) len)"
    using match_byte_iff [OF assms(1)] by blast
  then show ?thesis
    unfolding attach Let_def prod.case div using len by (simp add: store_def)
qed

theorem crc_attach_byte_match_witness:
  "let (h', data', c) = srsran_crc_attach_byte (fst (srsran_crc_init 0x11021 16)) [0xA5, 0x01, 0, 0] 16
   in take 2 data' = [0xA5, 0x01] \<and> snd (srsran_crc_match_byte (fst (srsran_crc_init 0x11021 16)) data' 16)"
  using crc_attach_byte_match [of "fst (srsran_crc_init 0x11021 16)" 16 "[0xA5, 0x01, 0, 0]"]
  by (simp add: init_inv)

text \<open>Packed and unpacked messages have the same checksum.\<close>

lemma checksum_byte_pack:
  assumes "crc_inv h" "unpacked_bits bits" "len \<le> length bits" "8 dvd len"
  shows "snd (srsran_crc_checksum_byte h (srsran_bit_pack_vector bits len) len) = snd (srsran_crc_checksum h bits len)"
proof -
  obtain n where n: "len = 8 * n" using assms(4) by blast
  have c: "ceil_div len 8 = n" "len div 8 = n" by (simp_all add: ceil_div_8 n)
  have "concat (map byte_bits (take n (srsran_bit_pack_vector bits len))) = msg_bits (take len bits)"
  proof (rule nth_equalityI)
    fix p assume "p < length (concat (map byte_bits (take n (srsran_bit_pack_vector bits len))))"
    then have p: "p < 8 * n" by (simp add: c)
    then have "concat (map byte_bits (take n (srsran_bit_pack_vector bits len))) ! p =
        packed_bit (srsran_bit_pack_vector bits len) p"
      by (simp add: nth_concat_byte_bits c)
    also have "\<dots> \<longleftrightarrow> p < len \<and> bits ! p = 1"
      using p by (intro nth_pack_vector assms(2,3)) (simp add: c)
    finally show "concat (map byte_bits (take n (srsran_bit_pack_vector bits len))) ! p = msg_bits (take len bits) ! p"
      using p assms(3) by (simp add: msg_bits_def n)
  qed (use assms(3) in \<open>simp add: c msg_bits_def, simp add: n\<close>)
  then show ?thesis
    using checksum_byte_spec [OF assms(1), of len "srsran_bit_pack_vector bits len"] checksum_spec [OF assms(1-3)]
    by (simp add: c)
qed

lemma foldl_put_byte_inv: "crc_inv h \<Longrightarrow> crc_inv (foldl (\<lambda>h i. srsran_crc_checksum_put_byte h (f i)) h is)"
  by (induction "is" arbitrary: h) (simp_all add: put_byte_inv)

lemma checksum_inv:
  assumes "crc_inv h"
  shows "crc_inv (fst (srsran_crc_checksum h data len))" "crc_inv (fst (srsran_crc_checksum_byte h data len))"
  unfolding srsran_crc_checksum_def srsran_crc_checksum_byte_def Let_def set_init_crcinit fst_conv
  by (rule foldl_put_byte_inv, simp add: assms)+

section \<open>Initialisation and checksum\<close>

text \<open>
  for every generator polynomial of the 3GPP form, \<open>srsran_crc_init\<close> returns success and a
  generator whose table, masks and order are the ones the other operations need, and computing a
  checksum, over bits or over bytes, keeps it so.
\<close>

theorem crc_init_ok:
  assumes "crc_poly_ok P w"
  shows "snd (srsran_crc_init P w) = 0 \<and> crc_inv (fst (srsran_crc_init P w)) \<and>
    order (fst (srsran_crc_init P w)) = w \<and> polynom (fst (srsran_crc_init P w)) = P \<and>
    (\<forall>h data len. crc_inv h \<longrightarrow> crc_inv (fst (srsran_crc_checksum h data len)) \<and>
       crc_inv (fst (srsran_crc_checksum_byte h data len)) \<and> crc_inv (fst (srsran_crc_match h data len)))"
  using init_inv [OF assms] by (auto simp: checksum_inv srsran_crc_match_def split_beta)

theorem crc_init_ok_witness:
  "snd (srsran_crc_init 0x1864CFB 24) = 0 \<and> crc_inv (fst (srsran_crc_init 0x1864CFB 24))"
  using crc_init_ok [of "0x1864CFB" 24] by simp

text \<open>
  C2: the checksum of \<open>len\<close> unpacked bits, which the code computes a byte at a time from a table
  and whose zero padding of a last partial byte it undoes, is the remainder left by the bit-serial
  shift register of the polynomial; with \<open>len\<close> a multiple of 8 the byte version on the packed
  message returns the same value.
\<close>

theorem crc_checksum_correct:
  assumes "crc_inv h" "unpacked_bits data" "len \<le> length data"
  shows "snd (srsran_crc_checksum h data len) = ucast (crc_spec h (msg_bits (take len data))) \<and>
    (8 dvd len \<longrightarrow> snd (srsran_crc_checksum_byte h (srsran_bit_pack_vector data len) len) =
       ucast (crc_spec h (msg_bits (take len data))))"
  using checksum_spec [OF assms] checksum_byte_pack [OF assms] by simp

theorem crc_checksum_correct_witness:
  "snd (srsran_crc_checksum (fst (srsran_crc_init 0x19B 8)) [1, 0, 1, 1, 0] 5) =
     ucast (crc_spec (fst (srsran_crc_init 0x19B 8)) [True, False, True, True, False])"
  using crc_checksum_correct [of "fst (srsran_crc_init 0x19B 8)" "[1, 0, 1, 1, 0]" 5]
  by (simp add: init_inv msg_bits_def)

end
