(* ===== verification/Sequence.thy ===== *)
theory Sequence
  imports Linear_Register Bit_Ops
begin

text \<open>
  The pseudo-random (Gold) sequences of \<open>lib/src/phy/common/sequence.c\<close>: the shift registers of
  x1 and x2, one step and 24 steps at a time, the states after the first 1600 steps that the
  constructor precomputes, and every operation that generates a sequence or applies it to bits,
  packed bytes, signed integers and floats. Floats are their 32-bit patterns, since the code only
  flips the sign bit; signed integers are words. Lengths and counters, some of which are \<open>int\<close> in the code,
  are natural numbers: a sequence has fewer than \<open>2 ^ 31\<close> elements. The generic branches are modelled, those compiled
  without SSE. The specification is the recurrence of 3GPP TS 36.211, 7.2.
\<close>

unbundle bit_operations_syntax

section \<open>The shift registers\<close>

abbreviation SEQUENCE_SEED_LEN :: nat where "SEQUENCE_SEED_LEN \<equiv> 31"
abbreviation SEQUENCE_NC :: nat where "SEQUENCE_NC \<equiv> 1600"
abbreviation SEQUENCE_PAR_BITS :: nat where "SEQUENCE_PAR_BITS \<equiv> 24"

definition SEQUENCE_MASK :: u32 where
  "SEQUENCE_MASK = push_bit SEQUENCE_PAR_BITS 1 - 1"

definition sequence_gen_LTE_pr_memless_step_par_x1 :: "u32 \<Rightarrow> u32" where
  "sequence_gen_LTE_pr_memless_step_par_x1 state =
     (let f = state XOR drop_bit 3 state;
          f' = push_bit (SEQUENCE_SEED_LEN - SEQUENCE_PAR_BITS) (f AND SEQUENCE_MASK)
      in drop_bit SEQUENCE_PAR_BITS state XOR f')"

definition sequence_gen_LTE_pr_memless_step_x1 :: "u32 \<Rightarrow> u32" where
  "sequence_gen_LTE_pr_memless_step_x1 state =
     (let f = state XOR drop_bit 3 state;
          f' = push_bit (SEQUENCE_SEED_LEN - 1) (f AND 1)
      in drop_bit 1 state XOR f')"

definition sequence_gen_LTE_pr_memless_step_par_x2 :: "u32 \<Rightarrow> u32" where
  "sequence_gen_LTE_pr_memless_step_par_x2 state =
     (let f = state XOR drop_bit 1 state XOR drop_bit 2 state XOR drop_bit 3 state;
          f' = push_bit (SEQUENCE_SEED_LEN - SEQUENCE_PAR_BITS) (f AND SEQUENCE_MASK)
      in drop_bit SEQUENCE_PAR_BITS state XOR f')"

definition sequence_gen_LTE_pr_memless_step_x2 :: "u32 \<Rightarrow> u32" where
  "sequence_gen_LTE_pr_memless_step_x2 state =
     (let f = state XOR drop_bit 1 state XOR drop_bit 2 state XOR drop_bit 3 state;
          f' = push_bit (SEQUENCE_SEED_LEN - 1) (f AND 1)
      in drop_bit 1 state XOR f')"

text \<open>The values the constructor \<open>srsran_lte_pr_pregen\<close> stores in the two static variables.\<close>

definition sequence_x1_init :: u32 where
  "sequence_x1_init = (sequence_gen_LTE_pr_memless_step_x1 ^^ SEQUENCE_NC) 1"

definition sequence_x2_init :: "u32 list" where
  "sequence_x2_init =
     map (\<lambda>i. (sequence_gen_LTE_pr_memless_step_x2 ^^ SEQUENCE_NC) (push_bit i 1)) [0..<SEQUENCE_SEED_LEN]"

definition sequence_get_x2_init :: "u32 \<Rightarrow> u32" where
  "sequence_get_x2_init seed =
     foldl (\<lambda>x2 i. if drop_bit i seed AND 1 \<noteq> 0 then x2 XOR sequence_x2_init ! i else x2) 0 [0..<SEQUENCE_SEED_LEN]"

section \<open>Generating and applying a sequence\<close>

record srsran_sequence_state_t =
  sq_x1 :: u32
  sq_x2 :: u32

definition srsran_sequence_state_init :: "u32 \<Rightarrow> srsran_sequence_state_t" where
  "srsran_sequence_state_init seed = \<lparr>sq_x1 = sequence_x1_init, sq_x2 = sequence_get_x2_init seed\<rparr>"

definition seq_word :: "srsran_sequence_state_t \<Rightarrow> u32" where
  "seq_word s = sq_x1 s XOR sq_x2 s"

definition seq_step :: "srsran_sequence_state_t \<Rightarrow> srsran_sequence_state_t" where
  "seq_step s = s\<lparr>sq_x1 := sequence_gen_LTE_pr_memless_step_x1 (sq_x1 s),
                  sq_x2 := sequence_gen_LTE_pr_memless_step_x2 (sq_x2 s)\<rparr>"

definition seq_step_par :: "srsran_sequence_state_t \<Rightarrow> srsran_sequence_state_t" where
  "seq_step_par s = s\<lparr>sq_x1 := sequence_gen_LTE_pr_memless_step_par_x1 (sq_x1 s),
                      sq_x2 := sequence_gen_LTE_pr_memless_step_par_x2 (sq_x2 s)\<rparr>"

text \<open>
  All operations share one loop: while at least 24 elements are left, a block of 24 elements is
  produced from one register state (\<open>par\<close> gives the new value of element \<open>i + j\<close> from the word
  \<open>c\<close> and \<open>j\<close>), then the remaining elements one step at a time (\<open>one\<close>).
\<close>

function par_stage ::
  "(u32 \<Rightarrow> nat \<Rightarrow> nat \<Rightarrow> 'a) \<Rightarrow> nat \<Rightarrow> srsran_sequence_state_t \<Rightarrow> nat \<Rightarrow> 'a list \<Rightarrow>
   srsran_sequence_state_t \<times> nat \<times> 'a list" where
  "par_stage par len s i out =
     (if i < len - (SEQUENCE_PAR_BITS - 1)
      then par_stage par len (seq_step_par s) (i + SEQUENCE_PAR_BITS)
             (foldl (\<lambda>out j. out[i + j := par (seq_word s) i j]) out [0..<SEQUENCE_PAR_BITS])
      else (s, i, out))"
  by pat_completeness auto
termination by (relation "measure (\<lambda>(par, len, s, i, out). len - i)") auto

function single_stage ::
  "(u32 \<Rightarrow> nat \<Rightarrow> 'a) \<Rightarrow> nat \<Rightarrow> srsran_sequence_state_t \<Rightarrow> nat \<Rightarrow> 'a list \<Rightarrow>
   srsran_sequence_state_t \<times> 'a list" where
  "single_stage one len s i out =
     (if i < len then single_stage one len (seq_step s) (i + 1) (out[i := one (seq_word s) i]) else (s, out))"
  by pat_completeness auto
termination by (relation "measure (\<lambda>(one, len, s, i, out). len - i)") auto

declare par_stage.simps [simp del] single_stage.simps [simp del]

definition seq_loop ::
  "(u32 \<Rightarrow> nat \<Rightarrow> nat \<Rightarrow> 'a) \<Rightarrow> (u32 \<Rightarrow> nat \<Rightarrow> 'a) \<Rightarrow> nat \<Rightarrow> srsran_sequence_state_t \<Rightarrow> 'a list \<Rightarrow>
   srsran_sequence_state_t \<times> 'a list" where
  "seq_loop par one len s out =
     (let (s1, i, out1) = (if SEQUENCE_PAR_BITS \<le> len then par_stage par len s 0 out else (s, 0, out))
      in single_stage one len s1 i out1)"

definition sequence_gen_LTE_pr :: "u8 list \<Rightarrow> nat \<Rightarrow> u32 \<Rightarrow> u8 list" where
  "sequence_gen_LTE_pr pr len seed =
     snd (seq_loop (\<lambda>c n i. ucast (drop_bit i c AND 1)) (\<lambda>c n. ucast (c AND 1)) len
            (srsran_sequence_state_init seed) pr)"

definition srsran_sequence_state_gen_f ::
  "srsran_sequence_state_t \<Rightarrow> u32 \<Rightarrow> u32 list \<Rightarrow> nat \<Rightarrow> srsran_sequence_state_t \<times> u32 list" where
  "srsran_sequence_state_gen_f s value out len =
     seq_loop (\<lambda>c i j. value XOR (push_bit (31 - j) c AND 0x80000000)) (\<lambda>c i. value XOR push_bit 31 c) len s out"

definition srsran_sequence_state_apply_f ::
  "srsran_sequence_state_t \<Rightarrow> u32 list \<Rightarrow> u32 list \<Rightarrow> nat \<Rightarrow> srsran_sequence_state_t \<times> u32 list" where
  "srsran_sequence_state_apply_f s ins out len =
     seq_loop (\<lambda>c i j. ins ! (i + j) XOR (push_bit (31 - j) c AND 0x80000000))
       (\<lambda>c i. ins ! i XOR push_bit 31 c) len s out"

definition srsran_sequence_state_advance :: "srsran_sequence_state_t \<Rightarrow> nat \<Rightarrow> srsran_sequence_state_t" where
  "srsran_sequence_state_advance s len = fst (seq_loop (\<lambda>c i j. ()) (\<lambda>c i. ()) len s [])"

definition srsran_sequence_apply_f :: "u32 list \<Rightarrow> u32 list \<Rightarrow> nat \<Rightarrow> u32 \<Rightarrow> u32 list" where
  "srsran_sequence_apply_f ins out len seed =
     snd (srsran_sequence_state_apply_f (srsran_sequence_state_init seed) ins out len)"

text \<open>The sign table \<open>s[2] = {+1, -1}\<close>; products are truncated to the element type.\<close>

definition srsran_sequence_apply_s :: "u16 list \<Rightarrow> u16 list \<Rightarrow> nat \<Rightarrow> u32 \<Rightarrow> u16 list" where
  "srsran_sequence_apply_s ins out len seed =
     (let s = [1, -1] in
      snd (seq_loop (\<lambda>c i j. ins ! (i + j) * s ! unat (drop_bit j c AND 1)) (\<lambda>c i. ins ! i * s ! unat (c AND 1))
             len (srsran_sequence_state_init seed) out))"

definition srsran_sequence_state_apply_c ::
  "srsran_sequence_state_t \<Rightarrow> u8 list \<Rightarrow> u8 list \<Rightarrow> nat \<Rightarrow> srsran_sequence_state_t \<times> u8 list" where
  "srsran_sequence_state_apply_c s ins out len =
     seq_loop (\<lambda>c i j. ins ! (i + j) * (if drop_bit j c AND 1 \<noteq> 0 then -1 else 1))
       (\<lambda>c i. ins ! i * (if c AND 1 \<noteq> 0 then -1 else 1)) len s out"

definition srsran_sequence_apply_c :: "u8 list \<Rightarrow> u8 list \<Rightarrow> nat \<Rightarrow> u32 \<Rightarrow> u8 list" where
  "srsran_sequence_apply_c ins out len seed =
     snd (srsran_sequence_state_apply_c (srsran_sequence_state_init seed) ins out len)"

definition srsran_sequence_state_apply_bit ::
  "srsran_sequence_state_t \<Rightarrow> u8 list \<Rightarrow> u8 list \<Rightarrow> nat \<Rightarrow> srsran_sequence_state_t \<times> u8 list" where
  "srsran_sequence_state_apply_bit s ins out len =
     seq_loop (\<lambda>c i j. ins ! (i + j) XOR ucast (drop_bit j c AND 1)) (\<lambda>c i. ins ! i XOR ucast (c AND 1)) len s out"

definition srsran_sequence_apply_bit :: "u8 list \<Rightarrow> u8 list \<Rightarrow> nat \<Rightarrow> u32 \<Rightarrow> u8 list" where
  "srsran_sequence_apply_bit ins out len seed =
     snd (srsran_sequence_state_apply_bit (srsran_sequence_state_init seed) ins out len)"

section \<open>Packed bytes\<close>

definition reverse_lut :: "u8 list" where
  "reverse_lut = [
    0x0, 0x80, 0x40, 0xc0, 0x20, 0xa0, 0x60, 0xe0, 0x10, 0x90, 0x50, 0xd0, 0x30, 0xb0, 0x70, 0xf0,
    0x8, 0x88, 0x48, 0xc8, 0x28, 0xa8, 0x68, 0xe8, 0x18, 0x98, 0x58, 0xd8, 0x38, 0xb8, 0x78, 0xf8,
    0x4, 0x84, 0x44, 0xc4, 0x24, 0xa4, 0x64, 0xe4, 0x14, 0x94, 0x54, 0xd4, 0x34, 0xb4, 0x74, 0xf4,
    0xc, 0x8c, 0x4c, 0xcc, 0x2c, 0xac, 0x6c, 0xec, 0x1c, 0x9c, 0x5c, 0xdc, 0x3c, 0xbc, 0x7c, 0xfc,
    0x2, 0x82, 0x42, 0xc2, 0x22, 0xa2, 0x62, 0xe2, 0x12, 0x92, 0x52, 0xd2, 0x32, 0xb2, 0x72, 0xf2,
    0xa, 0x8a, 0x4a, 0xca, 0x2a, 0xaa, 0x6a, 0xea, 0x1a, 0x9a, 0x5a, 0xda, 0x3a, 0xba, 0x7a, 0xfa,
    0x6, 0x86, 0x46, 0xc6, 0x26, 0xa6, 0x66, 0xe6, 0x16, 0x96, 0x56, 0xd6, 0x36, 0xb6, 0x76, 0xf6,
    0xe, 0x8e, 0x4e, 0xce, 0x2e, 0xae, 0x6e, 0xee, 0x1e, 0x9e, 0x5e, 0xde, 0x3e, 0xbe, 0x7e, 0xfe,
    0x1, 0x81, 0x41, 0xc1, 0x21, 0xa1, 0x61, 0xe1, 0x11, 0x91, 0x51, 0xd1, 0x31, 0xb1, 0x71, 0xf1,
    0x9, 0x89, 0x49, 0xc9, 0x29, 0xa9, 0x69, 0xe9, 0x19, 0x99, 0x59, 0xd9, 0x39, 0xb9, 0x79, 0xf9,
    0x5, 0x85, 0x45, 0xc5, 0x25, 0xa5, 0x65, 0xe5, 0x15, 0x95, 0x55, 0xd5, 0x35, 0xb5, 0x75, 0xf5,
    0xd, 0x8d, 0x4d, 0xcd, 0x2d, 0xad, 0x6d, 0xed, 0x1d, 0x9d, 0x5d, 0xdd, 0x3d, 0xbd, 0x7d, 0xfd,
    0x3, 0x83, 0x43, 0xc3, 0x23, 0xa3, 0x63, 0xe3, 0x13, 0x93, 0x53, 0xd3, 0x33, 0xb3, 0x73, 0xf3,
    0xb, 0x8b, 0x4b, 0xcb, 0x2b, 0xab, 0x6b, 0xeb, 0x1b, 0x9b, 0x5b, 0xdb, 0x3b, 0xbb, 0x7b, 0xfb,
    0x7, 0x87, 0x47, 0xc7, 0x27, 0xa7, 0x67, 0xe7, 0x17, 0x97, 0x57, 0xd7, 0x37, 0xb7, 0x77, 0xf7,
    0xf, 0x8f, 0x4f, 0xcf, 0x2f, 0xaf, 0x6f, 0xef, 0x1f, 0x9f, 0x5f, 0xdf, 0x3f, 0xbf, 0x7f, 0xff]"

text \<open>
  The loops of \<open>srsran_sequence_apply_packed\<close>. An access outside one of the two arrays is undefined
  behaviour and the result is \<open>None\<close>. The bound of the first loop, \<open>length / 8 - 2\<close>, is computed in
  32 bits.
\<close>

definition packed_put :: "u8 list \<Rightarrow> u8 list \<Rightarrow> nat \<Rightarrow> u8 \<Rightarrow> u8 list option" where
  "packed_put ins out i m =
     (if i < length ins \<and> i < length out then Some (out[i := ins ! i XOR m]) else None)"

definition packed_bytes :: "u8 list \<Rightarrow> nat \<Rightarrow> u32 \<Rightarrow> u8 list \<Rightarrow> nat \<Rightarrow> u8 list option" where
  "packed_bytes ins i c out n =
     foldl (\<lambda>r j. case r of None \<Rightarrow> None
                  | Some out \<Rightarrow> packed_put ins out (i + j) (reverse_lut ! unat (drop_bit (8 * j) c AND 255)))
       (Some out) [0..<n]"

function packed_par_stage ::
  "u8 list \<Rightarrow> nat \<Rightarrow> srsran_sequence_state_t \<Rightarrow> nat \<Rightarrow> u8 list \<Rightarrow> (srsran_sequence_state_t \<times> nat \<times> u8 list) option" where
  "packed_par_stage ins len s i out =
     (if i < sub32 (len div 8) ((SEQUENCE_PAR_BITS - 1) div 8)
      then if length ins \<le> i then None
           else case packed_bytes ins i (seq_word s) out (SEQUENCE_PAR_BITS div 8) of
                  None \<Rightarrow> None
                | Some out' \<Rightarrow> packed_par_stage ins len (seq_step_par s) (i + SEQUENCE_PAR_BITS div 8) out'
      else Some (s, i, out))"
  by pat_completeness auto
termination by (relation "measure (\<lambda>(ins, len, s, i, out). length ins - i)") auto

declare packed_par_stage.simps [simp del]

definition srsran_sequence_apply_packed :: "u8 list \<Rightarrow> u8 list \<Rightarrow> nat \<Rightarrow> u32 \<Rightarrow> u8 list option" where
  "srsran_sequence_apply_packed ins out len seed =
     (case packed_par_stage ins len (srsran_sequence_state_init seed) 0 out of None \<Rightarrow> None
      | Some (s, i, out1) \<Rightarrow>
          (case packed_bytes ins i (seq_word s) out1 (len div 8 - i) of None \<Rightarrow> None
           | Some out2 \<Rightarrow>
               let c = drop_bit (8 * (len div 8 - i)) (seq_word s); rem8 = len mod 8
               in if rem8 \<noteq> 0
                  then packed_put ins out2 (max i (len div 8)) (reverse_lut ! unat (c AND (push_bit rem8 1 - 1) AND 255))
                  else Some out2))"

section \<open>Twenty-four steps at once\<close>

text \<open>
  A register of 31 bits that shifts down by one and feeds a function of its four lowest bits back
  at the top. Its first 28 steps never use a bit they have fed back, so they can be taken together.
\<close>

lemma lfsr_steps_bit:
  fixes step :: "u32 \<Rightarrow> u32"
  assumes step: "\<And>s k. bit (step s) k \<longleftrightarrow> bit s (k + 1) \<noteq> (k = 30 \<and> fb s 0)"
    and local: "\<And>s s' n. (\<And>m. m < 4 \<Longrightarrow> bit s' m = bit s (n + m)) \<Longrightarrow> fb s' 0 = fb s n"
  shows "n \<le> 28 \<Longrightarrow> bit ((step ^^ n) s) k \<longleftrightarrow>
    bit s (k + n) \<noteq> (31 \<le> k + n \<and> k \<le> 30 \<and> fb s (k + n - 31))"
proof (induction n arbitrary: k)
  case (Suc n)
  have IH: "bit ((step ^^ n) s) k \<longleftrightarrow> bit s (k + n) \<noteq> (31 \<le> k + n \<and> k \<le> 30 \<and> fb s (k + n - 31))" for k
    using Suc by simp
  have "fb ((step ^^ n) s) 0 = fb s n"
    using Suc.prems by (intro local) (simp add: IH add.commute)
  then show ?case
    using Suc.prems by (cases "k = 30") (auto simp: step IH)
qed auto

definition x1_fb :: "u32 \<Rightarrow> nat \<Rightarrow> bool" where
  "x1_fb s m \<longleftrightarrow> bit s m \<noteq> bit s (m + 3)"

definition x2_fb :: "u32 \<Rightarrow> nat \<Rightarrow> bool" where
  "x2_fb s m \<longleftrightarrow> ((bit s m \<noteq> bit s (m + 1)) \<noteq> bit s (m + 2)) \<noteq> bit s (m + 3)"

lemma bit_31_u32: "31 < n \<Longrightarrow> \<not> bit (s :: u32) n"
  using bit_imp_le_length [of s n] by auto

lemma bit_SEQUENCE_MASK: "bit SEQUENCE_MASK k \<longleftrightarrow> k < 24"
proof -
  have "SEQUENCE_MASK = mask 24" by (simp add: SEQUENCE_MASK_def mask_numeral)
  moreover have "bit (mask 24 :: u32) k \<longleftrightarrow> k < 24"
    unfolding bit_mask_iff possible_bit_word by auto
  ultimately show ?thesis by simp
qed

lemma bit_push_and_1: "bit (push_bit n (x AND 1)) k \<longleftrightarrow> k = n \<and> n < 32 \<and> bit (x :: u32) 0"
  unfolding bit_push_bit_iff by (auto simp: bit_and_iff bit_1_iff)

lemma bit_push_and_mask: "bit (push_bit n (x AND SEQUENCE_MASK)) k \<longleftrightarrow> n \<le> k \<and> k < 32 \<and> k - n < 24 \<and> bit (x :: u32) (k - n)"
  unfolding bit_push_bit_iff by (auto simp: bit_and_iff bit_SEQUENCE_MASK)

lemma bit_step_x1: "bit (sequence_gen_LTE_pr_memless_step_x1 s) k \<longleftrightarrow> bit s (k + 1) \<noteq> (k = 30 \<and> x1_fb s 0)"
  unfolding sequence_gen_LTE_pr_memless_step_x1_def Let_def bit_xor_iff bit_drop_bit_eq bit_push_and_1
    x1_fb_def comp_def by (auto simp: add.commute)

lemma bit_step_x2: "bit (sequence_gen_LTE_pr_memless_step_x2 s) k \<longleftrightarrow> bit s (k + 1) \<noteq> (k = 30 \<and> x2_fb s 0)"
  unfolding sequence_gen_LTE_pr_memless_step_x2_def Let_def bit_xor_iff bit_drop_bit_eq bit_push_and_1
    x2_fb_def comp_def by (auto simp: add.commute)

lemma x1_steps_bit: "n \<le> 28 \<Longrightarrow> bit ((sequence_gen_LTE_pr_memless_step_x1 ^^ n) s) k \<longleftrightarrow>
    bit s (k + n) \<noteq> (31 \<le> k + n \<and> k \<le> 30 \<and> x1_fb s (k + n - 31))"
  by (rule lfsr_steps_bit [where fb = x1_fb, OF bit_step_x1]) (simp_all add: x1_fb_def)

lemma x2_steps_bit: "n \<le> 28 \<Longrightarrow> bit ((sequence_gen_LTE_pr_memless_step_x2 ^^ n) s) k \<longleftrightarrow>
    bit s (k + n) \<noteq> (31 \<le> k + n \<and> k \<le> 30 \<and> x2_fb s (k + n - 31))"
  by (rule lfsr_steps_bit [where fb = x2_fb, OF bit_step_x2]) (simp_all add: x2_fb_def)

lemma par_x1_steps: "sequence_gen_LTE_pr_memless_step_par_x1 s = (sequence_gen_LTE_pr_memless_step_x1 ^^ 24) s"
proof (rule bit_word_eqI)
  fix k assume "k < LENGTH(32)"
  then show "bit (sequence_gen_LTE_pr_memless_step_par_x1 s) k = bit ((sequence_gen_LTE_pr_memless_step_x1 ^^ 24) s) k"
    unfolding sequence_gen_LTE_pr_memless_step_par_x1_def Let_def bit_xor_iff bit_drop_bit_eq
      bit_push_and_mask comp_def by (subst x1_steps_bit) (auto simp: x1_fb_def add.commute)
qed

lemma par_x2_steps: "sequence_gen_LTE_pr_memless_step_par_x2 s = (sequence_gen_LTE_pr_memless_step_x2 ^^ 24) s"
proof (rule bit_word_eqI)
  fix k assume "k < LENGTH(32)"
  then show "bit (sequence_gen_LTE_pr_memless_step_par_x2 s) k = bit ((sequence_gen_LTE_pr_memless_step_x2 ^^ 24) s) k"
    unfolding sequence_gen_LTE_pr_memless_step_par_x2_def Let_def bit_xor_iff bit_drop_bit_eq
      bit_push_and_mask comp_def by (subst x2_steps_bit) (auto simp: x2_fb_def add.commute)
qed

section \<open>The interface of a key stream\<close>

text \<open>
  What the loops rely on: a generator whose state yields one key bit per step, and a step that
  advances it by a whole block whose bits can all be read from the word of its first state.
\<close>

locale keystream =
  fixes step :: "'s \<Rightarrow> 's" and par :: "'s \<Rightarrow> 's" and out_word :: "'s \<Rightarrow> 'a::len word" and block :: nat
  assumes par_steps: "par s = (step ^^ block) s"
    and block_bits: "j < block \<Longrightarrow> bit (out_word s) j \<longleftrightarrow> bit (out_word ((step ^^ j) s)) 0"
    and block_pos: "0 < block"
begin

definition key :: "'s \<Rightarrow> nat \<Rightarrow> bool" where
  "key s n \<longleftrightarrow> bit (out_word ((step ^^ n) s)) 0"

lemma key_steps: "key ((step ^^ m) s) n = key s (m + n)"
  by (simp add: key_def flip: funpow_add_apply [of n m]) (simp add: add.commute)

lemma key_block: "j < block \<Longrightarrow> bit (out_word ((step ^^ m) s)) j = key s (m + j)"
  using block_bits [of j "(step ^^ m) s"] by (simp add: key_def flip: funpow_add_apply [of j m]) (simp add: add.commute)

lemma key_bit: "bit (out_word ((step ^^ m) s)) 0 = key s m"
  by (simp add: key_def)

lemma par_add: "par ((step ^^ m) s) = (step ^^ (m + block)) s"
  by (simp add: par_steps add.commute flip: funpow_add_apply)

end

lemma seq_step_funpow:
  "(seq_step ^^ n) s = \<lparr>sq_x1 = (sequence_gen_LTE_pr_memless_step_x1 ^^ n) (sq_x1 s),
                        sq_x2 = (sequence_gen_LTE_pr_memless_step_x2 ^^ n) (sq_x2 s)\<rparr>"
  by (induction n) (simp_all add: seq_step_def)

interpretation seq: keystream seq_step seq_step_par seq_word SEQUENCE_PAR_BITS
proof
  show "seq_step_par s = (seq_step ^^ SEQUENCE_PAR_BITS) s" for s
    by (simp only: seq_step_funpow seq_step_par_def par_x1_steps par_x2_steps) simp
  show "bit (seq_word s) j = bit (seq_word ((seq_step ^^ j) s)) 0" if "j < SEQUENCE_PAR_BITS" for s j
    using that by (simp add: seq_step_funpow seq_word_def bit_xor_iff x1_steps_bit x2_steps_bit del: bit_0)
qed simp

lemma foldl_block_nth:
  "p < length out \<Longrightarrow>
   foldl (\<lambda>out j. out[i + j := g j]) out [0..<n] ! p = (if i \<le> p \<and> p < i + n then g (p - i) else out ! p)"
proof (induction n)
  case (Suc n)
  then show ?case by (auto simp: nth_list_update less_Suc_eq)
qed auto

lemma par_stage_spec:
  assumes par: "\<And>c i j. j < SEQUENCE_PAR_BITS \<Longrightarrow> par c i j = f (i + j) (bit c j)"
  shows "i \<le> len \<Longrightarrow> par_stage par len ((seq_step ^^ i) s) i out = (s', i', out') \<Longrightarrow>
    i \<le> i' \<and> i' \<le> len \<and> s' = (seq_step ^^ i') s \<and> length out' = length out \<and>
    (\<forall>p < length out. out' ! p = (if i \<le> p \<and> p < i' then f p (seq.key s p) else out ! p))"
proof (induction "len - i" arbitrary: i out rule: less_induct)
  case less
  show ?case
  proof (cases "i < len - (SEQUENCE_PAR_BITS - 1)")
    case True
    let ?out = "foldl (\<lambda>out j. out[i + j := par (seq_word ((seq_step ^^ i) s)) i j]) out [0..<SEQUENCE_PAR_BITS]"
    have fit: "i + SEQUENCE_PAR_BITS \<le> len" using True by simp
    have "par_stage par len ((seq_step ^^ (i + SEQUENCE_PAR_BITS)) s) (i + SEQUENCE_PAR_BITS) ?out = (s', i', out')"
      using less.prems(2) True by (subst (asm) par_stage.simps) (simp add: seq.par_add)
    moreover have "length ?out = length out" by simp
    ultimately have IH: "i + SEQUENCE_PAR_BITS \<le> i' \<and> i' \<le> len \<and> s' = (seq_step ^^ i') s \<and> length out' = length out \<and>
        (\<forall>p < length out. out' ! p = (if i + SEQUENCE_PAR_BITS \<le> p \<and> p < i' then f p (seq.key s p) else ?out ! p))"
      using less.hyps [of "i + SEQUENCE_PAR_BITS" ?out] fit True by simp
    have "?out ! p = (if i \<le> p \<and> p < i + SEQUENCE_PAR_BITS then f p (seq.key s p) else out ! p)"
      if "p < length out" for p
    proof -
      have "?out ! p = (if i \<le> p \<and> p < i + SEQUENCE_PAR_BITS
          then par (seq_word ((seq_step ^^ i) s)) i (p - i) else out ! p)"
        using that by (intro foldl_block_nth) auto
      then show ?thesis using seq.key_block [of "p - i" i s] par [of "p - i"] by auto
    qed
    with IH show ?thesis by auto
  next
    case False
    then show ?thesis using less.prems par_stage.simps [of par len "(seq_step ^^ i) s" i out] by auto
  qed
qed

lemma single_stage_spec:
  assumes one: "\<And>c i. one c i = f i (bit c 0)"
  shows "i \<le> len \<Longrightarrow> single_stage one len ((seq_step ^^ i) s) i out = (s', out') \<Longrightarrow>
    s' = (seq_step ^^ len) s \<and> length out' = length out \<and>
    (\<forall>p < length out. out' ! p = (if i \<le> p \<and> p < len then f p (seq.key s p) else out ! p))"
proof (induction "len - i" arbitrary: i out rule: less_induct)
  case less
  show ?case
  proof (cases "i < len")
    case True
    let ?out = "out[i := one (seq_word ((seq_step ^^ i) s)) i]"
    have "single_stage one len ((seq_step ^^ (i + 1)) s) (i + 1) ?out = (s', out')"
      using less.prems(2) True by (subst (asm) single_stage.simps) simp
    then have "s' = (seq_step ^^ len) s \<and> length out' = length ?out \<and>
        (\<forall>p < length ?out. out' ! p = (if i + 1 \<le> p \<and> p < len then f p (seq.key s p) else ?out ! p))"
      using less.hyps [of "i + 1" ?out] True by simp
    then show ?thesis
      using True
      by (auto simp: nth_list_update one seq.key_bit not_less_eq_eq dest!: le_antisym)
  next
    case False
    then show ?thesis using less.prems single_stage.simps [of one len "(seq_step ^^ i) s" i out] by auto
  qed
qed

text \<open>The loop replaces element \<open>p\<close> by a function of \<open>p\<close> and the key bit number \<open>p\<close>.\<close>

lemma seq_loop_spec:
  assumes "\<And>c i j. j < SEQUENCE_PAR_BITS \<Longrightarrow> par c i j = f (i + j) (bit c j)"
    "\<And>c i. one c i = f i (bit c 0)"
  shows "fst (seq_loop par one len s out) = (seq_step ^^ len) s"
    "length (snd (seq_loop par one len s out)) = length out"
    "p < length out \<Longrightarrow> snd (seq_loop par one len s out) ! p = (if p < len then f p (seq.key s p) else out ! p)"
proof -
  obtain s1 i out1 where 1: "(if SEQUENCE_PAR_BITS \<le> len then par_stage par len s 0 out else (s, 0, out)) = (s1, i, out1)"
    by (metis prod_cases3)
  then have a: "i \<le> len \<and> s1 = (seq_step ^^ i) s \<and> length out1 = length out \<and>
    (\<forall>p < length out. out1 ! p = (if p < i then f p (seq.key s p) else out ! p))"
    using par_stage_spec [where par = par and f = f and i = 0, OF assms(1)] by (auto split: if_splits)
  obtain s' out' where 2: "single_stage one len ((seq_step ^^ i) s) i out1 = (s', out')" by fastforce
  have b: "s' = (seq_step ^^ len) s \<and> length out' = length out1 \<and>
    (\<forall>p < length out1. out' ! p = (if i \<le> p \<and> p < len then f p (seq.key s p) else out1 ! p))"
    using single_stage_spec [where one = one and f = f, OF assms(2)] a 2 by blast
  have run: "seq_loop par one len s out = (s', out')"
    unfolding seq_loop_def 1 using a 2 by simp
  show "fst (seq_loop par one len s out) = (seq_step ^^ len) s"
    "length (snd (seq_loop par one len s out)) = length out"
    "p < length out \<Longrightarrow> snd (seq_loop par one len s out) ! p = (if p < len then f p (seq.key s p) else out ! p)"
    unfolding run using a b by auto
qed

section \<open>The Gold sequence of the standard\<close>

function gold_x1 :: "nat \<Rightarrow> bool" where
  "gold_x1 n = (if n < 31 then n = 0 else gold_x1 (n - 31 + 3) \<noteq> gold_x1 (n - 31))"
  by pat_completeness auto
termination by (relation "measure id") auto

function gold_x2 :: "u32 \<Rightarrow> nat \<Rightarrow> bool" where
  "gold_x2 seed n = (if n < 31 then bit seed n
     else ((gold_x2 seed (n - 31 + 3) \<noteq> gold_x2 seed (n - 31 + 2)) \<noteq> gold_x2 seed (n - 31 + 1)) \<noteq> gold_x2 seed (n - 31))"
  by pat_completeness auto
termination by (relation "measure snd") auto

declare gold_x1.simps [simp del] gold_x2.simps [simp del]

definition gold :: "u32 \<Rightarrow> nat \<Rightarrow> bool" where
  "gold seed n \<longleftrightarrow> gold_x1 (n + SEQUENCE_NC) \<noteq> gold_x2 seed (n + SEQUENCE_NC)"

interpretation x1: linear_register sequence_gen_LTE_pr_memless_step_x1
proof
  show "sequence_gen_LTE_pr_memless_step_x1 (x XOR y) =
      sequence_gen_LTE_pr_memless_step_x1 x XOR sequence_gen_LTE_pr_memless_step_x1 y" for x y
    by (rule bit_word_eqI) (auto simp: bit_step_x1 x1_fb_def bit_xor_iff simp del: bit_0)
qed

interpretation x2: linear_register sequence_gen_LTE_pr_memless_step_x2
proof
  show "sequence_gen_LTE_pr_memless_step_x2 (x XOR y) =
      sequence_gen_LTE_pr_memless_step_x2 x XOR sequence_gen_LTE_pr_memless_step_x2 y" for x y
    by (rule bit_word_eqI) (auto simp: bit_step_x2 x2_fb_def bit_xor_iff simp del: bit_0)
qed

lemma foldl_xor_if:
  "foldl (\<lambda>a i. if P i then a XOR f i else a) z is = z XOR xor_list (map (\<lambda>i. if P i then f i else 0) is)"
  by (induction "is" arbitrary: z) (simp_all add: ac_simps)

lemma and_1_drop_bit: "drop_bit i w AND 1 \<noteq> 0 \<longleftrightarrow> bit (w :: u32) i"
proof -
  have "drop_bit i w AND 1 = of_bool (bit w i)"
    by (rule bit_word_eqI) (auto simp: bit_and_iff bit_1_iff bit_drop_bit_eq intro: gr0I)
  then show ?thesis by simp
qed

text \<open>
  Superposition: the state the code composes from the 31 precomputed ones is the state the register
  reaches from the seed in 1600 steps.
\<close>

lemma get_x2_init_steps:
  "sequence_get_x2_init seed = (sequence_gen_LTE_pr_memless_step_x2 ^^ SEQUENCE_NC) (take_bit 31 seed)"
proof -
  let ?S = "sequence_gen_LTE_pr_memless_step_x2 ^^ SEQUENCE_NC"
  have "sequence_get_x2_init seed =
      xor_list (map (\<lambda>i. if bit seed i then sequence_x2_init ! i else 0) [0..<31])"
    unfolding sequence_get_x2_init_def and_1_drop_bit foldl_xor_if by simp
  also have "map (\<lambda>i. if bit seed i then sequence_x2_init ! i else 0) [0..<31] =
      map (\<lambda>i. if bit (take_bit 31 seed) i then ?S (push_bit i 1) else 0) [0..<31]"
    by (intro map_cong refl) (auto simp: sequence_x2_init_def bit_take_bit_iff simp del: push_bit_of_1)
  also have "xor_list \<dots> = ?S (take_bit 31 seed)"
    by (rule x2.superposition [symmetric]) simp
  finally show ?thesis .
qed

text \<open>The register holds the next 31 elements of its sequence.\<close>

lemma lfsr_sequence:
  fixes step :: "u32 \<Rightarrow> u32"
  assumes step: "\<And>s k. bit (step s) k \<longleftrightarrow> bit s (k + 1) \<noteq> (k = 30 \<and> fb s 0)"
    and rec: "\<And>s n. (\<And>m. m < 4 \<Longrightarrow> bit s m = x (n + m)) \<Longrightarrow> fb s 0 = x (n + 31)"
    and init: "\<And>k. k < 31 \<Longrightarrow> bit s k = x k" "\<not> bit s 31"
  shows "(\<forall>k < 31. bit ((step ^^ n) s) k = x (n + k)) \<and> \<not> bit ((step ^^ n) s) 31"
proof (induction n)
  case 0
  then show ?case using init by simp
next
  case (Suc n)
  let ?s = "(step ^^ n) s"
  have IH: "\<And>k. k < 31 \<Longrightarrow> bit ?s k = x (n + k)" "\<not> bit ?s 31" using Suc by auto
  have fb: "fb ?s 0 = x (n + 31)" by (rule rec) (simp add: IH)
  have "bit (step ?s) k = x (Suc n + k)" if "k < 31" for k
  proof (cases "k = 30")
    case True
    then show ?thesis using IH(2) fb by (simp add: step add.commute)
  next
    case False
    then show ?thesis using that IH(1) [of "k + 1"] by (simp add: step)
  qed
  moreover have "\<not> bit (step ?s) 31" using bit_31_u32 [of 32 ?s] by (simp add: step)
  ultimately show ?case by simp
qed

lemma x1_sequence: "bit ((sequence_gen_LTE_pr_memless_step_x1 ^^ n) 1) 0 = gold_x1 n"
proof -
  have "(\<forall>k < 31. bit ((sequence_gen_LTE_pr_memless_step_x1 ^^ n) 1) k = gold_x1 (n + k)) \<and>
      \<not> bit ((sequence_gen_LTE_pr_memless_step_x1 ^^ n) 1) 31"
  proof (rule lfsr_sequence [where fb = x1_fb, OF bit_step_x1])
    fix s n assume "\<And>m. m < 4 \<Longrightarrow> bit (s :: u32) m = gold_x1 (n + m)"
    then show "x1_fb s 0 = gold_x1 (n + 31)"
      by (subst gold_x1.simps) (auto simp: x1_fb_def simp del: bit_0)
  qed (auto simp: bit_1_iff gold_x1.simps)
  then show ?thesis by (auto dest: spec [of _ 0])
qed

lemma x2_sequence: "bit ((sequence_gen_LTE_pr_memless_step_x2 ^^ n) (take_bit 31 seed)) 0 = gold_x2 seed n"
proof -
  have "(\<forall>k < 31. bit ((sequence_gen_LTE_pr_memless_step_x2 ^^ n) (take_bit 31 seed)) k = gold_x2 seed (n + k)) \<and>
      \<not> bit ((sequence_gen_LTE_pr_memless_step_x2 ^^ n) (take_bit 31 seed)) 31"
  proof (rule lfsr_sequence [where fb = x2_fb, OF bit_step_x2])
    fix s n assume "\<And>m. m < 4 \<Longrightarrow> bit (s :: u32) m = gold_x2 seed (n + m)"
    then show "x2_fb s 0 = gold_x2 seed (n + 31)"
      by (subst gold_x2.simps) (auto simp: x2_fb_def simp del: bit_0)
  qed (auto simp: bit_take_bit_iff gold_x2.simps)
  then show ?thesis by (auto dest: spec [of _ 0])
qed

lemma key_gold: "seq.key (srsran_sequence_state_init seed) n = gold seed n"
  unfolding seq.key_def seq_step_funpow seq_word_def srsran_sequence_state_init_def
    get_x2_init_steps sequence_x1_init_def
  by (simp add: bit_xor_iff x1_sequence x2_sequence gold_def flip: funpow_add_apply del: bit_0)

section \<open>What the operations compute\<close>

lemma ucast_drop_and_1: "ucast (drop_bit j c AND 1) = bit_of (bit (c :: u32) j)"
  by (simp add: word_and_1_bit_of bit_drop_bit_eq del: bit_0)

lemma ucast_and_1: "ucast (c AND 1) = bit_of (bit (c :: u32) 0)"
  by (rule word_and_1_bit_of)

text \<open>Flipping the sign of a float, and negating an integer, when the key bit is set.\<close>

definition sign_flip :: "bool \<Rightarrow> u32 \<Rightarrow> u32" where
  "sign_flip b v = (if b then v XOR push_bit 31 1 else v)"

lemma and_1_neq_0: "c AND 1 \<noteq> 0 \<longleftrightarrow> bit (c :: u32) 0"
  using and_1_drop_bit [of 0 c] by (simp del: bit_0)

lemma bit_msb_u32: "bit (0x80000000 :: u32) n \<longleftrightarrow> n = 31"
proof -
  have "(0x80000000 :: u32) = push_bit 31 1" by simp
  then show ?thesis by (simp only: bit_push_bit_1_word) auto
qed

lemma sign_bit_par: "j < 24 \<Longrightarrow> v XOR (push_bit (31 - j) c AND 0x80000000) = sign_flip (bit c j) v"
proof -
  assume j: "j < 24"
  have "push_bit (31 - j) c AND 0x80000000 = (if bit c j then push_bit 31 1 else 0)"
  proof (rule bit_word_eqI)
    fix n assume "n < LENGTH(32)"
    have "bit (push_bit (31 - j) c AND 0x80000000) n \<longleftrightarrow> n = 31 \<and> bit c j"
      using j by (auto simp: bit_and_iff bit_push_bit_word bit_msb_u32 simp del: bit_numeral_word_iff)
    then show "bit (push_bit (31 - j) c AND 0x80000000) n = bit (if bit c j then push_bit 31 1 else 0 :: u32) n"
      by (auto simp: bit_msb_u32 simp del: bit_numeral_word_iff)
  qed
  then show ?thesis by (simp add: sign_flip_def)
qed

lemma sign_bit_one: "v XOR push_bit 31 c = sign_flip (bit (c :: u32) 0) v"
proof -
  have "push_bit 31 c = (if bit c 0 then push_bit 31 1 else 0)"
    by (rule bit_word_eqI) (auto simp: bit_push_bit_word bit_msb_u32 simp del: bit_0 bit_numeral_word_iff)
  then show ?thesis by (simp add: sign_flip_def del: bit_0)
qed

lemma sign_table: "x * [1, -1] ! unat (drop_bit j c AND 1) = (if bit (c :: u32) j then - x else (x :: u16))"
proof -
  have "drop_bit j c AND 1 = of_bool (bit c j)"
    by (rule bit_word_eqI) (auto simp: bit_and_iff bit_1_iff bit_drop_bit_eq intro: gr0I)
  then show ?thesis by simp
qed

lemma sign_c: "x * (if drop_bit j c AND 1 \<noteq> 0 then -1 else 1) = (if bit (c :: u32) j then - x else (x :: u8))"
  unfolding and_1_drop_bit by simp

lemma sign_c_0: "x * (if c AND 1 \<noteq> 0 then -1 else 1) = (if bit (c :: u32) 0 then - x else (x :: u8))"
  unfolding and_1_neq_0 by (cases "bit c 0") (simp_all del: bit_0)

lemma sign_table_0: "x * [1, -1] ! unat (c AND 1) = (if bit (c :: u32) 0 then - x else (x :: u16))"
  using sign_table [of x 0 c] by (simp only: drop_bit_0 id_apply)

lemma bit_drop_bit_0: "bit (drop_bit j c) 0 \<longleftrightarrow> bit (c :: u32) j"
  by (simp add: bit_drop_bit_eq del: bit_0)

lemmas seq_values = bit_drop_bit_0 ucast_drop_and_1 ucast_and_1 sign_bit_par sign_bit_one sign_c sign_c_0 sign_table sign_table_0

text \<open>Element \<open>p\<close> of the output, with \<open>f\<close> the function of \<open>p\<close> and the key bit.\<close>

definition keyed :: "(nat \<Rightarrow> bool \<Rightarrow> 'a) \<Rightarrow> srsran_sequence_state_t \<Rightarrow> nat \<Rightarrow> 'a list \<Rightarrow>
    srsran_sequence_state_t \<times> 'a list \<Rightarrow> bool" where
  "keyed f s len out r \<longleftrightarrow> fst r = (seq_step ^^ len) s \<and> length (snd r) = length out \<and>
     (\<forall>p < length out. snd r ! p = (if p < len then f p (seq.key s p) else out ! p))"

lemma seq_loop_keyed:
  assumes "\<And>c i j. j < SEQUENCE_PAR_BITS \<Longrightarrow> par c i j = f (i + j) (bit c j)" "\<And>c i. one c i = f i (bit c 0)"
  shows "keyed f s len out (seq_loop par one len s out)"
  unfolding keyed_def using seq_loop_spec [of par f one, OF assms] by blast

lemma gen_LTE_pr_nth:
  shows "p < length pr \<Longrightarrow> sequence_gen_LTE_pr pr len seed ! p = (if p < len then bit_of (gold seed p) else pr ! p)"
    "length (sequence_gen_LTE_pr pr len seed) = length pr"
proof -
  have "keyed (\<lambda>p b. bit_of b) (srsran_sequence_state_init seed) len pr
      (seq_loop (\<lambda>c n i. ucast (drop_bit i c AND 1)) (\<lambda>c n. ucast (c AND 1)) len (srsran_sequence_state_init seed) pr)"
    by (rule seq_loop_keyed ) (simp_all only: seq_values)
  then show "p < length pr \<Longrightarrow> sequence_gen_LTE_pr pr len seed ! p = (if p < len then bit_of (gold seed p) else pr ! p)"
    "length (sequence_gen_LTE_pr pr len seed) = length pr"
    by (simp_all add: keyed_def sequence_gen_LTE_pr_def key_gold)
qed

lemma state_apply_bit_keyed:
  "keyed (\<lambda>p b. ins ! p XOR bit_of b) s len out (srsran_sequence_state_apply_bit s ins out len)"
  unfolding srsran_sequence_state_apply_bit_def by (rule seq_loop_keyed) (simp_all only: seq_values)

lemma state_apply_c_keyed:
  "keyed (\<lambda>p b. if b then - (ins ! p) else ins ! p) s len out (srsran_sequence_state_apply_c s ins out len)"
  unfolding srsran_sequence_state_apply_c_def by (rule seq_loop_keyed) (simp_all only: seq_values)

lemma state_apply_f_keyed:
  "keyed (\<lambda>p b. sign_flip b (ins ! p)) s len out (srsran_sequence_state_apply_f s ins out len)"
  unfolding srsran_sequence_state_apply_f_def by (rule seq_loop_keyed) (simp_all only: seq_values)

lemma state_gen_f_keyed:
  "keyed (\<lambda>p b. sign_flip b value) s len out (srsran_sequence_state_gen_f s value out len)"
  unfolding srsran_sequence_state_gen_f_def by (rule seq_loop_keyed) (simp_all only: seq_values)

lemma state_advance_steps: "srsran_sequence_state_advance s len = (seq_step ^^ len) s"
proof -
  have "keyed (\<lambda>p b. ()) s len [] (seq_loop (\<lambda>c i j. ()) (\<lambda>c i. ()) len s [])"
    by (rule seq_loop_keyed) simp_all
  then show ?thesis by (simp add: keyed_def srsran_sequence_state_advance_def)
qed

lemma apply_s_nth:
  shows "p < length out \<Longrightarrow> srsran_sequence_apply_s ins out len seed ! p =
      (if p < len then if gold seed p then - (ins ! p) else ins ! p else out ! p)"
    "length (srsran_sequence_apply_s ins out len seed) = length out"
proof -
  have "keyed (\<lambda>p b. if b then - (ins ! p) else ins ! p) (srsran_sequence_state_init seed) len out
      (seq_loop (\<lambda>c i j. ins ! (i + j) * [1, -1] ! unat (drop_bit j c AND 1)) (\<lambda>c i. ins ! i * [1, -1] ! unat (c AND 1))
        len (srsran_sequence_state_init seed) out)"
    by (rule seq_loop_keyed ) (simp_all only: seq_values)
  then show "p < length out \<Longrightarrow> srsran_sequence_apply_s ins out len seed ! p =
      (if p < len then if gold seed p then - (ins ! p) else ins ! p else out ! p)"
    "length (srsran_sequence_apply_s ins out len seed) = length out"
    by (simp_all add: keyed_def srsran_sequence_apply_s_def key_gold Let_def)
qed

section \<open>The packed sequence\<close>

lemma reverse_lut_gather: "reverse_lut = map (\<lambda>b. gather_byte (\<lambda>k. bit (of_nat b :: u8) k)) [0..<256]"
  by code_simp

lemma reverse_lut_bit:
  assumes "k < 8"
  shows "bit (reverse_lut ! unat ((x :: u32) AND 255)) (7 - k) \<longleftrightarrow> bit x k"
proof -
  have m: "x AND 255 = take_bit 8 x" by (simp add: take_bit_eq_mask mask_numeral)
  define b where "b = unat (x AND 255)"
  have b: "b = unat x mod 2 ^ 8" unfolding b_def m by (rule unat_take_bit_word)
  then have "b < 256" by simp
  have "7 - (7 - k) = k" "7 - k < 8" using assms by simp_all
  have "bit (of_nat b :: u8) k \<longleftrightarrow> bit b k" using assms by (simp add: bit_of_nat_iff possible_bit_word)
  also have "\<dots> \<longleftrightarrow> bit x k"
    using assms unfolding b_def m by (simp add: bit_take_bit_iff bit_unsigned_iff)
  finally have "bit (gather_byte (\<lambda>k. bit (of_nat b :: u8) k)) (7 - k) \<longleftrightarrow> bit x k"
    using bit_gather_byte [of "7 - k" "\<lambda>k. bit (of_nat b :: u8) k"] \<open>7 - (7 - k) = k\<close> \<open>7 - k < 8\<close> by simp
  then show ?thesis using \<open>b < 256\<close> unfolding b_def [symmetric] reverse_lut_gather by simp
qed

lemma packed_put_bits:
  assumes "i < length ins" "i < length out"
  shows "\<exists>out'. packed_put ins out i m = Some out' \<and> length out' = length out \<and>
    (\<forall>p. packed_bit out' p = (if p div 8 = i then packed_bit ins p \<noteq> bit m (7 - p mod 8) else packed_bit out p))"
  using assms by (auto simp: packed_put_def packed_bit_def nth_list_update bit_xor_iff)

lemma packed_bytes_bits:
  assumes "i + n \<le> length ins" "i + n \<le> length out" "n \<le> 3"
  shows "\<exists>out'. packed_bytes ins i (seq_word ((seq_step ^^ (8 * i)) s)) out n = Some out' \<and> length out' = length out \<and>
    (\<forall>p. packed_bit out' p = (if i \<le> p div 8 \<and> p div 8 < i + n then packed_bit ins p \<noteq> seq.key s p else packed_bit out p))"
  using assms
proof (induction n)
  case 0
  then show ?case by (auto simp: packed_bytes_def)
next
  case (Suc n)
  let ?c = "seq_word ((seq_step ^^ (8 * i)) s)"
  let ?m = "reverse_lut ! unat (drop_bit (8 * n) ?c AND 255)"
  obtain o1 where o1: "packed_bytes ins i ?c out n = Some o1" "length o1 = length out"
    "\<And>p. packed_bit o1 p = (if i \<le> p div 8 \<and> p div 8 < i + n then packed_bit ins p \<noteq> seq.key s p else packed_bit out p)"
    using Suc by auto
  obtain o2 where o2: "packed_put ins o1 (i + n) ?m = Some o2" "length o2 = length o1"
    "\<And>p. packed_bit o2 p = (if p div 8 = i + n then packed_bit ins p \<noteq> bit ?m (7 - p mod 8) else packed_bit o1 p)"
    using packed_put_bits [of "i + n" ins o1 ?m] Suc.prems o1(2) by auto
  have run: "packed_bytes ins i ?c out (Suc n) = Some o2"
    using o1(1) o2(1) unfolding packed_bytes_def by simp
  have "bit ?m (7 - p mod 8) \<longleftrightarrow> seq.key s p" if "p div 8 = i + n" for p
  proof -
    have "bit ?m (7 - p mod 8) \<longleftrightarrow> bit ?c (8 * n + p mod 8)"
      by (subst reverse_lut_bit) (simp_all add: bit_drop_bit_eq)
    also have "\<dots> \<longleftrightarrow> seq.key s (8 * i + (8 * n + p mod 8))"
      using Suc.prems(3) by (intro seq.key_block) (auto intro: le_less_trans [of _ "16 + p mod 8"])
    also have "8 * i + (8 * n + p mod 8) = p" using that mult_div_mod_eq [of 8 p] by simp
    finally show ?thesis .
  qed
  then show ?case using run o1 o2 by auto
qed

lemma packed_bytes_inside: "packed_bytes ins i c out n = Some out' \<Longrightarrow> n = 0 \<or> i + n \<le> length ins"
proof (induction n arbitrary: out')
  case (Suc n)
  then obtain o1 where "packed_bytes ins i c out n = Some o1"
      "packed_put ins o1 (i + n) (reverse_lut ! unat (drop_bit (8 * n) c AND 255)) = Some out'"
    by (auto simp: packed_bytes_def split: option.splits)
  then show ?case by (auto simp: packed_put_def split: if_splits)
qed simp

lemma packed_par_stage_bits:
  assumes "16 \<le> len" "len < 2 ^ 32" "len div 8 \<le> length ins" "len div 8 \<le> length out"
  shows "i \<le> len div 8 \<Longrightarrow> length out1 = length out \<Longrightarrow>
    (\<And>p. packed_bit out1 p = (if p div 8 < i then packed_bit ins p \<noteq> seq.key s p else packed_bit out p)) \<Longrightarrow>
    \<exists>i' out'. packed_par_stage ins len ((seq_step ^^ (8 * i)) s) i out1 = Some ((seq_step ^^ (8 * i')) s, i', out') \<and>
      i' \<le> len div 8 \<and> len div 8 - i' \<le> 2 \<and> length out' = length out \<and>
      (\<forall>p. packed_bit out' p = (if p div 8 < i' then packed_bit ins p \<noteq> seq.key s p else packed_bit out p))"
proof (induction "len div 8 - i" arbitrary: i out1 rule: less_induct)
  case less
  have "2 \<le> len div 8" using assms(1) by (simp add: less_eq_div_iff_mult_less_eq)
  moreover have "len div 8 < 2 ^ 32" using assms(2) by (rule le_less_trans [OF div_le_dividend])
  ultimately have lim: "sub32 (len div 8) ((SEQUENCE_PAR_BITS - 1) div 8) = len div 8 - 2" by (simp add: sub32_le)
  show ?case
  proof (cases "i < len div 8 - 2")
    case True
    then have "i + 3 \<le> length ins" "i + 3 \<le> length out1" using assms(3,4) less.prems(2) by linarith+
    then obtain o2 where o2: "packed_bytes ins i (seq_word ((seq_step ^^ (8 * i)) s)) out1 3 = Some o2"
      "length o2 = length out1"
      "\<And>p. packed_bit o2 p = (if i \<le> p div 8 \<and> p div 8 < i + 3 then packed_bit ins p \<noteq> seq.key s p else packed_bit out1 p)"
      using packed_bytes_bits [of i 3 ins out1 s] by auto
    have run: "packed_par_stage ins len ((seq_step ^^ (8 * i)) s) i out1 =
        packed_par_stage ins len ((seq_step ^^ (8 * (i + 3))) s) (i + 3) o2"
      unfolding packed_par_stage.simps [of ins len "(seq_step ^^ (8 * i)) s" i out1] lim
      using True \<open>i + 3 \<le> length ins\<close> o2(1) by (simp add: seq.par_add distrib_left)
    have "\<And>p. packed_bit o2 p = (if p div 8 < i + 3 then packed_bit ins p \<noteq> seq.key s p else packed_bit out p)"
      using o2(3) less.prems(3) by auto
    moreover have "length o2 = length out" using o2(2) less.prems(2) by simp
    ultimately show ?thesis unfolding run using True by (intro less.hyps) auto
  next
    case False
    then show ?thesis
      unfolding packed_par_stage.simps [of ins len "(seq_step ^^ (8 * i)) s" i out1] lim
      using less.prems by auto
  qed
qed

section \<open>Properties\<close>

lemma apply_bit_nth:
  "p < length out \<Longrightarrow> srsran_sequence_apply_bit ins out len seed ! p =
     (if p < len then ins ! p XOR bit_of (gold seed p) else out ! p)"
  "length (srsran_sequence_apply_bit ins out len seed) = length out"
  using state_apply_bit_keyed [of ins "srsran_sequence_state_init seed" len out]
  by (simp_all add: keyed_def srsran_sequence_apply_bit_def key_gold)

text \<open>
  C3: the generated sequence is the Gold sequence of TS 36.211: element \<open>p\<close> is
  \<open>c(p) = x1(p + 1600) + x2(p + 1600) mod 2\<close> with \<open>x1(n + 31) = x1(n + 3) + x1(n)\<close>,
  \<open>x2(n + 31) = x2(n + 3) + x2(n + 2) + x2(n + 1) + x2(n)\<close> and the seed as first 31 elements of x2,
  although the code starts from a superposition of precomputed states and takes 24 steps at a time.
\<close>

theorem sequence_is_gold:
  assumes "len \<le> length pr"
  shows "sequence_gen_LTE_pr pr len seed = map (\<lambda>p. bit_of (gold seed p)) [0..<len] @ drop len pr"
  by (rule nth_equalityI) (use assms in \<open>auto simp: gen_LTE_pr_nth nth_append\<close>)

theorem sequence_is_gold_witness:
  "sequence_gen_LTE_pr [7, 7, 7] 2 0x1234 = map (\<lambda>p. bit_of (gold 0x1234 p)) [0..<2] @ [7]"
  using sequence_is_gold [of 2 "[7, 7, 7]" "0x1234"] by simp

text \<open>
  applying a sequence adds it: bits are exclusive-ored with the Gold sequence, floats have their
  sign bit flipped and 16-bit and 8-bit integers are negated exactly where its element is 1; nothing
  beyond the given length is written.
\<close>

theorem sequence_apply_values:
  assumes "p < length out" "len \<le> length ins"
  shows "srsran_sequence_apply_bit ins out len seed ! p =
      (if p < len then ins ! p XOR bit_of (gold seed p) else out ! p) \<and>
    srsran_sequence_apply_c ins out len seed ! p =
      (if p < len then if gold seed p then - (ins ! p) else ins ! p else out ! p) \<and>
    (p < length outs \<longrightarrow> srsran_sequence_apply_s inss outs len seed ! p =
      (if p < len then if gold seed p then - (inss ! p) else inss ! p else outs ! p)) \<and>
    (p < length outf \<longrightarrow> srsran_sequence_apply_f insf outf len seed ! p =
      (if p < len then if gold seed p then insf ! p XOR 0x80000000 else insf ! p else outf ! p))"
  using assms state_apply_c_keyed [of ins "srsran_sequence_state_init seed" len out]
    state_apply_f_keyed [of insf "srsran_sequence_state_init seed" len outf]
  by (auto simp: keyed_def srsran_sequence_apply_c_def srsran_sequence_apply_f_def key_gold apply_bit_nth
      apply_s_nth sign_flip_def)

theorem sequence_apply_values_witness:
  "srsran_sequence_apply_bit [1, 0, 1] [5, 5, 5] 2 99 ! 2 = 5 \<and>
   srsran_sequence_apply_c [3, 4] [0, 0] 2 99 ! 1 = (if gold 99 1 then -4 else 4)"
  using sequence_apply_values [of 2 "[5, 5, 5]" 2 "[1, 0, 1]" "99"]
    sequence_apply_values [of 1 "[0, 0]" 2 "[3, 4]" "99"] by simp

text \<open>
  C19: scrambling twice with the same seed returns the bits, and a stream may be processed in pieces:
  applying the sequence to \<open>m\<close> bits, then to the next \<open>n\<close> with the state left behind (or with a
  state advanced over \<open>m\<close> elements), is applying it once to \<open>m + n\<close> bits.
\<close>

theorem sequence_apply_stream:
  assumes "length ins = m + n" "length out = m + n" "length out' = m + n"
  shows "srsran_sequence_apply_bit (srsran_sequence_apply_bit ins out (m + n) seed) out' (m + n) seed = ins \<and>
    (let (s1, o1) = srsran_sequence_state_apply_bit s (take m ins) (take m out) m;
         (s2, o2) = srsran_sequence_state_apply_bit s1 (drop m ins) (drop m out) n
     in srsran_sequence_state_apply_bit s ins out (m + n) = (s2, o1 @ o2) \<and> srsran_sequence_state_advance s m = s1)"
proof (intro conjI)
  show "srsran_sequence_apply_bit (srsran_sequence_apply_bit ins out (m + n) seed) out' (m + n) seed = ins"
    by (rule nth_equalityI) (simp_all add: assms apply_bit_nth xor.assoc)
next
  obtain s1 o1 where 1: "srsran_sequence_state_apply_bit s (take m ins) (take m out) m = (s1, o1)" by fastforce
  obtain s2 o2 where 2: "srsran_sequence_state_apply_bit s1 (drop m ins) (drop m out) n = (s2, o2)" by fastforce
  obtain s' o' where 3: "srsran_sequence_state_apply_bit s ins out (m + n) = (s', o')" by fastforce
  have k1: "s1 = (seq_step ^^ m) s" "length o1 = m" "\<And>p. p < m \<Longrightarrow> o1 ! p = ins ! p XOR bit_of (seq.key s p)"
    using state_apply_bit_keyed [of "take m ins" s m "take m out"] assms by (simp_all add: 1 keyed_def)
  have k2: "s2 = (seq_step ^^ n) s1" "length o2 = n"
    "\<And>p. p < n \<Longrightarrow> o2 ! p = ins ! (m + p) XOR bit_of (seq.key s (m + p))"
    using state_apply_bit_keyed [of "drop m ins" s1 n "drop m out"] assms
    by (simp_all add: 2 [unfolded k1(1)] keyed_def k1(1) seq.key_steps)
  have k3: "s' = (seq_step ^^ (m + n)) s" "length o' = m + n"
    "\<And>p. p < m + n \<Longrightarrow> o' ! p = ins ! p XOR bit_of (seq.key s p)"
    using state_apply_bit_keyed [of ins s "m + n" out] assms by (simp_all add: 3 keyed_def)
  have "s' = s2" by (simp add: k3(1) k2(1) k1(1) add.commute [of m n] flip: funpow_add_apply)
  moreover have "o' = o1 @ o2"
    by (rule nth_equalityI) (auto simp: k1 k2 k3 nth_append)
  ultimately show "let (s1, o1) = srsran_sequence_state_apply_bit s (take m ins) (take m out) m;
         (s2, o2) = srsran_sequence_state_apply_bit s1 (drop m ins) (drop m out) n
     in srsran_sequence_state_apply_bit s ins out (m + n) = (s2, o1 @ o2) \<and> srsran_sequence_state_advance s m = s1"
    using 2 by (simp add: 1 3 state_advance_steps k1(1))
qed

theorem sequence_apply_stream_witness:
  "srsran_sequence_apply_bit (srsran_sequence_apply_bit [1, 0, 1] [0, 0, 0] 3 7) [0, 0, 0] 3 7 = [1, 0, 1]"
  using sequence_apply_stream [of "[1, 0, 1]" 1 2 "[0, 0, 0]" "[0, 0, 0]" 7]
  by (simp add: numeral_3_eq_3)

text \<open>
  C20: with at least 16 bits, scrambling packed bytes exclusive-ors bit \<open>p\<close> of the array, most
  significant bit first, with element \<open>p\<close> of the Gold sequence and touches no byte past the last; the
  spare bits of a last partial byte are copied.
\<close>

theorem sequence_apply_packed_correct:
  assumes "16 \<le> len" "len < 2 ^ 32" "len \<le> 8 * length ins" "len \<le> 8 * length out"
  shows "\<exists>out'. srsran_sequence_apply_packed ins out len seed = Some out' \<and> length out' = length out \<and>
    (\<forall>p < 8 * length out. packed_bit out' p =
       (if p < len then packed_bit ins p \<noteq> gold seed p
        else if p div 8 = len div 8 \<and> len mod 8 \<noteq> 0 then packed_bit ins p else packed_bit out p))"
proof -
  let ?s = "srsran_sequence_state_init seed"
  obtain d r where n: "len = 8 * d + r" "r < 8" "len div 8 = d" "len mod 8 = r" by (rule div8E)
  have d: "d \<le> length ins" "d \<le> length out" using assms(3,4) n(1) by linarith+
  obtain i o1 where 1: "packed_par_stage ins len ?s 0 out = Some ((seq_step ^^ (8 * i)) ?s, i, o1)"
    "i \<le> d" "d - i \<le> 2" "length o1 = length out"
    "\<And>p. packed_bit o1 p = (if p div 8 < i then packed_bit ins p \<noteq> gold seed p else packed_bit out p)"
    using packed_par_stage_bits [OF assms(1,2), of ins out 0 out ?s] d by (auto simp: n(3) key_gold)
  let ?c = "seq_word ((seq_step ^^ (8 * i)) ?s)"
  obtain o2 where 2: "packed_bytes ins i ?c o1 (d - i) = Some o2" "length o2 = length out"
    "\<And>p. packed_bit o2 p = (if p div 8 < d then packed_bit ins p \<noteq> gold seed p else packed_bit out p)"
    using packed_bytes_bits [of i "d - i" ins o1 ?s] 1 d by (auto simp: key_gold)
  have lt: "p < len \<longleftrightarrow> p div 8 < d \<or> p div 8 = d \<and> p mod 8 < r" for p
    using mult_div_mod_eq [of 8 p] mod_less_divisor [of 8 p] n(1,2) by linarith
  show ?thesis
  proof (cases "r = 0")
    case True
    then have "srsran_sequence_apply_packed ins out len seed = Some o2"
      using 1(1) 2(1) by (simp add: srsran_sequence_apply_packed_def n(3,4))
    then show ?thesis using 2 True by (auto simp: lt n(3,4))
  next
    case False
    then have fit: "d < length ins" "d < length o2" using assms(3,4) n(1) 2(2) by linarith+
    let ?m = "reverse_lut ! unat (drop_bit (8 * (d - i)) ?c AND (push_bit r 1 - 1) AND 255)"
    obtain o3 where 3: "packed_put ins o2 d ?m = Some o3" "length o3 = length o2"
      "\<And>p. packed_bit o3 p = (if p div 8 = d then packed_bit ins p \<noteq> bit ?m (7 - p mod 8) else packed_bit o2 p)"
      using packed_put_bits [OF fit] by blast
    have run: "srsran_sequence_apply_packed ins out len seed = Some o3"
      using 1(1,2) 2(1) 3(1) False by (simp add: srsran_sequence_apply_packed_def n(3,4) Let_def max_absorb2 and.assoc)
    have "bit ?m (7 - p mod 8) \<longleftrightarrow> p mod 8 < r \<and> gold seed p" if "p div 8 = d" for p
    proof -
      have "bit ?m (7 - p mod 8) \<longleftrightarrow> p mod 8 < r \<and> bit ?c (8 * (d - i) + p mod 8)"
      proof -
        have "push_bit r 1 - 1 = (mask r :: u32)" by (simp add: mask_eq_exp_minus_1)
        then have "bit ?m (7 - p mod 8) \<longleftrightarrow> bit (drop_bit (8 * (d - i)) ?c AND mask r) (p mod 8)"
          using reverse_lut_bit [of "p mod 8" "drop_bit (8 * (d - i)) ?c AND mask r"] by (simp add: and.assoc)
        then show ?thesis
          using n(2) by (auto simp: bit_and_iff bit_mask_iff possible_bit_word bit_drop_bit_eq)
      qed
      moreover have "bit ?c (8 * (d - i) + p mod 8) \<longleftrightarrow> seq.key ?s (8 * i + (8 * (d - i) + p mod 8))"
        using 1(3) mod_less_divisor [of 8 p] by (intro seq.key_block) linarith
      moreover have "8 * i + (8 * (d - i) + p mod 8) = p" using that mult_div_mod_eq [of 8 p] 1(2) by linarith
      ultimately show ?thesis by (simp add: key_gold)
    qed
    then show ?thesis using run 2 3 False by (auto simp: lt n(3,4))
  qed
qed

theorem sequence_apply_packed_correct_witness:
  "\<exists>out'. srsran_sequence_apply_packed [0, 0, 0] [0, 0, 0] 20 5 = Some out' \<and> length out' = 3 \<and>
    (\<forall>p < 20. packed_bit out' p = gold 5 p)"
proof -
  have z: "\<not> packed_bit [0, 0, 0] p" if "p < 24" for p
  proof -
    have "p div 8 < 3" using that by (simp add: div_less_iff_less_mult)
    then have "p div 8 = 0 \<or> p div 8 = 1 \<or> p div 8 = 2" by arith
    then show ?thesis by (auto simp: packed_bit_def)
  qed
  show ?thesis
    using sequence_apply_packed_correct [of 20 "[0, 0, 0]" "[0, 0, 0]" "5"] z by fastforce
qed

text \<open>
  with fewer than 16 bits the bound of the first loop of the packed scrambler,
  \<open>length / 8 - (SEQUENCE_PAR_BITS - 1) / 8\<close>, wraps around in 32 bits, and the loop runs past the end
  of every array of less than 4 GB.
\<close>

theorem sequence_apply_packed_short_overrun:
  assumes "len < 16" "length ins < 2 ^ 32 - 2"
  shows "srsran_sequence_apply_packed ins out len seed = None"
proof -
  have "len div 8 < 2" using assms(1) by (simp add: div_less_iff_less_mult)
  then have "2 ^ 32 - 2 \<le> sub32 (len div 8) ((SEQUENCE_PAR_BITS - 1) div 8)"
    by (simp add: sub32_underflow)
  then have lim: "length ins < sub32 (len div 8) ((SEQUENCE_PAR_BITS - 1) div 8)" using assms(2) by linarith
  have "packed_par_stage ins len s i out = None" if "i \<le> length ins" for s i out
    using that
  proof (induction "length ins - i" arbitrary: s i out rule: less_induct)
    case less
    show ?case
    proof (cases "i < length ins")
      case False
      then show ?thesis using lim less.prems by (subst packed_par_stage.simps) auto
    next
      case True
      show ?thesis
      proof (cases "packed_bytes ins i (seq_word s) out (SEQUENCE_PAR_BITS div 8)")
        case None
        then show ?thesis using lim True by (subst packed_par_stage.simps) simp
      next
        case (Some out')
        have "i + 3 \<le> length ins" using packed_bytes_inside [of ins i "seq_word s" out 3 out'] Some by simp
        then have "packed_par_stage ins len (seq_step_par s) (i + 3) out' = None"
          using True by (intro less.hyps) auto
        then show ?thesis using lim True Some by (subst packed_par_stage.simps) simp
      qed
    qed
  qed
  then show ?thesis by (simp add: srsran_sequence_apply_packed_def)
qed

theorem sequence_apply_packed_short_overrun_witness:
  "srsran_sequence_apply_packed [1] [0] 8 5 = None"
  using sequence_apply_packed_short_overrun [of 8 "[1]" "[0]" 5] by simp

end
