(* ===== verification/Scrambling.thy ===== *)
theory Scrambling
  imports Sequence
begin

text \<open>
  Sequence objects (the allocating part of \<open>lib/src/phy/common/sequence.c\<close>), the scrambling
  sequences of the physical channels (\<open>lib/src/phy/phch/sequences.c\<close>) and the scrambler
  (\<open>lib/src/phy/scrambling/scrambling.c\<close>) for unpacked bits, packed bytes and signed integers.
  A buffer is a list with the length it was allocated with; memory that was just allocated reads
  as zero, and \<open>mem k\<close> says whether allocation number \<open>k\<close> of a call succeeds. Floats are their
  32-bit patterns; the float and complex scramblers multiply by these and are not modelled.
\<close>

unbundle bit_operations_syntax

section \<open>Sequence objects\<close>

record srsran_sequence_t =
  sc_allocated :: bool
  sc_c :: "u8 list"
  sc_bytes :: "u8 list"
  sc_float :: "u32 list"
  sc_short :: "u16 list"
  sc_char :: "u8 list"
  sc_cur_len :: nat
  sc_max_len :: nat

abbreviation SRSRAN_SUCCESS :: int where "SRSRAN_SUCCESS \<equiv> 0"
abbreviation SRSRAN_ERROR :: int where "SRSRAN_ERROR \<equiv> -1"

definition srsran_sequence_free :: "srsran_sequence_t \<Rightarrow> srsran_sequence_t" where
  "srsran_sequence_free q =
     \<lparr>sc_allocated = False, sc_c = [], sc_bytes = [], sc_float = [], sc_short = [], sc_char = [],
      sc_cur_len = 0, sc_max_len = 0\<rparr>"

definition srsran_sequence_init :: "(nat \<Rightarrow> bool) \<Rightarrow> srsran_sequence_t \<Rightarrow> nat \<Rightarrow> srsran_sequence_t \<times> int" where
  "srsran_sequence_init mem q len =
     (let q1 = (if sc_allocated q \<and> len > sc_max_len q then srsran_sequence_free q else q)
      in if \<not> sc_allocated q1
         then if \<not> mem 0 then (q1, SRSRAN_ERROR) else
              let q2 = q1\<lparr>sc_allocated := True, sc_c := replicate len 0\<rparr> in
              if \<not> mem 1 then (q2, SRSRAN_ERROR) else
              let q3 = q2\<lparr>sc_bytes := replicate (len div 8 + 8) 0\<rparr> in
              if \<not> mem 2 then (q3, SRSRAN_ERROR) else
              let q4 = q3\<lparr>sc_float := replicate len 0\<rparr> in
              if \<not> mem 3 then (q4, SRSRAN_ERROR) else
              let q5 = q4\<lparr>sc_short := replicate len 0\<rparr> in
              if \<not> mem 4 then (q5, SRSRAN_ERROR) else
              (q5\<lparr>sc_char := replicate len 0, sc_max_len := len\<rparr>, SRSRAN_SUCCESS)
         else (q1, SRSRAN_SUCCESS))"

definition srsran_sequence_set_LTE_pr :: "srsran_sequence_t \<Rightarrow> nat \<Rightarrow> u32 \<Rightarrow> srsran_sequence_t \<times> int" where
  "srsran_sequence_set_LTE_pr q len seed =
     (if len > sc_max_len q then (q, SRSRAN_ERROR)
      else (q\<lparr>sc_c := sequence_gen_LTE_pr (sc_c q) len seed\<rparr>, SRSRAN_SUCCESS))"

text \<open>The floats 1.0 and -1.0 as bit patterns.\<close>

definition sequence_generate_signed :: "srsran_sequence_t \<Rightarrow> nat \<Rightarrow> srsran_sequence_t" where
  "sequence_generate_signed q len =
     foldl (\<lambda>q i. q\<lparr>sc_char := (sc_char q)[i := if sc_c q ! i \<noteq> 0 then -1 else 1],
                    sc_short := (sc_short q)[i := if sc_c q ! i \<noteq> 0 then -1 else 1],
                    sc_float := (sc_float q)[i := if sc_c q ! i \<noteq> 0 then 0xBF800000 else 0x3F800000]\<rparr>)
       q [0..<len]"

definition srsran_sequence_LTE_pr ::
  "(nat \<Rightarrow> bool) \<Rightarrow> srsran_sequence_t \<Rightarrow> nat \<Rightarrow> u32 \<Rightarrow> srsran_sequence_t \<times> int" where
  "srsran_sequence_LTE_pr mem q len seed =
     (let (q1, r) = srsran_sequence_init mem q len
      in if r \<noteq> 0 then (q1, SRSRAN_ERROR)
         else let q2 = fst (srsran_sequence_set_LTE_pr (q1\<lparr>sc_cur_len := len\<rparr>) len seed);
                  q3 = q2\<lparr>sc_bytes := store (sc_bytes q2) 0 (srsran_bit_pack_vector (sc_c q2) len)\<rparr>
              in (sequence_generate_signed q3 len, SRSRAN_SUCCESS))"

section \<open>The sequences of the physical channels\<close>

text \<open>
  The seeds are computed in 32 bits. An argument \<open>nslot\<close> is a slot number; \<open>div\<close> on words is the
  unsigned division.
\<close>

definition srsran_sequence_pbch where
  "srsran_sequence_pbch mem seq cp_is_norm cell_id =
     srsran_sequence_LTE_pr mem seq (if cp_is_norm then 1920 else 1728) cell_id"

definition pcfich_seed :: "u32 \<Rightarrow> u32 \<Rightarrow> u32" where
  "pcfich_seed nslot cell_id = (nslot div 2 + 1) * (2 * cell_id + 1) * 512 + cell_id"

definition srsran_sequence_pcfich where
  "srsran_sequence_pcfich mem seq nslot cell_id = srsran_sequence_LTE_pr mem seq 32 (pcfich_seed nslot cell_id)"

definition srsran_sequence_phich where
  "srsran_sequence_phich mem seq nslot cell_id = srsran_sequence_LTE_pr mem seq 12 (pcfich_seed nslot cell_id)"

definition srsran_sequence_pdcch where
  "srsran_sequence_pdcch mem seq nslot cell_id len =
     srsran_sequence_LTE_pr mem seq len ((nslot div 2) * 512 + cell_id)"

definition sequence_pdsch_seed :: "u16 \<Rightarrow> u32 \<Rightarrow> u32 \<Rightarrow> u32 \<Rightarrow> u32" where
  "sequence_pdsch_seed rnti q nslot cell_id =
     push_bit 14 (ucast rnti) + push_bit 13 q + push_bit 9 (nslot div 2) + cell_id"

definition srsran_sequence_pdsch where
  "srsran_sequence_pdsch mem seq rnti q nslot cell_id len =
     srsran_sequence_LTE_pr mem seq len (sequence_pdsch_seed rnti q nslot cell_id)"

definition srsran_sequence_pdsch_apply_pack where
  "srsran_sequence_pdsch_apply_pack ins out rnti q nslot cell_id len =
     srsran_sequence_apply_packed ins out len (sequence_pdsch_seed rnti q nslot cell_id)"

definition srsran_sequence_pdsch_apply_f where
  "srsran_sequence_pdsch_apply_f ins out rnti q nslot cell_id len =
     srsran_sequence_apply_f ins out len (sequence_pdsch_seed rnti q nslot cell_id)"

definition srsran_sequence_pdsch_apply_s where
  "srsran_sequence_pdsch_apply_s ins out rnti q nslot cell_id len =
     srsran_sequence_apply_s ins out len (sequence_pdsch_seed rnti q nslot cell_id)"

definition srsran_sequence_pdsch_apply_c where
  "srsran_sequence_pdsch_apply_c ins out rnti q nslot cell_id len =
     srsran_sequence_apply_c ins out len (sequence_pdsch_seed rnti q nslot cell_id)"

definition sequence_pusch_seed :: "u16 \<Rightarrow> u32 \<Rightarrow> u32 \<Rightarrow> u32" where
  "sequence_pusch_seed rnti nslot cell_id = push_bit 14 (ucast rnti) + push_bit 9 (nslot div 2) + cell_id"

definition srsran_sequence_pusch where
  "srsran_sequence_pusch mem seq rnti nslot cell_id len =
     srsran_sequence_LTE_pr mem seq len (sequence_pusch_seed rnti nslot cell_id)"

definition srsran_sequence_pusch_apply_pack where
  "srsran_sequence_pusch_apply_pack ins out rnti nslot cell_id len =
     srsran_sequence_apply_packed ins out len (sequence_pusch_seed rnti nslot cell_id)"

definition srsran_sequence_pusch_apply_s where
  "srsran_sequence_pusch_apply_s ins out rnti nslot cell_id len =
     srsran_sequence_apply_s ins out len (sequence_pusch_seed rnti nslot cell_id)"

definition srsran_sequence_pusch_gen_unpack where
  "srsran_sequence_pusch_gen_unpack out rnti nslot cell_id len =
     (let z = store out 0 (replicate len 0)
      in srsran_sequence_apply_bit z z len (sequence_pusch_seed rnti nslot cell_id))"

definition srsran_sequence_pusch_apply_c where
  "srsran_sequence_pusch_apply_c ins out rnti nslot cell_id len =
     srsran_sequence_apply_c ins out len (sequence_pusch_seed rnti nslot cell_id)"

definition pucch_seed :: "u16 \<Rightarrow> u32 \<Rightarrow> u32 \<Rightarrow> u32" where
  "pucch_seed rnti nslot cell_id = push_bit 16 ((nslot div 2 + 1) * (2 * cell_id + 1)) + ucast rnti"

definition srsran_sequence_pucch where
  "srsran_sequence_pucch mem seq rnti nslot cell_id =
     srsran_sequence_LTE_pr mem seq (12 * 4) (pucch_seed rnti nslot cell_id)"

text \<open>The functions that first clear the object, without releasing its buffers.\<close>

definition bzero_sequence :: "srsran_sequence_t \<Rightarrow> srsran_sequence_t" where
  "bzero_sequence q = srsran_sequence_free q"

definition srsran_sequence_pmch where
  "srsran_sequence_pmch mem seq nslot mbsfn_id len =
     srsran_sequence_LTE_pr mem (bzero_sequence seq) len (push_bit 9 (nslot div 2) + mbsfn_id)"

definition srsran_sequence_npbch where
  "srsran_sequence_npbch mem seq cp cell_id =
     srsran_sequence_LTE_pr mem (bzero_sequence seq) 1600 cell_id"

definition srsran_sequence_npbch_r14 where
  "srsran_sequence_npbch_r14 mem seq n_id_ncell nf =
     srsran_sequence_LTE_pr mem (bzero_sequence seq) 200
       ((n_id_ncell + 1) * ((nf mod 8 + 1) * (nf mod 8 + 1) * (nf mod 8 + 1)) * 512 + n_id_ncell)"

definition npdsch_seed :: "u16 \<Rightarrow> u32 \<Rightarrow> u32 \<Rightarrow> u32 \<Rightarrow> u32" where
  "npdsch_seed rnti nf nslot cell_id =
     push_bit 14 (ucast rnti) + push_bit 13 (nf mod 2) + push_bit 9 (nslot div 2) + cell_id"

definition srsran_sequence_npdsch where
  "srsran_sequence_npdsch mem seq rnti q nf nslot cell_id len =
     srsran_sequence_LTE_pr mem (bzero_sequence seq) len (npdsch_seed rnti nf nslot cell_id)"

definition srsran_sequence_npdsch_bcch_r14 where
  "srsran_sequence_npdsch_bcch_r14 mem seq nf n_id_ncell len =
     srsran_sequence_LTE_pr mem (bzero_sequence seq) len (push_bit 15 0xffff + (n_id_ncell + 1) * (nf mod 61 + 1))"

definition srsran_sequence_npdcch where
  "srsran_sequence_npdcch mem seq nslot cell_id len =
     srsran_sequence_LTE_pr mem (bzero_sequence seq) len ((nslot div 2) * 512 + cell_id)"

definition srsran_sequence_npusch where
  "srsran_sequence_npusch mem seq rnti nf nslot cell_id len =
     srsran_sequence_LTE_pr mem (bzero_sequence seq) len (npdsch_seed rnti nf nslot cell_id)"

definition srsran_sequence_nprach where
  "srsran_sequence_nprach mem seq cell_id = srsran_sequence_LTE_pr mem (bzero_sequence seq) 1600 cell_id"

section \<open>The scrambler\<close>

definition srsran_vec_xor_bbb :: "u8 list \<Rightarrow> u8 list \<Rightarrow> u8 list \<Rightarrow> nat \<Rightarrow> u8 list" where
  "srsran_vec_xor_bbb x y z len = foldl (\<lambda>z i. z[i := x ! i XOR y ! i]) z [0..<len]"

definition srsran_vec_neg :: "'a::len word list \<Rightarrow> 'a word list \<Rightarrow> 'a word list \<Rightarrow> nat \<Rightarrow> 'a word list" where
  "srsran_vec_neg x y z len = foldl (\<lambda>z i. z[i := if sint (y ! i) < 0 then - (x ! i) else x ! i]) z [0..<len]"

definition scrambling_b :: "u8 list \<Rightarrow> u8 list \<Rightarrow> nat \<Rightarrow> u8 list" where
  "scrambling_b c data len = srsran_vec_xor_bbb c data data len"

definition srsran_scrambling_b_offset :: "srsran_sequence_t \<Rightarrow> u8 list \<Rightarrow> nat \<Rightarrow> nat \<Rightarrow> u8 list" where
  "srsran_scrambling_b_offset s data offset len = scrambling_b (drop offset (sc_c s)) data len"

definition srsran_scrambling_b :: "srsran_sequence_t \<Rightarrow> u8 list \<Rightarrow> u8 list" where
  "srsran_scrambling_b s data = srsran_scrambling_b_offset s data 0 (sc_cur_len s)"

text \<open>A failed assertion is \<open>None\<close>.\<close>

definition srsran_scrambling_s_offset :: "srsran_sequence_t \<Rightarrow> u16 list \<Rightarrow> nat \<Rightarrow> nat \<Rightarrow> u16 list option" where
  "srsran_scrambling_s_offset s data offset len =
     (if len + offset \<le> sc_cur_len s then Some (srsran_vec_neg data (drop offset (sc_short s)) data len) else None)"

definition srsran_scrambling_s :: "srsran_sequence_t \<Rightarrow> u16 list \<Rightarrow> u16 list option" where
  "srsran_scrambling_s s data = srsran_scrambling_s_offset s data 0 (sc_cur_len s)"

definition srsran_scrambling_sb_offset :: "srsran_sequence_t \<Rightarrow> u8 list \<Rightarrow> nat \<Rightarrow> nat \<Rightarrow> u8 list option" where
  "srsran_scrambling_sb_offset s data offset len =
     (if len + offset \<le> sc_cur_len s then Some (srsran_vec_neg data (drop offset (sc_char s)) data len) else None)"

definition srsran_scrambling_bytes :: "srsran_sequence_t \<Rightarrow> u8 list \<Rightarrow> nat \<Rightarrow> u8 list" where
  "srsran_scrambling_bytes s data len =
     (let data1 = scrambling_b (sc_bytes s) data (len div 8)
      in if len mod 8 \<noteq> 0
         then let tmp_bits = srsran_bit_unpack_vector (drop (len div 8) data1) (len mod 8);
                  tmp_bits' = scrambling_b (drop (8 * (len div 8)) (sc_c s)) tmp_bits (len mod 8)
              in store data1 (len div 8) (srsran_bit_pack_vector tmp_bits' (len mod 8))
         else data1)"

section \<open>The sequence object\<close>

text \<open>
  The invariant of an object: it is cleared, or its buffers hold \<open>max_len\<close> elements. And what a
  successful generation leaves: every representation of the Gold sequence of the seed.
\<close>

definition seq_inv :: "srsran_sequence_t \<Rightarrow> bool" where
  "seq_inv q \<longleftrightarrow> (\<not> sc_allocated q \<longrightarrow> sc_max_len q = 0) \<and> sc_max_len q \<le> length (sc_c q) \<and>
     ceil_div (sc_max_len q) 8 \<le> length (sc_bytes q) \<and> sc_max_len q \<le> length (sc_float q) \<and>
     sc_max_len q \<le> length (sc_short q) \<and> sc_max_len q \<le> length (sc_char q)"

definition holds_gold :: "srsran_sequence_t \<Rightarrow> u32 \<Rightarrow> bool" where
  "holds_gold q seed \<longleftrightarrow> seq_inv q \<and> sc_cur_len q \<le> sc_max_len q \<and>
     (\<forall>p < sc_cur_len q. sc_c q ! p = bit_of (gold seed p) \<and> packed_bit (sc_bytes q) p = gold seed p \<and>
        sc_short q ! p = (if gold seed p then -1 else 1) \<and> sc_char q ! p = (if gold seed p then -1 else 1) \<and>
        sc_float q ! p = (if gold seed p then 0xBF800000 else 0x3F800000))"

lemma ceil_div_le_add: "ceil_div n 8 \<le> n div 8 + 8"
  by (simp add: ceil_div_8)

lemma ceil_div_mono: "m \<le> n \<Longrightarrow> ceil_div m k \<le> ceil_div n k"
  unfolding ceil_div_def by (intro div_le_mono) simp

lemma init_seq_inv:
  assumes "seq_inv q" "srsran_sequence_init mem q len = (q', r)"
  shows "seq_inv q' \<and> (r = SRSRAN_SUCCESS \<and> len \<le> sc_max_len q' \<or> r = SRSRAN_ERROR) \<and>
    ((\<forall>k < 5. mem k) \<longrightarrow> r = SRSRAN_SUCCESS)"
proof -
  define q1 where "q1 = (if sc_allocated q \<and> len > sc_max_len q then srsran_sequence_free q else q)"
  have q1: "seq_inv q1" "sc_allocated q1 \<Longrightarrow> len \<le> sc_max_len q1" "\<not> sc_allocated q1 \<Longrightarrow> sc_max_len q1 = 0"
    using assms(1) by (auto simp: q1_def seq_inv_def srsran_sequence_free_def ceil_div_def)
  have run: "srsran_sequence_init mem q len =
      (if \<not> sc_allocated q1
         then if \<not> mem 0 then (q1, SRSRAN_ERROR) else
              let q2 = q1\<lparr>sc_allocated := True, sc_c := replicate len 0\<rparr> in
              if \<not> mem 1 then (q2, SRSRAN_ERROR) else
              let q3 = q2\<lparr>sc_bytes := replicate (len div 8 + 8) 0\<rparr> in
              if \<not> mem 2 then (q3, SRSRAN_ERROR) else
              let q4 = q3\<lparr>sc_float := replicate len 0\<rparr> in
              if \<not> mem 3 then (q4, SRSRAN_ERROR) else
              let q5 = q4\<lparr>sc_short := replicate len 0\<rparr> in
              if \<not> mem 4 then (q5, SRSRAN_ERROR) else
              (q5\<lparr>sc_char := replicate len 0, sc_max_len := len\<rparr>, SRSRAN_SUCCESS)
         else (q1, SRSRAN_SUCCESS))"
    unfolding srsran_sequence_init_def Let_def q1_def ..
  have zero: "ceil_div 0 8 = 0" by (simp add: ceil_div_def)
  have mem: "(\<forall>k < 5. mem k) \<longleftrightarrow> mem 0 \<and> mem (Suc 0) \<and> mem 2 \<and> mem 3 \<and> mem 4"
    by (auto simp: eval_nat_numeral less_Suc_eq)
  show ?thesis
  proof (cases "sc_allocated q1")
    case True
    then show ?thesis using assms(2) q1 unfolding run mem by auto
  next
    case False
    then show ?thesis
      using assms(2) q1 unfolding run mem
      by (auto simp: Let_def seq_inv_def zero ceil_div_le_add split: if_splits)
  qed
qed

lemma generate_signed_fields:
  "sc_allocated (sequence_generate_signed q len) = sc_allocated q \<and>
   sc_c (sequence_generate_signed q len) = sc_c q \<and> sc_bytes (sequence_generate_signed q len) = sc_bytes q \<and>
   sc_cur_len (sequence_generate_signed q len) = sc_cur_len q \<and> sc_max_len (sequence_generate_signed q len) = sc_max_len q \<and>
   sc_char (sequence_generate_signed q len) =
     foldl (\<lambda>o' i. o'[i := if sc_c q ! i \<noteq> 0 then -1 else 1]) (sc_char q) [0..<len] \<and>
   sc_short (sequence_generate_signed q len) =
     foldl (\<lambda>o' i. o'[i := if sc_c q ! i \<noteq> 0 then -1 else 1]) (sc_short q) [0..<len] \<and>
   sc_float (sequence_generate_signed q len) =
     foldl (\<lambda>o' i. o'[i := if sc_c q ! i \<noteq> 0 then 0xBF800000 else 0x3F800000]) (sc_float q) [0..<len]"
  unfolding sequence_generate_signed_def by (induction len) simp_all

lemma pack_word_cong:
  "(\<And>j. j < k \<Longrightarrow> xs ! j = ys ! j) \<Longrightarrow> fst (srsran_bit_pack xs k) = fst (srsran_bit_pack ys k)"
  by (auto simp: srsran_bit_pack_def intro!: foldl_cong)

text \<open>Packing reads only the bits it packs.\<close>

lemma pack_vector_take:
  assumes "n \<le> length bits"
  shows "srsran_bit_pack_vector (take n bits) n = srsran_bit_pack_vector bits n"
proof -
  obtain d r where n: "n = 8 * d + r" "r < 8" "n div 8 = d" "n mod 8 = r" by (rule div8E)
  have "fst (srsran_bit_pack (drop (8 * i) (take n bits)) 8) = fst (srsran_bit_pack (drop (8 * i) bits) 8)" if "i < d" for i
    using that assms n(1) by (intro pack_word_cong) simp
  moreover have "fst (srsran_bit_pack (drop (8 * d) (take n bits)) r) = fst (srsran_bit_pack (drop (8 * d) bits) r)"
    using assms n(1) by (intro pack_word_cong) simp
  ultimately show ?thesis
    unfolding srsran_bit_pack_vector_def Let_def n(3,4) by simp
qed

lemma LTE_pr_holds_gold:
  assumes "seq_inv q" "srsran_sequence_LTE_pr mem q len seed = (q', r)"
  shows "seq_inv q'" "r = SRSRAN_SUCCESS \<Longrightarrow> holds_gold q' seed \<and> sc_cur_len q' = len"
    "r = SRSRAN_SUCCESS \<or> r = SRSRAN_ERROR" "(\<forall>k < 5. mem k) \<Longrightarrow> r = SRSRAN_SUCCESS"
proof -
  obtain q1 r1 where 1: "srsran_sequence_init mem q len = (q1, r1)" by fastforce
  note i = init_seq_inv [OF assms(1) 1]
  have "seq_inv q' \<and> (r = SRSRAN_SUCCESS \<longrightarrow> holds_gold q' seed \<and> sc_cur_len q' = len) \<and>
      (r = SRSRAN_SUCCESS \<or> r = SRSRAN_ERROR) \<and> ((\<forall>k < 5. mem k) \<longrightarrow> r = SRSRAN_SUCCESS)"
  proof (cases "r1 = 0")
    case False
    then show ?thesis using i assms(2) by (auto simp: srsran_sequence_LTE_pr_def 1)
  next
    case True
    then have fit: "len \<le> sc_max_len q1" and inv: "seq_inv q1" using i by auto
    let ?c = "sequence_gen_LTE_pr (sc_c q1) len seed"
    define q3 where "q3 = q1\<lparr>sc_cur_len := len, sc_c := ?c, sc_bytes := store (sc_bytes q1) 0 (srsran_bit_pack_vector ?c len)\<rparr>"
    have q': "q' = sequence_generate_signed q3 len" "r = 0"
      using assms(2) True fit
      by (auto simp: srsran_sequence_LTE_pr_def 1 srsran_sequence_set_LTE_pr_def Let_def q3_def)
    have lens: "len \<le> length (sc_c q1)" "ceil_div len 8 \<le> length (sc_bytes q1)" "len \<le> length (sc_float q1)"
      "len \<le> length (sc_short q1)" "len \<le> length (sc_char q1)"
      using inv fit ceil_div_mono [OF fit, of 8] by (auto simp: seq_inv_def)
    have c: "?c ! p = bit_of (gold seed p)" if "p < len" for p using that lens by (simp add: gen_LTE_pr_nth)
    have u: "unpacked_bits (take len ?c)"
      unfolding unpacked_bits_def all_set_conv_all_nth using c lens by (simp add: gen_LTE_pr_nth(2))
    have bits: "packed_bit (sc_bytes q3) p = gold seed p" if "p < len" for p
    proof -
      have p8: "p div 8 < ceil_div len 8" "p < 8 * ceil_div len 8"
        using that ceil_div_mult_ge [of 8 len] by (simp_all add: div_less_iff_less_mult)
      have "packed_bit (sc_bytes q3) p = packed_bit (srsran_bit_pack_vector (take len ?c) len) p"
        using p8 lens(1,2)
        by (simp add: q3_def packed_bit_def nth_store pack_vector_take gen_LTE_pr_nth(2))
      also have "\<dots> \<longleftrightarrow> p < len \<and> take len ?c ! p = 1"
        using u lens p8 by (intro nth_pack_vector) (simp_all add: gen_LTE_pr_nth(2))
      finally show ?thesis using that c [OF that] by (auto simp: bit_of_def)
    qed
    have "length (sc_bytes q3) = length (sc_bytes q1)"
      using lens(2) by (simp add: q3_def length_store)
    then have "seq_inv q3" using inv by (simp add: seq_inv_def q3_def gen_LTE_pr_nth(2))
    then have inv': "seq_inv q'"
      using generate_signed_fields [of q3 len] by (simp add: q' seq_inv_def)
    have "holds_gold q' seed"
      unfolding holds_gold_def using inv' generate_signed_fields [of q3 len] bits fit lens c
      by (simp add: q' q3_def foldl_list_update_nth bit_of_neq_0)
    then show ?thesis using inv' generate_signed_fields [of q3 len] by (simp add: q' q3_def)
  qed
  then show "seq_inv q'" "r = SRSRAN_SUCCESS \<Longrightarrow> holds_gold q' seed \<and> sc_cur_len q' = len"
    "r = SRSRAN_SUCCESS \<or> r = SRSRAN_ERROR" "(\<forall>k < 5. mem k) \<Longrightarrow> r = SRSRAN_SUCCESS"
    by auto
qed

section \<open>Scrambling\<close>

lemma nth_xor_bbb:
  "len \<le> length z \<Longrightarrow> i < length z \<Longrightarrow>
   srsran_vec_xor_bbb x y z len ! i = (if i < len then x ! i XOR y ! i else z ! i)"
  unfolding srsran_vec_xor_bbb_def by (simp add: foldl_list_update_nth)

lemma length_xor_bbb [simp]: "length (srsran_vec_xor_bbb x y z len) = length z"
  by (simp add: srsran_vec_xor_bbb_def)

lemma nth_vec_neg:
  "len \<le> length z \<Longrightarrow> i < length z \<Longrightarrow>
   srsran_vec_neg x y z len ! i = (if i < len then if sint (y ! i) < 0 then - (x ! i) else x ! i else z ! i)"
  unfolding srsran_vec_neg_def by (simp add: foldl_list_update_nth)

lemma length_vec_neg [simp]: "length (srsran_vec_neg x y z len) = length z"
  by (simp add: srsran_vec_neg_def)

lemma packed_bit_xor: "packed_bit zs p \<longleftrightarrow> packed_bit xs p \<noteq> packed_bit ys p" if "zs ! (p div 8) = xs ! (p div 8) XOR ys ! (p div 8)"
  using that by (simp add: packed_bit_def bit_xor_iff)

lemma packed_bit_drop: "8 * d \<le> p \<Longrightarrow> d \<le> length xs \<Longrightarrow> packed_bit (drop d xs) (p - 8 * d) = packed_bit xs p"
proof -
  assume p: "8 * d \<le> p" "d \<le> length xs"
  then obtain q where q: "p = 8 * d + q" using le_Suc_ex by blast
  have "(8 * d + q) div 8 = d + q div 8" "(8 * d + q) mod 8 = q mod 8" by simp_all
  then show ?thesis using p(2) unfolding packed_bit_def q by simp
qed

lemma packed_bit_store:
  assumes "d + length ys \<le> length xs" "p div 8 < length xs"
  shows "packed_bit (store xs d ys) p =
    (if d \<le> p div 8 \<and> p div 8 < d + length ys then packed_bit ys (p - 8 * d) else packed_bit xs p)"
proof (cases "d \<le> p div 8 \<and> p div 8 < d + length ys")
  case True
  then have "8 * d \<le> p" using div_times_less_eq_dividend [of p 8] by linarith
  then obtain q where q: "p = 8 * d + q" using le_Suc_ex by blast
  have "(8 * d + q) div 8 = d + q div 8" "(8 * d + q) mod 8 = q mod 8" by simp_all
  then show ?thesis using True assms by (simp add: packed_bit_def nth_store q)
next
  case False
  then show ?thesis using assms by (auto simp: packed_bit_def nth_store)
qed

lemma scrambling_bytes_bits:
  assumes s: "holds_gold s seed" "len \<le> sc_cur_len s" and data: "ceil_div len 8 \<le> length data"
  shows "length (srsran_scrambling_bytes s data len) = length data"
    "p < 8 * length data \<Longrightarrow> packed_bit (srsran_scrambling_bytes s data len) p =
      (if p < len then packed_bit data p \<noteq> gold seed p else 8 * ceil_div len 8 \<le> p \<and> packed_bit data p)"
proof -
  obtain d r where n: "len = 8 * d + r" "r < 8" "len div 8 = d" "len mod 8 = r" by (rule div8E)
  have c: "ceil_div len 8 = d + (if r \<noteq> 0 then 1 else 0)" by (simp add: ceil_div_8 n(3,4))
  define data1 where "data1 = scrambling_b (sc_bytes s) data d"
  have len1: "length data1 = length data" by (simp add: data1_def scrambling_b_def)
  have d: "d \<le> length data" using data c by simp
  have bit1: "packed_bit data1 p = (if p div 8 < d then packed_bit data p \<noteq> gold seed p else packed_bit data p)"
    if "p div 8 < length data" for p
  proof (cases "p div 8 < d")
    case True
    then have "p < len" using n(1) mult_div_mod_eq [of 8 p] mod_less_divisor [of 8 p] by linarith
    then have "packed_bit (sc_bytes s) p = gold seed p" using s by (simp add: holds_gold_def)
    moreover have "packed_bit data1 p \<longleftrightarrow> packed_bit (sc_bytes s) p \<noteq> packed_bit data p"
      by (rule packed_bit_xor) (use True d in \<open>simp add: data1_def scrambling_b_def nth_xor_bbb\<close>)
    ultimately show ?thesis using True by auto
  next
    case False
    then show ?thesis using that d by (simp add: data1_def scrambling_b_def packed_bit_def nth_xor_bbb)
  qed
  have div: "p div 8 < k \<longleftrightarrow> p < 8 * k" for p k :: nat by (simp add: div_less_iff_less_mult mult.commute)
  have "length (srsran_scrambling_bytes s data len) = length data \<and>
    (p < 8 * length data \<longrightarrow> packed_bit (srsran_scrambling_bytes s data len) p =
      (if p < len then packed_bit data p \<noteq> gold seed p else 8 * ceil_div len 8 \<le> p \<and> packed_bit data p))"
  proof (cases "r = 0")
    case True
    have "srsran_scrambling_bytes s data len = data1"
      using True by (simp add: srsran_scrambling_bytes_def n(3,4) data1_def)
    then show ?thesis using True bit1 [of p] len1 n(1) c by (auto simp: div)
  next
    case False
    then have dl: "d < length data" using data c by simp
    define tmp where "tmp = srsran_bit_unpack_vector (drop d data1) r"
    define tmp' where "tmp' = scrambling_b (drop (8 * d) (sc_c s)) tmp r"
    have [simp]: "length tmp' = r" "length tmp = r" by (simp_all add: tmp'_def tmp_def scrambling_b_def)
    have tmp: "tmp' ! j = bit_of (packed_bit data (8 * d + j) \<noteq> gold seed (8 * d + j))" if "j < r" for j
    proof -
      have lt: "8 * d + j < len" "(8 * d + j) div 8 = d" using that n(1,2) by auto
      have "tmp ! j = bit_of (packed_bit data1 (8 * d + j))"
        using that dl len1 packed_bit_drop [of d "8 * d + j" data1] by (simp add: tmp_def)
      also have "packed_bit data1 (8 * d + j) = packed_bit data (8 * d + j)"
        using bit1 [of "8 * d + j"] lt dl by simp
      finally have "tmp ! j = bit_of (packed_bit data (8 * d + j))" .
      moreover have "8 * d \<le> length (sc_c s)" using s n(1) by (auto simp: holds_gold_def seq_inv_def)
      moreover have "sc_c s ! (8 * d + j) = bit_of (gold seed (8 * d + j))"
        using s lt(1) by (simp add: holds_gold_def)
      ultimately show ?thesis using that by (simp add: tmp'_def scrambling_b_def nth_xor_bbb bit_of_xor) blast
    qed
    have u: "unpacked_bits tmp'"
      unfolding unpacked_bits_def all_set_conv_all_nth using tmp by simp
    have one: "ceil_div r 8 = 1" using False n(2) by (simp add: ceil_div_8)
    have run: "srsran_scrambling_bytes s data len = store data1 d (srsran_bit_pack_vector tmp' r)"
      using False by (simp add: srsran_scrambling_bytes_def n(3,4) data1_def tmp_def tmp'_def Let_def)
    have fits: "d + length (srsran_bit_pack_vector tmp' r) \<le> length data1" using dl len1 one by simp
    have last: "packed_bit (srsran_bit_pack_vector tmp' r) (p - 8 * d) = (p < len \<and> (packed_bit data p \<noteq> gold seed p))"
      if pd: "p div 8 = d"
    proof -
      obtain j where j: "p = 8 * d + j" "j < 8"
      proof
        show "p = 8 * d + p mod 8" "p mod 8 < 8" using pd mult_div_mod_eq [of 8 p] by simp_all
      qed
      have "packed_bit (srsran_bit_pack_vector tmp' r) j \<longleftrightarrow> j < r \<and> tmp' ! j = 1"
        using u one j(2) by (intro nth_pack_vector) simp_all
      then show ?thesis using j n(1) by (auto simp: tmp bit_of_def)
    qed
    show ?thesis
    proof (intro conjI impI)
      show "length (srsran_scrambling_bytes s data len) = length data" unfolding run using fits len1 by (simp add: length_store)
      assume p: "p < 8 * length data"
      show "packed_bit (srsran_scrambling_bytes s data len) p =
        (if p < len then packed_bit data p \<noteq> gold seed p else 8 * ceil_div len 8 \<le> p \<and> packed_bit data p)"
      proof (cases "p div 8 = d")
        case True
        then have "packed_bit (srsran_scrambling_bytes s data len) p = packed_bit (srsran_bit_pack_vector tmp' r) (p - 8 * d)"
          unfolding run using fits p len1 one by (subst packed_bit_store) (auto simp: div)
        moreover have "\<not> 8 * ceil_div len 8 \<le> p" using True c False div [of p "d + 1"] by simp
        ultimately show ?thesis using last [OF True] by auto
      next
        case other: False
        then have "packed_bit (srsran_scrambling_bytes s data len) p = packed_bit data1 p"
          unfolding run using fits p len1 one by (subst packed_bit_store) (auto simp: div)
        moreover have "p < len \<longleftrightarrow> p div 8 < d" using other n(1,2) div [of p d] div [of p "d + 1"] by auto
        moreover have "8 * ceil_div len 8 \<le> p \<longleftrightarrow> \<not> p div 8 < d"
          using other c False div [of p d] div [of p "d + 1"] by auto
        ultimately show ?thesis using bit1 [of p] p by (auto simp: div)
      qed
    qed
  qed
  then show "length (srsran_scrambling_bytes s data len) = length data"
    "p < 8 * length data \<Longrightarrow> packed_bit (srsran_scrambling_bytes s data len) p =
      (if p < len then packed_bit data p \<noteq> gold seed p else 8 * ceil_div len 8 \<le> p \<and> packed_bit data p)" by auto
qed

section \<open>Properties\<close>

text \<open>
  C21: \<open>srsran_sequence_LTE_pr\<close> on a cleared or earlier used object either fails with an error, which
  it does only when an allocation fails, or leaves the Gold sequence of the seed in all five
  representations (bits, packed bytes, and signs as 8-bit, 16-bit and float values), reallocating the
  buffers when they are too short; in both cases the object stays consistent.
\<close>

theorem sequence_LTE_pr_correct:
  assumes "seq_inv q"
  shows "let (q', r) = srsran_sequence_LTE_pr mem q len seed
         in seq_inv q' \<and> (r = SRSRAN_SUCCESS \<and> holds_gold q' seed \<and> sc_cur_len q' = len \<or> r = SRSRAN_ERROR \<and> \<not> (\<forall>k < 5. mem k))"
proof -
  obtain q' r where run: "srsran_sequence_LTE_pr mem q len seed = (q', r)" by fastforce
  show ?thesis using LTE_pr_holds_gold [OF assms run] unfolding run by auto
qed

theorem sequence_LTE_pr_correct_witness:
  "let (q', r) = srsran_sequence_LTE_pr (\<lambda>k. k \<noteq> 3) (srsran_sequence_free undefined) 20 7
   in seq_inv q' \<and> (r = SRSRAN_SUCCESS \<and> holds_gold q' 7 \<and> sc_cur_len q' = 20 \<or> r = SRSRAN_ERROR)"
proof -
  have "seq_inv (srsran_sequence_free undefined)"
    by (simp add: seq_inv_def srsran_sequence_free_def ceil_div_def)
  from sequence_LTE_pr_correct [OF this, of "\<lambda>k. k \<noteq> 3" 20 7] show ?thesis by auto
qed

text \<open>
  scrambling packed bytes with a generated sequence exclusive-ors bit \<open>p\<close> with element \<open>p\<close> of the
  Gold sequence, also in a last partial byte, whose spare bits it clears; bytes past the last are
  untouched, and scrambling again with a sequence of the same seed restores the bits.
\<close>

theorem scrambling_bytes_correct:
  assumes "holds_gold s seed" "holds_gold s' seed" "len \<le> sc_cur_len s" "len \<le> sc_cur_len s'"
    "ceil_div len 8 \<le> length data" "p < 8 * length data"
  shows "packed_bit (srsran_scrambling_bytes s data len) p =
      (if p < len then packed_bit data p \<noteq> gold seed p else 8 * ceil_div len 8 \<le> p \<and> packed_bit data p) \<and>
    packed_bit (srsran_scrambling_bytes s' (srsran_scrambling_bytes s data len) len) p =
      ((p < len \<or> 8 * ceil_div len 8 \<le> p) \<and> packed_bit data p)"
  using assms scrambling_bytes_bits [OF assms(1,3,5)]
    scrambling_bytes_bits [OF assms(2,4), of "srsran_scrambling_bytes s data len"]
  by auto

theorem scrambling_bytes_correct_witness:
  "let s = fst (srsran_sequence_LTE_pr (\<lambda>k. True) (srsran_sequence_free undefined) 12 7)
   in packed_bit (srsran_scrambling_bytes s (srsran_scrambling_bytes s [0xFF, 0xFF] 12) 12) 11"
proof -
  let ?q = "srsran_sequence_free undefined"
  obtain s r where run: "srsran_sequence_LTE_pr (\<lambda>k. True) ?q 12 7 = (s, r)" by fastforce
  have inv: "seq_inv ?q" by (simp add: seq_inv_def srsran_sequence_free_def ceil_div_def)
  have s: "holds_gold s 7" "sc_cur_len s = 12" using LTE_pr_holds_gold [OF inv run] by auto
  have "packed_bit [0xFF, 0xFF] 11" by (simp add: packed_bit_def)
  then show ?thesis
    using scrambling_bytes_correct [OF s(1) s(1), of 12 "[0xFF, 0xFF]" 11] s(2) by (simp add: run ceil_div_def)
qed

lemma unat_push_bit_word: "unat (w :: 'a::len word) * 2 ^ n < 2 ^ LENGTH('a) \<Longrightarrow> unat (push_bit n w) = unat w * 2 ^ n"
  unfolding unsigned_push_bit_eq by (simp add: take_bit_eq_mod push_bit_eq_mult)

lemma unat_add_word: "unat (v :: 'a::len word) + unat w < 2 ^ LENGTH('a) \<Longrightarrow> unat (v + w) = unat v + unat w"
  by (simp add: unat_word_ariths)

lemma unat_div2: "unat ((w :: u32) div 2) = unat w div 2"
  by (simp add: unat_div)

lemma euclid_unique:
  fixes k :: nat
  assumes "r < k" "r' < k"
  shows "x * k + r = y * k + r' \<longleftrightarrow> x = y \<and> r = r'"
proof
  assume eq: "x * k + r = y * k + r'"
  have "(x * k + r) div k = x" "(y * k + r') div k = y" using assms by simp_all
  then show "x = y \<and> r = r'" using eq by auto
qed simp

lemma unat_pdsch_seed:
  assumes "unat q < 2" "unat nslot < 20" "unat cell < 504"
  shows "unat (sequence_pdsch_seed rnti q nslot cell) =
    unat rnti * 16384 + (unat q * 8192 + (unat nslot div 2 * 512 + unat cell))"
proof -
  have r: "unat rnti < 65536" using unsigned_less [of rnti, where ?'a = nat] by simp
  have n: "unat nslot div 2 < 10" using assms(2) by (simp add: div_less_iff_less_mult)
  have 1: "unat (push_bit 14 (ucast rnti :: u32)) = unat rnti * 16384"
    using r by (subst unat_push_bit_word) (simp_all add: unsigned_ucast_eq take_bit_eq_mod)
  have 2: "unat (push_bit 13 q) = unat q * 8192" using assms(1) by (subst unat_push_bit_word) simp_all
  have 3: "unat (push_bit 9 (nslot div 2)) = unat nslot div 2 * 512"
    using n by (subst unat_push_bit_word) (simp_all add: unat_div2)
  have 4: "unat (push_bit 14 (ucast rnti) + push_bit 13 q) = unat rnti * 16384 + unat q * 8192"
    using r assms(1) by (subst unat_add_word) (simp_all only: 1 2, simp_all)
  have 5: "unat (push_bit 14 (ucast rnti) + push_bit 13 q + push_bit 9 (nslot div 2)) =
      unat rnti * 16384 + unat q * 8192 + unat nslot div 2 * 512"
    using r assms(1) n by (subst unat_add_word) (simp_all only: 3 4, simp_all)
  show ?thesis
    unfolding sequence_pdsch_seed_def using r assms n by (subst unat_add_word) (simp_all only: 5, simp_all)
qed

lemma pusch_seed_pdsch: "sequence_pusch_seed rnti nslot cell = sequence_pdsch_seed rnti 0 nslot cell"
  by (simp add: sequence_pusch_seed_def sequence_pdsch_seed_def)

lemma pdsch_seed_inj:
  assumes "unat q < 2" "unat nslot < 20" "unat cell < 504" "unat q' < 2" "unat nslot' < 20" "unat cell' < 504"
  shows "sequence_pdsch_seed rnti q nslot cell = sequence_pdsch_seed rnti' q' nslot' cell' \<longleftrightarrow>
    rnti = rnti' \<and> q = q' \<and> nslot div 2 = nslot' div 2 \<and> cell = cell'"
proof -
  have n: "unat nslot div 2 < 10" "unat nslot' div 2 < 10" using assms by (simp_all add: div_less_iff_less_mult)
  have "sequence_pdsch_seed rnti q nslot cell = sequence_pdsch_seed rnti' q' nslot' cell' \<longleftrightarrow>
      unat (sequence_pdsch_seed rnti q nslot cell) = unat (sequence_pdsch_seed rnti' q' nslot' cell')"
    by (simp add: word_unat_eq_iff)
  also have "\<dots> \<longleftrightarrow> unat rnti = unat rnti' \<and> unat q * 8192 + (unat nslot div 2 * 512 + unat cell) =
      unat q' * 8192 + (unat nslot' div 2 * 512 + unat cell')"
    using assms n unfolding unat_pdsch_seed [OF assms(1-3)] unat_pdsch_seed [OF assms(4-6)]
    by (intro euclid_unique) linarith+
  also have "unat q * 8192 + (unat nslot div 2 * 512 + unat cell) =
      unat q' * 8192 + (unat nslot' div 2 * 512 + unat cell') \<longleftrightarrow>
      unat q = unat q' \<and> unat nslot div 2 * 512 + unat cell = unat nslot' div 2 * 512 + unat cell'"
    using assms n by (intro euclid_unique) linarith+
  also have "unat nslot div 2 * 512 + unat cell = unat nslot' div 2 * 512 + unat cell' \<longleftrightarrow>
      unat nslot div 2 = unat nslot' div 2 \<and> unat cell = unat cell'"
    using assms n by (intro euclid_unique) linarith+
  finally show ?thesis by (simp add: word_unat_eq_iff unat_div2)
qed

text \<open>
  The seeds of PUCCH format 2 are not injective: the product of the subframe and cell terms is 9 for the first
  subframe of cell 4 and for the third of cell 1.
\<close>

lemma pucch_seed_collision: "pucch_seed rnti 0 4 = pucch_seed rnti 4 1"
  by (simp add: pucch_seed_def)

text \<open>
  C22: On the downlink shared channel different users, codewords, subframes and cells have different scrambling
  seeds, and on the uplink shared channel different users, subframes and cells have; an uplink seed is that of the
  first downlink codeword of the same user, subframe and cell; and every seed fits the 31 bits of the
  register. Other channels are not meant: PUCCH seeds collide (\<open>pucch_seed_collision\<close>).
\<close>

theorem channel_seeds_injective:
  assumes "unat q < 2" "unat nslot < 20" "unat cell < 504" "unat q' < 2" "unat nslot' < 20" "unat cell' < 504"
  shows "(sequence_pdsch_seed rnti q nslot cell = sequence_pdsch_seed rnti' q' nslot' cell' \<longleftrightarrow>
      rnti = rnti' \<and> q = q' \<and> nslot div 2 = nslot' div 2 \<and> cell = cell') \<and>
    (sequence_pusch_seed rnti nslot cell = sequence_pusch_seed rnti' nslot' cell' \<longleftrightarrow>
      rnti = rnti' \<and> nslot div 2 = nslot' div 2 \<and> cell = cell') \<and>
    sequence_pusch_seed rnti nslot cell = sequence_pdsch_seed rnti 0 nslot cell \<and>
    unat (sequence_pdsch_seed rnti q nslot cell) < 2 ^ 31"
proof (intro conjI)
  show "unat (sequence_pdsch_seed rnti q nslot cell) < 2 ^ 31"
    using assms(1-3) unsigned_less [of rnti, where ?'a = nat] unat_pdsch_seed [OF assms(1-3), of rnti] by simp
qed (use assms in \<open>simp_all add: pusch_seed_pdsch pdsch_seed_inj\<close>)

theorem channel_seeds_injective_witness:
  "sequence_pdsch_seed 0x3D 1 6 77 \<noteq> sequence_pdsch_seed 0x3D 0 6 77 \<and>
   sequence_pusch_seed 0x3D 6 77 = sequence_pusch_seed 0x3D 7 77"
  using channel_seeds_injective [of 1 6 77 0 6 77 "0x3D" "0x3D"] channel_seeds_injective [of 0 6 77 0 7 77 "0x3D" "0x3D"]
  by simp

end
