(* ===== verification/Cbsegm.thy ===== *)
theory Cbsegm
  imports Phy_Prelude
begin

text \<open>
  Code block segmentation, \<open>lib/src/phy/fec/cbsegm.c\<close>: the split of a transport block into code
  blocks for the turbo code of LTE, with the table of interleaver sizes, and for the LDPC code of
  NR, with the table of lifting sizes of \<open>lib/src/phy/fec/ldpc/base_graph.c\<close>. All quantities are
  \<open>uint32_t\<close>; sums, products and differences are taken modulo \<open>2 ^ 32\<close>.
\<close>

section \<open>The tables\<close>

abbreviation SRSRAN_NOF_TC_CB_SIZES :: nat where "SRSRAN_NOF_TC_CB_SIZES \<equiv> 188"
abbreviation SRSRAN_TCOD_MAX_LEN_CB :: nat where "SRSRAN_TCOD_MAX_LEN_CB \<equiv> 6144"
abbreviation MAX_LIFTSIZE :: nat where "MAX_LIFTSIZE \<equiv> 384"
abbreviation VOID_LIFTSIZE :: nat where "VOID_LIFTSIZE \<equiv> 255"

definition tc_cb_sizes :: "nat list" where
  "tc_cb_sizes = [
    40, 48, 56, 64, 72, 80, 88, 96, 104, 112, 120, 128, 136, 144, 152, 160, 168, 176, 184,
    192, 200, 208, 216, 224, 232, 240, 248, 256, 264, 272, 280, 288, 296, 304, 312, 320, 328, 336,
    344, 352, 360, 368, 376, 384, 392, 400, 408, 416, 424, 432, 440, 448, 456, 464, 472, 480, 488,
    496, 504, 512, 528, 544, 560, 576, 592, 608, 624, 640, 656, 672, 688, 704, 720, 736, 752, 768,
    784, 800, 816, 832, 848, 864, 880, 896, 912, 928, 944, 960, 976, 992, 1008, 1024, 1056, 1088, 1120,
    1152, 1184, 1216, 1248, 1280, 1312, 1344, 1376, 1408, 1440, 1472, 1504, 1536, 1568, 1600, 1632, 1664, 1696, 1728,
    1760, 1792, 1824, 1856, 1888, 1920, 1952, 1984, 2016, 2048, 2112, 2176, 2240, 2304, 2368, 2432, 2496, 2560, 2624,
    2688, 2752, 2816, 2880, 2944, 3008, 3072, 3136, 3200, 3264, 3328, 3392, 3456, 3520, 3584, 3648, 3712, 3776, 3840,
    3904, 3968, 4032, 4096, 4160, 4224, 4288, 4352, 4416, 4480, 4544, 4608, 4672, 4736, 4800, 4864, 4928, 4992, 5056,
    5120, 5184, 5248, 5312, 5376, 5440, 5504, 5568, 5632, 5696, 5760, 5824, 5888, 5952, 6016, 6080, 6144]"

definition LSindex :: "nat list" where
  "LSindex = [
    255, 255, 0, 1, 0, 2, 1, 3, 0, 4, 2, 5, 1, 6, 3, 7, 0, 255, 4, 255,
    2, 255, 5, 255, 1, 255, 6, 255, 3, 255, 7, 255, 0, 255, 255, 255, 4, 255, 255, 255,
    2, 255, 255, 255, 5, 255, 255, 255, 1, 255, 255, 255, 6, 255, 255, 255, 3, 255, 255, 255,
    7, 255, 255, 255, 0, 255, 255, 255, 255, 255, 255, 255, 4, 255, 255, 255, 255, 255, 255, 255,
    2, 255, 255, 255, 255, 255, 255, 255, 5, 255, 255, 255, 255, 255, 255, 255, 1, 255, 255, 255,
    255, 255, 255, 255, 6, 255, 255, 255, 255, 255, 255, 255, 3, 255, 255, 255, 255, 255, 255, 255,
    7, 255, 255, 255, 255, 255, 255, 255, 0, 255, 255, 255, 255, 255, 255, 255, 255, 255, 255, 255,
    255, 255, 255, 255, 4, 255, 255, 255, 255, 255, 255, 255, 255, 255, 255, 255, 255, 255, 255, 255,
    2, 255, 255, 255, 255, 255, 255, 255, 255, 255, 255, 255, 255, 255, 255, 255, 5, 255, 255, 255,
    255, 255, 255, 255, 255, 255, 255, 255, 255, 255, 255, 255, 1, 255, 255, 255, 255, 255, 255, 255,
    255, 255, 255, 255, 255, 255, 255, 255, 6, 255, 255, 255, 255, 255, 255, 255, 255, 255, 255, 255,
    255, 255, 255, 255, 3, 255, 255, 255, 255, 255, 255, 255, 255, 255, 255, 255, 255, 255, 255, 255,
    7, 255, 255, 255, 255, 255, 255, 255, 255, 255, 255, 255, 255, 255, 255, 255, 0, 255, 255, 255,
    255, 255, 255, 255, 255, 255, 255, 255, 255, 255, 255, 255, 255, 255, 255, 255, 255, 255, 255, 255,
    255, 255, 255, 255, 255, 255, 255, 255, 4, 255, 255, 255, 255, 255, 255, 255, 255, 255, 255, 255,
    255, 255, 255, 255, 255, 255, 255, 255, 255, 255, 255, 255, 255, 255, 255, 255, 255, 255, 255, 255,
    2, 255, 255, 255, 255, 255, 255, 255, 255, 255, 255, 255, 255, 255, 255, 255, 255, 255, 255, 255,
    255, 255, 255, 255, 255, 255, 255, 255, 255, 255, 255, 255, 5, 255, 255, 255, 255, 255, 255, 255,
    255, 255, 255, 255, 255, 255, 255, 255, 255, 255, 255, 255, 255, 255, 255, 255, 255, 255, 255, 255,
    255, 255, 255, 255, 1]"

definition get_ls_index :: "nat \<Rightarrow> nat" where
  "get_ls_index ls = (if ls \<le> MAX_LIFTSIZE then LSindex ! ls else VOID_LIFTSIZE)"

section \<open>Turbo code\<close>

record srsran_cbsegm_t =
  cb_F :: nat
  cb_C :: nat
  cb_K1 :: nat
  cb_K2 :: nat
  cb_K1_idx :: nat
  cb_K2_idx :: nat
  cb_C1 :: nat
  cb_C2 :: nat
  cb_tbs :: nat
  cb_L_tb :: nat
  cb_L_cb :: nat
  cb_Z :: nat

definition cbsegm_zero :: srsran_cbsegm_t where
  "cbsegm_zero = \<lparr>cb_F = 0, cb_C = 0, cb_K1 = 0, cb_K2 = 0, cb_K1_idx = 0, cb_K2_idx = 0, cb_C1 = 0,
     cb_C2 = 0, cb_tbs = 0, cb_L_tb = 0, cb_L_cb = 0, cb_Z = 0\<rparr>"

definition cbsegm_cb_size :: "nat \<Rightarrow> nat \<Rightarrow> nat \<times> nat" where
  "cbsegm_cb_size B Z =
     (if B \<le> Z then (1, B)
      else let C = add32 B (sub32 (sub32 Z 24) 1) div sub32 Z 24 in (C, add32 B (mul32 24 C)))"

function cbindex_loop :: "nat \<Rightarrow> nat \<Rightarrow> nat" where
  "cbindex_loop long_cb j =
     (if j < SRSRAN_NOF_TC_CB_SIZES \<and> tc_cb_sizes ! j < long_cb then cbindex_loop long_cb (j + 1) else j)"
  by pat_completeness auto
termination by (relation "measure (\<lambda>(long_cb, j). SRSRAN_NOF_TC_CB_SIZES - j)") auto

declare cbindex_loop.simps [simp del]

text \<open>\<open>None\<close> is \<open>SRSRAN_ERROR\<close>.\<close>

definition srsran_cbsegm_cbindex :: "nat \<Rightarrow> nat option" where
  "srsran_cbsegm_cbindex long_cb =
     (let j = cbindex_loop long_cb 0 in if j = SRSRAN_NOF_TC_CB_SIZES then None else Some j)"

definition srsran_cbsegm_cbsize :: "nat \<Rightarrow> nat option" where
  "srsran_cbsegm_cbsize index = (if index < SRSRAN_NOF_TC_CB_SIZES then Some (tc_cb_sizes ! index) else None)"

definition srsran_cbsegm_cbsize_isvalid :: "nat \<Rightarrow> bool" where
  "srsran_cbsegm_cbsize_isvalid sz = list_ex (\<lambda>i. tc_cb_sizes ! i = sz) [0..<SRSRAN_NOF_TC_CB_SIZES]"

definition srsran_cbsegm :: "srsran_cbsegm_t \<Rightarrow> nat \<Rightarrow> srsran_cbsegm_t \<times> bool" where
  "srsran_cbsegm s tbs =
     (if tbs = 0 then (cbsegm_zero, True)
      else let B = add32 tbs 24;
               (C, Bp) = cbsegm_cb_size B SRSRAN_TCOD_MAX_LEN_CB;
               s1 = s\<lparr>cb_tbs := tbs, cb_C := C\<rparr>
           in case srsran_cbsegm_cbindex (add32 (sub32 Bp 1 div C) 1) of
                None \<Rightarrow> (s1, False)
              | Some idx1 \<Rightarrow>
                 (case srsran_cbsegm_cbsize idx1 of
                    None \<Rightarrow> (s1, False)
                  | Some K1 \<Rightarrow>
                      let s2 = s1\<lparr>cb_K1 := K1, cb_K1_idx := idx1\<rparr>
                      in case (if 0 < idx1 then srsran_cbsegm_cbsize (idx1 - 1) else Some K1) of
                           None \<Rightarrow> (s2, False)
                         | Some ret \<Rightarrow>
                             let s3 = (if C = 1
                                       then s2\<lparr>cb_K2 := 0, cb_K2_idx := 0, cb_C2 := 0, cb_C1 := 1\<rparr>
                                       else let C2 = sub32 (mul32 C K1) Bp div sub32 K1 ret
                                            in s2\<lparr>cb_K2 := ret, cb_K2_idx := sub32 idx1 1, cb_C2 := C2,
                                                  cb_C1 := sub32 C C2\<rparr>)
                             in (s3\<lparr>cb_L_tb := 24, cb_L_cb := 24,
                                    cb_F := sub32 (add32 (mul32 (cb_C1 s3) (cb_K1 s3)) (mul32 (cb_C2 s3) (cb_K2 s3))) Bp\<rparr>,
                                 True)))"

section \<open>LDPC code\<close>

datatype srsran_basegraph_t = BG1 | BG2

function select_ls_loop :: "nat \<Rightarrow> (nat \<times> nat) option" where
  "select_ls_loop Z =
     (if Z \<le> MAX_LIFTSIZE
      then let i = get_ls_index Z in if i \<noteq> VOID_LIFTSIZE then Some (Z, i) else select_ls_loop (Z + 1)
      else None)"
  by pat_completeness auto
termination by (relation "measure (\<lambda>Z. Suc MAX_LIFTSIZE - Z)") auto

declare select_ls_loop.simps [simp del]

definition cbsegm_ldpc_select_ls :: "nat \<Rightarrow> nat \<Rightarrow> (nat \<times> nat) option" where
  "cbsegm_ldpc_select_ls Kp K_b =
     (if ceil_div Kp K_b > MAX_LIFTSIZE then None else select_ls_loop (ceil_div Kp K_b))"

definition srsran_cbsegm_ldpc_L :: "nat \<Rightarrow> nat" where
  "srsran_cbsegm_ldpc_L tbs = (if tbs \<le> 3824 then 16 else 24)"

definition srsran_cbsegm_ldpc :: "srsran_cbsegm_t \<Rightarrow> srsran_basegraph_t \<Rightarrow> nat \<Rightarrow> srsran_cbsegm_t \<times> bool" where
  "srsran_cbsegm_ldpc s bg tbs =
     (if tbs = 0 then (cbsegm_zero, True)
      else let L = srsran_cbsegm_ldpc_L tbs;
               K_cb = (if bg = BG1 then 8448 else 3840);
               B = add32 tbs L;
               (C, Bp) = cbsegm_cb_size B K_cb;
               Kp = Bp div C;
               K_b = (if bg = BG2 then if B > 640 then 10 else if B > 560 then 9 else if B > 192 then 8 else 6 else 22)
           in case cbsegm_ldpc_select_ls Kp K_b of
                None \<Rightarrow> (s, False)
              | Some (Z_c, i_ls) \<Rightarrow>
                  let K = mul32 Z_c (if bg = BG1 then 22 else 10)
                  in (s\<lparr>cb_tbs := tbs, cb_L_tb := L, cb_L_cb := (if C > 1 then 24 else 0), cb_C := C,
                        cb_F := mul32 K C, cb_C1 := C, cb_K1 := K, cb_K1_idx := i_ls, cb_Z := Z_c,
                        cb_C2 := 0, cb_K2 := 0, cb_K2_idx := 0\<rparr>, True))"

definition srsran_cbsegm_ldpc_bg1 :: "srsran_cbsegm_t \<Rightarrow> nat \<Rightarrow> srsran_cbsegm_t \<times> bool" where
  "srsran_cbsegm_ldpc_bg1 s tbs = srsran_cbsegm_ldpc s BG1 tbs"

definition srsran_cbsegm_ldpc_bg2 :: "srsran_cbsegm_t \<Rightarrow> nat \<Rightarrow> srsran_cbsegm_t \<times> bool" where
  "srsran_cbsegm_ldpc_bg2 s tbs = srsran_cbsegm_ldpc s BG2 tbs"

section \<open>The table of interleaver sizes\<close>

lemma length_tc_cb_sizes [simp]: "length tc_cb_sizes = 188"
  by (simp add: tc_cb_sizes_def)

definition gaps_ok :: "nat list \<Rightarrow> bool" where
  "gaps_ok xs = list_all (\<lambda>(a, b). a < b \<and> b \<le> a + 64) (zip xs (tl xs))"

lemma tc_cb_sizes_gaps: "gaps_ok tc_cb_sizes"
  by (simp add: gaps_ok_def tc_cb_sizes_def)

lemma tc_cb_sizes_step: "j < 187 \<Longrightarrow> tc_cb_sizes ! j < tc_cb_sizes ! Suc j \<and> tc_cb_sizes ! Suc j \<le> tc_cb_sizes ! j + 64"
  using tc_cb_sizes_gaps by (auto simp: gaps_ok_def list_all_length nth_tl)

lemma tc_cb_sizes_ends: "tc_cb_sizes ! 0 = 40" "tc_cb_sizes ! 187 = 6144"
  by (simp_all add: tc_cb_sizes_def)

lemma tc_cb_sizes_mono: "i \<le> j \<Longrightarrow> j < 188 \<Longrightarrow> tc_cb_sizes ! i \<le> tc_cb_sizes ! j"
proof (induction "j - i" arbitrary: j)
  case (Suc d)
  then obtain k where k: "j = Suc k" "i \<le> k" by (cases j) auto
  then have "tc_cb_sizes ! i \<le> tc_cb_sizes ! k" using Suc by simp
  then show ?case using tc_cb_sizes_step [of k] k Suc.prems by simp
qed simp

text \<open>The loop finds the first table size that is large enough.\<close>

lemma cbindex_loop_spec:
  assumes "j \<le> 188"
  shows "cbindex_loop k j \<le> 188 \<and> j \<le> cbindex_loop k j \<and> (\<forall>i. j \<le> i \<and> i < cbindex_loop k j \<longrightarrow> tc_cb_sizes ! i < k) \<and>
    (cbindex_loop k j < 188 \<longrightarrow> k \<le> tc_cb_sizes ! cbindex_loop k j)"
  using assms
proof (induction "188 - j" arbitrary: j rule: less_induct)
  case less
  show ?case
  proof (cases "j < 188 \<and> tc_cb_sizes ! j < k")
    case True
    then have "cbindex_loop k j = cbindex_loop k (j + 1)" by (simp add: cbindex_loop.simps [of k j])
    moreover have "cbindex_loop k (j + 1) \<le> 188 \<and> j + 1 \<le> cbindex_loop k (j + 1) \<and>
        (\<forall>i. j + 1 \<le> i \<and> i < cbindex_loop k (j + 1) \<longrightarrow> tc_cb_sizes ! i < k) \<and>
        (cbindex_loop k (j + 1) < 188 \<longrightarrow> k \<le> tc_cb_sizes ! cbindex_loop k (j + 1))"
      using True by (intro less.hyps) auto
    moreover have "j \<le> i \<Longrightarrow> i = j \<or> j + 1 \<le> i" for i by linarith
    ultimately show ?thesis using True by auto
  next
    case False
    then have "cbindex_loop k j = j" using cbindex_loop.simps [of k j] by auto
    then show ?thesis using False less.prems by auto
  qed
qed

lemma cbindex_spec:
  assumes "k \<le> 6144"
  obtains j where "srsran_cbsegm_cbindex k = Some j" "j < 188" "k \<le> tc_cb_sizes ! j"
    "0 < j \<longrightarrow> tc_cb_sizes ! (j - 1) < k"
proof -
  let ?j = "cbindex_loop k 0"
  note spec = cbindex_loop_spec [of 0 k, simplified]
  have "?j \<noteq> 188"
  proof
    assume "?j = 188"
    then have "tc_cb_sizes ! 187 < k" using spec by simp
    then show False using assms by (simp add: tc_cb_sizes_ends)
  qed
  then show thesis using spec by (intro that [of ?j]) (auto simp: srsran_cbsegm_cbindex_def Let_def)
qed

section \<open>The segmentation for the turbo code\<close>

lemma per_block_le_iff: "0 < Bp \<Longrightarrow> 0 < C \<Longrightarrow> (Bp - 1) div C + 1 \<le> k \<longleftrightarrow> Bp \<le> C * (k :: nat)"
proof -
  assume "0 < Bp" "0 < C"
  then have "(Bp - 1) div C + 1 \<le> k \<longleftrightarrow> (Bp - 1) div C < k" by auto
  also have "\<dots> \<longleftrightarrow> Bp - 1 < k * C" using \<open>0 < C\<close> by (rule div_less_iff_less_mult)
  finally show ?thesis using \<open>0 < Bp\<close> by (auto simp: mult.commute)
qed

text \<open>The number of code blocks and the total size with all checksums.\<close>

lemma cb_size_spec:
  assumes "24 < B" "B < 2 ^ 30 + 24" "1000 < Z" "Z < 2 ^ 20"
  shows "cbsegm_cb_size B Z = (let C = (if B \<le> Z then 1 else ceil_div B (Z - 24)) in (C, if B \<le> Z then B else B + 24 * C))"
    and "B \<le> Z \<or> (let C = ceil_div B (Z - 24) in 2 \<le> C \<and> C \<le> B \<and> B \<le> C * (Z - 24) \<and> (C - 1) * (Z - 24) < B)"
proof -
  have z: "sub32 Z 24 = Z - 24" "sub32 (Z - 24) 1 = Z - 24 - 1" using assms(3,4) by (simp_all add: sub32_le)
  let ?C = "ceil_div B (Z - 24)"
  have le: "?C \<le> B"
    using assms(3) by (subst ceil_div_le_iff) auto
  have ge: "B \<le> ?C * (Z - 24)" using assms(3) by (intro ceil_div_mult_ge) simp
  have lt: "(?C - 1) * (Z - 24) < B"
  proof (rule ccontr)
    assume "\<not> (?C - 1) * (Z - 24) < B"
    then have "?C \<le> ?C - 1" using assms(3) by (subst ceil_div_le_iff) auto
    then have "?C = 0" by simp
    then show False using ge assms(1) by simp
  qed
  have c: "add32 B (sub32 (sub32 Z 24) 1) div sub32 Z 24 = ?C"
    using assms unfolding z by (simp add: add32_small ceil_div_def)
  have "B \<le> Z \<or> 2 \<le> ?C"
  proof (rule ccontr)
    assume n: "\<not> (B \<le> Z \<or> 2 \<le> ?C)"
    then have "?C \<le> 1" by simp
    then have "?C * (Z - 24) \<le> Z - 24" using mult_le_mono1 [of ?C 1 "Z - 24"] by simp
    then show False using n ge by linarith
  qed
  then show "B \<le> Z \<or> (let C = ?C in 2 \<le> C \<and> C \<le> B \<and> B \<le> C * (Z - 24) \<and> (C - 1) * (Z - 24) < B)"
    using le ge lt by (auto simp: Let_def)
  show "cbsegm_cb_size B Z = (let C = (if B \<le> Z then 1 else ?C) in (C, if B \<le> Z then B else B + 24 * C))"
  proof (cases "B \<le> Z")
    case False
    have "(?C - 1) * 24 \<le> (?C - 1) * (Z - 24)" using assms(3) by (intro mult_left_mono) auto
    then have "(?C - 1) * 24 < B" using lt by (rule le_less_trans)
    then have "24 * ?C < B + 24" by simp
    then show ?thesis using False assms c by (simp add: cbsegm_cb_size_def Let_def mul32_small add32_small)
  qed (simp add: cbsegm_cb_size_def)
qed

text \<open>
  The arithmetic of the split: \<open>C\<close> blocks of two adjacent table sizes, at least one of the larger,
  that hold \<open>Bp\<close> bits with less padding than the difference of the sizes.
\<close>

lemma two_sizes:
  fixes Bp C K1 K2 :: nat
  assumes "K2 < K1" "Bp \<le> C * K1" "C * K2 < Bp"
  defines "C2 \<equiv> (C * K1 - Bp) div (K1 - K2)"
  shows "C2 < C" "Bp \<le> (C - C2) * K1 + C2 * K2" "(C - C2) * K1 + C2 * K2 - Bp < K1 - K2"
    "(C - C2) * K1 + C2 * K2 \<le> C * K1"
proof -
  let ?D = "K1 - K2" and ?E = "C * K1 - Bp"
  have D: "0 < ?D" using assms(1) by simp
  have CD: "C * ?D = C * K1 - C * K2" by (simp add: diff_mult_distrib2)
  have "?E < C * ?D" using assms(2,3) CD by linarith
  then show lt: "C2 < C" unfolding C2_def using D by (simp add: div_less_iff_less_mult mult.commute)
  have E: "?E = C2 * ?D + ?E mod ?D" unfolding C2_def by (rule div_mult_mod_eq [symmetric])
  have C2: "C2 * ?D = C2 * K1 - C2 * K2" "C2 * K2 \<le> C2 * K1" using assms(1) by (simp_all add: diff_mult_distrib2)
  have C: "(C - C2) * K1 = C * K1 - C2 * K1" "C2 * K1 \<le> C * K1" using lt by (simp_all add: diff_mult_distrib)
  have sum: "(C - C2) * K1 + C2 * K2 = Bp + ?E mod ?D" using E C2 C assms(2) by linarith
  show "Bp \<le> (C - C2) * K1 + C2 * K2" using sum by simp
  show "(C - C2) * K1 + C2 * K2 - Bp < ?D" using sum D by simp
  show "(C - C2) * K1 + C2 * K2 \<le> C * K1" using C2 C by linarith
qed

lemma cbsegm_blocks:
  assumes "0 < tbs" "tbs < 2 ^ 30"
  obtains C Bp j where
    "cbsegm_cb_size (tbs + 24) 6144 = (C, Bp)" "C = (if tbs + 24 \<le> 6144 then 1 else ceil_div (tbs + 24) 6120)"
    "Bp = tbs + 24 + (if C = 1 then 0 else 24 * C)" "0 < C" "C \<le> 2 ^ 18"
    "srsran_cbsegm_cbindex ((Bp - 1) div C + 1) = Some j" "j < 188" "Bp \<le> C * tc_cb_sizes ! j"
    "0 < j \<Longrightarrow> C * tc_cb_sizes ! (j - 1) < Bp" "C \<noteq> 1 \<Longrightarrow> 0 < j" "Bp < 2 ^ 31"
proof -
  let ?B = "tbs + 24"
  define C where "C = (if ?B \<le> 6144 then 1 else ceil_div ?B 6120)"
  define Bp where "Bp = ?B + (if C = 1 then 0 else 24 * C)"
  note spec = cb_size_spec [of ?B 6144, simplified]
  have c: "?B \<le> 6144 \<and> C = 1 \<or> \<not> ?B \<le> 6144 \<and> 2 \<le> C \<and> ?B \<le> C * 6120 \<and> (C - 1) * 6120 < ?B"
    using spec(2) assms by (auto simp: C_def Let_def)
  have size: "cbsegm_cb_size ?B 6144 = (C, Bp)"
  proof (cases "?B \<le> 6144")
    case False
    then have "2 \<le> C" using c by blast
    moreover have "ceil_div ?B 6120 = C" using False by (simp add: C_def)
    ultimately show ?thesis using spec(1) assms False by (simp add: Bp_def Let_def)
  qed (use spec(1) assms in \<open>simp add: Bp_def C_def Let_def\<close>)
  have pos: "0 < C" using c by auto
  have C18: "C \<le> 2 ^ 18" using c assms(2) by auto
  have fit: "Bp \<le> C * 6144" using c by (auto simp: Bp_def)
  have "0 < Bp" by (simp add: Bp_def)
  have "(Bp - 1) div C + 1 \<le> 6144" using fit pos \<open>0 < Bp\<close> by (subst per_block_le_iff)
  then obtain j where j: "srsran_cbsegm_cbindex ((Bp - 1) div C + 1) = Some j" "j < 188"
    "(Bp - 1) div C + 1 \<le> tc_cb_sizes ! j" "0 < j \<longrightarrow> tc_cb_sizes ! (j - 1) < (Bp - 1) div C + 1"
    by (rule cbindex_spec)
  have "Bp \<le> C * tc_cb_sizes ! j" using j(3) per_block_le_iff [OF \<open>0 < Bp\<close> pos] by blast
  moreover have "C * tc_cb_sizes ! (j - 1) < Bp" if "0 < j"
    using j(4) that per_block_le_iff [OF \<open>0 < Bp\<close> pos, of "tc_cb_sizes ! (j - 1)"] by linarith
  moreover have "0 < j" if "C \<noteq> 1"
  proof (rule ccontr)
    assume "\<not> 0 < j"
    then have "Bp \<le> C * 40" using \<open>Bp \<le> C * tc_cb_sizes ! j\<close> tc_cb_sizes_ends by simp
    moreover have "2 \<le> C" "(C - 1) * 6120 < ?B" using c that by auto
    ultimately show False by (simp add: Bp_def diff_mult_distrib split: if_splits)
  qed
  moreover have "Bp < 2 ^ 31"
    using c assms(2) by (auto simp: Bp_def)
  ultimately show thesis using size j pos C18 by (intro that [of C Bp j]) (simp_all add: C_def Bp_def)
qed

lemma cbsegm_run:
  assumes "0 < tbs" "tbs < 2 ^ 30"
    and "cbsegm_cb_size (tbs + 24) 6144 = (C, Bp)" "srsran_cbsegm_cbindex ((Bp - 1) div C + 1) = Some j" "j < 188"
    and "0 < C" "C \<le> 2 ^ 18" "0 < Bp" "Bp < 2 ^ 31" "Bp \<le> C * tc_cb_sizes ! j" "C \<noteq> 1 \<Longrightarrow> 0 < j"
    "0 < j \<Longrightarrow> C * tc_cb_sizes ! (j - 1) < Bp"
  defines "K1 \<equiv> tc_cb_sizes ! j" and "K2 \<equiv> (if C = 1 then 0 else tc_cb_sizes ! (j - 1))"
  defines "C2 \<equiv> (if C = 1 then 0 else (C * K1 - Bp) div (K1 - K2))"
  shows "srsran_cbsegm s tbs =
    (s\<lparr>cb_tbs := tbs, cb_C := C, cb_K1 := K1, cb_K1_idx := j, cb_K2 := K2, cb_K2_idx := (if C = 1 then 0 else j - 1),
       cb_C2 := C2, cb_C1 := C - C2, cb_L_tb := 24, cb_L_cb := 24, cb_F := (C - C2) * K1 + C2 * K2 - Bp\<rparr>, True)"
proof -
  have B: "add32 tbs 24 = tbs + 24" using assms(2) by (simp add: add32_small)
  have k: "add32 (sub32 Bp 1 div C) 1 = (Bp - 1) div C + 1"
  proof -
    define q where "q = (Bp - 1) div C"
    have "q \<le> Bp - 1" unfolding q_def by (rule div_le_dividend)
    then have "q + 1 < 2 ^ 32" using assms(9) by simp
    then have "(Bp - 1) div C + 1 < 2 ^ 32" unfolding q_def .
    then show ?thesis using assms(8,9) by (simp add: sub32_le add32_small)
  qed
  have K1: "K1 \<le> 6144" unfolding K1_def using tc_cb_sizes_mono [of j 187] assms(5) by (simp add: tc_cb_sizes_ends)
  have "C * K1 \<le> 2 ^ 18 * 6144" using assms(7) K1 by (intro mult_le_mono)
  then have CK: "C * K1 < 2 ^ 32" by simp
  show ?thesis
  proof (cases "C = 1")
    case True
    have "Bp \<le> K1" using True assms(10) by (simp add: K1_def)
    obtain ret where ret: "(if 0 < j then srsran_cbsegm_cbsize (j - 1) else Some K1) = Some ret"
    proof
      have "j - 1 < 188" using assms(5) by simp
      then show "(if 0 < j then srsran_cbsegm_cbsize (j - 1) else Some K1) =
          Some (if 0 < j then tc_cb_sizes ! (j - 1) else K1)"
        by (simp add: srsran_cbsegm_cbsize_def)
    qed
    have size: "srsran_cbsegm_cbsize j = Some K1" using assms(5) by (simp add: srsran_cbsegm_cbsize_def K1_def)
    show ?thesis
      unfolding srsran_cbsegm_def B assms(3) Let_def prod.case k assms(4) option.case size ret
      using assms(1) True \<open>Bp \<le> K1\<close> K1
      by (simp add: K2_def C2_def mul32_small add32_small sub32_le)
  next
    case False
    then have j: "0 < j" using assms(11) by simp
    have K2: "K2 = tc_cb_sizes ! (j - 1)" using False by (simp add: K2_def)
    have lt: "K2 < K1" unfolding K1_def K2 using tc_cb_sizes_step [of "j - 1"] j assms(5) by simp
    have low: "C * K2 < Bp" using assms(12) j by (simp add: K2)
    have up: "Bp \<le> C * K1" using assms(10) by (simp add: K1_def)
    have c2: "C2 = (C * K1 - Bp) div (K1 - K2)" using False by (simp add: C2_def)
    note two = two_sizes [OF lt up low, folded c2]
    have "(C - C2) * K1 + C2 * K2 < 2 ^ 32" using two(4) CK by linarith
    then have sums: "(C - C2) * K1 < 2 ^ 32" "C2 * K2 < 2 ^ 32" "add32 ((C - C2) * K1) (C2 * K2) = (C - C2) * K1 + C2 * K2"
      by (simp_all add: add32_small)
    have subs: "sub32 (mul32 C K1) Bp = C * K1 - Bp" "sub32 K1 K2 = K1 - K2" "sub32 j 1 = j - 1" "sub32 C C2 = C - C2"
      "sub32 ((C - C2) * K1 + C2 * K2) Bp = (C - C2) * K1 + C2 * K2 - Bp"
      using CK up lt K1 j assms(5,7) two(1,2,4) by (simp_all add: sub32_le mul32_small)
    have prev: "srsran_cbsegm_cbsize (j - 1) = Some K2" "srsran_cbsegm_cbsize j = Some K1"
      using assms(5) j by (simp_all add: srsran_cbsegm_cbsize_def K2 K1_def)
    show ?thesis
      unfolding srsran_cbsegm_def B assms(3) Let_def prod.case k assms(4) option.case prev
      using assms(1) j False sums
      by (simp add: prev subs subs(3) [simplified] c2 [symmetric] mul32_small)
  qed
qed

text \<open>
  C8: for every transport block size below \<open>2 ^ 30\<close> the segmentation succeeds, with the number of
  blocks of TS 36.212: one if the block and its checksum fit 6144 bits, else the least number of
  blocks of at most 6120 payload bits. The blocks have at most two sizes, adjacent entries of the
  table, the larger the least size for which \<open>C\<close> blocks are enough; at least one block has the larger
  size; and the blocks hold the transport block and all checksums with \<open>F < 64\<close> filler bits, no
  32-bit computation wrapping.
\<close>

theorem cbsegm_correct:
  assumes "0 < tbs" "tbs < 2 ^ 30"
  shows "let (s', ok) = srsran_cbsegm s tbs;
             Bp = tbs + 24 + (if cb_C s' = 1 then 0 else 24 * cb_C s')
         in ok \<and> cb_tbs s' = tbs \<and> cb_C s' = (if tbs + 24 \<le> 6144 then 1 else ceil_div (tbs + 24) 6120) \<and>
            cb_C1 s' + cb_C2 s' = cb_C s' \<and> 0 < cb_C1 s' \<and>
            cb_C1 s' * cb_K1 s' + cb_C2 s' * cb_K2 s' = Bp + cb_F s' \<and> cb_F s' < 64 \<and>
            cb_K1_idx s' < 188 \<and> cb_K1 s' = tc_cb_sizes ! cb_K1_idx s' \<and>
            (\<forall>i < cb_K1_idx s'. cb_C s' * tc_cb_sizes ! i < Bp) \<and>
            (if cb_C s' = 1 then cb_K2 s' = 0
             else cb_K2_idx s' + 1 = cb_K1_idx s' \<and> cb_K2 s' = tc_cb_sizes ! cb_K2_idx s')"
proof (rule cbsegm_blocks [OF assms])
  fix C Bp j
  assume size: "cbsegm_cb_size (tbs + 24) 6144 = (C, Bp)"
    and C: "C = (if tbs + 24 \<le> 6144 then 1 else ceil_div (tbs + 24) 6120)"
    and Bp: "Bp = tbs + 24 + (if C = 1 then 0 else 24 * C)" and b: "0 < C" "C \<le> 2 ^ 18" "Bp < 2 ^ 31"
    and j: "srsran_cbsegm_cbindex ((Bp - 1) div C + 1) = Some j" "j < 188" "Bp \<le> C * tc_cb_sizes ! j"
      "0 < j \<Longrightarrow> C * tc_cb_sizes ! (j - 1) < Bp" "C \<noteq> 1 \<Longrightarrow> 0 < j"
  have "0 < Bp" by (simp add: Bp)
  define K1 where "K1 = tc_cb_sizes ! j"
  define K2 where "K2 = (if C = 1 then 0 else tc_cb_sizes ! (j - 1))"
  define C2 where "C2 = (if C = 1 then 0 else (C * K1 - Bp) div (K1 - K2))"
  note run = cbsegm_run [OF assms size j(1,2) b(1,2) \<open>0 < Bp\<close> b(3) j(3,5,4), of s,
      folded K1_def, folded K2_def, folded C2_def]
  have least: "\<forall>i < j. C * tc_cb_sizes ! i < Bp"
  proof (intro allI impI)
    fix i assume i: "i < j"
    then have "C * tc_cb_sizes ! i \<le> C * tc_cb_sizes ! (j - 1)"
      using tc_cb_sizes_mono [of i "j - 1"] j(2) by (intro mult_le_mono2) auto
    then show "C * tc_cb_sizes ! i < Bp" using j(4) i by linarith
  qed
  have blocks: "C2 < C \<and> Bp \<le> (C - C2) * K1 + C2 * K2 \<and> (C - C2) * K1 + C2 * K2 - Bp < 64"
  proof (cases "C = 1")
    case True
    have "K1 - Bp < 64"
    proof (cases "j = 0")
      case True
      then show ?thesis by (simp add: K1_def tc_cb_sizes_ends)
    next
      case False
      then have "tc_cb_sizes ! (j - 1) < Bp" using j(4) \<open>C = 1\<close> by simp
      moreover have "j - 1 < 187" using False j(2) by simp
      ultimately show ?thesis using tc_cb_sizes_step [of "j - 1"] False unfolding K1_def by fastforce
    qed
    then show ?thesis using True j(3) by (simp add: C2_def K1_def)
  next
    case False
    have "K2 < K1" "K1 - K2 \<le> 64" "C * K2 < Bp"
    proof -
      have "0 < j" "j - 1 < 187" using j(2,5) False by auto
      then have "tc_cb_sizes ! (j - 1) < tc_cb_sizes ! j" "tc_cb_sizes ! j \<le> tc_cb_sizes ! (j - 1) + 64"
        using tc_cb_sizes_step [of "j - 1"] by simp_all
      then show "K2 < K1" "K1 - K2 \<le> 64" "C * K2 < Bp"
        using j(4) \<open>0 < j\<close> False unfolding K1_def K2_def by auto
    qed
    moreover have "C2 = (C * K1 - Bp) div (K1 - K2)" using False by (simp add: C2_def)
    ultimately show ?thesis
      using two_sizes [of K2 K1 Bp C] j(3) by (auto simp: K1_def)
  qed
  have K2: "C \<noteq> 1 \<Longrightarrow> K2 = tc_cb_sizes ! (j - 1)" "C = 1 \<Longrightarrow> K2 = 0" by (simp_all add: K2_def)
  obtain s' where s': "srsran_cbsegm s tbs = (s', True)" "cb_tbs s' = tbs" "cb_C s' = C" "cb_K1 s' = K1"
    "cb_K1_idx s' = j" "cb_K2 s' = K2" "cb_K2_idx s' = (if C = 1 then 0 else j - 1)" "cb_C2 s' = C2"
    "cb_C1 s' = C - C2" "cb_F s' = (C - C2) * K1 + C2 * K2 - Bp"
    using run by simp
  show ?thesis
    unfolding s' Let_def prod.case Bp [symmetric] C [symmetric]
    using blocks least j(2,5) K2 by (auto simp: K1_def [symmetric])
qed

theorem cbsegm_correct_witness:
  "let (s', ok) = srsran_cbsegm cbsegm_zero 7000
   in ok \<and> cb_C s' = 2 \<and> cb_C1 s' * cb_K1 s' + cb_C2 s' * cb_K2 s' = 7072 + cb_F s' \<and> cb_F s' < 64"
proof -
  have C: "(if 7000 + 24 \<le> (6144::nat) then 1 else ceil_div (7000 + 24) 6120) = 2" by (simp add: ceil_div_def)
  show ?thesis
    using cbsegm_correct [of 7000 cbsegm_zero, unfolded C] by (auto simp: Let_def split: prod.splits)
qed

section \<open>The segmentation for the LDPC code\<close>

lemma length_LSindex: "length LSindex = 385"
  by (simp add: LSindex_def)

lemma max_liftsize_valid: "get_ls_index 384 \<noteq> 255"
  by (simp add: get_ls_index_def LSindex_def)

lemma select_ls_loop_spec:
  assumes "Z \<le> 384"
  shows "\<exists>Z'. select_ls_loop Z = Some (Z', get_ls_index Z') \<and> Z \<le> Z' \<and> Z' \<le> 384 \<and> get_ls_index Z' \<noteq> 255 \<and>
    (\<forall>y. Z \<le> y \<and> y < Z' \<longrightarrow> get_ls_index y = 255)"
  using assms
proof (induction "384 - Z" arbitrary: Z rule: less_induct)
  case less
  show ?case
  proof (cases "get_ls_index Z = 255")
    case False
    then have "select_ls_loop Z = Some (Z, get_ls_index Z)"
      using less.prems by (simp add: select_ls_loop.simps [of Z] Let_def)
    then show ?thesis using less.prems False by auto
  next
    case True
    then have "Z \<noteq> 384" using max_liftsize_valid by metis
    then have lt: "Z < 384" using less.prems by simp
    have run: "select_ls_loop Z = select_ls_loop (Z + 1)"
      using True less.prems by (simp add: select_ls_loop.simps [of Z] Let_def)
    have "384 - (Z + 1) < 384 - Z" "Z + 1 \<le> 384" using lt by linarith+
    from less.hyps [OF this]
    obtain Z' where Z': "select_ls_loop (Z + 1) = Some (Z', get_ls_index Z')" "Z + 1 \<le> Z'" "Z' \<le> 384"
      "get_ls_index Z' \<noteq> 255" "\<forall>y. Z + 1 \<le> y \<and> y < Z' \<longrightarrow> get_ls_index y = 255"
      by (elim exE conjE)
    have "\<forall>y. Z \<le> y \<and> y < Z' \<longrightarrow> get_ls_index y = 255"
    proof (intro allI impI)
      fix y assume y: "Z \<le> y \<and> y < Z'"
      then show "get_ls_index y = 255" using Z'(5) True by (cases "y = Z") auto
    qed
    then show ?thesis using run Z' by (intro exI [of _ Z']) auto
  qed
qed

definition ldpc_K_b :: "srsran_basegraph_t \<Rightarrow> nat \<Rightarrow> nat" where
  "ldpc_K_b bg B = (if bg = BG2 then if B > 640 then 10 else if B > 560 then 9 else if B > 192 then 8 else 6 else 22)"

lemma select_ls_spec:
  assumes "ceil_div Kp K_b \<le> 384" "0 < K_b"
  obtains Z where "cbsegm_ldpc_select_ls Kp K_b = Some (Z, get_ls_index Z)" "Kp \<le> Z * K_b" "Z \<le> 384"
    "get_ls_index Z \<noteq> 255" "\<forall>y < Z. Kp \<le> y * K_b \<longrightarrow> get_ls_index y = 255"
proof -
  from select_ls_loop_spec [OF assms(1)]
  obtain Z where Z: "select_ls_loop (ceil_div Kp K_b) = Some (Z, get_ls_index Z)" "ceil_div Kp K_b \<le> Z" "Z \<le> 384"
    "get_ls_index Z \<noteq> 255" "\<forall>y. ceil_div Kp K_b \<le> y \<and> y < Z \<longrightarrow> get_ls_index y = 255"
    by (elim exE conjE)
  show thesis
  proof (rule that)
    show "cbsegm_ldpc_select_ls Kp K_b = Some (Z, get_ls_index Z)"
      using Z(1) assms(1) by (simp add: cbsegm_ldpc_select_ls_def)
    show "Kp \<le> Z * K_b" using Z(2) by (simp add: ceil_div_le_iff [OF assms(2)])
    show "\<forall>y < Z. Kp \<le> y * K_b \<longrightarrow> get_ls_index y = 255"
      using Z(5) by (auto simp: ceil_div_le_iff [OF assms(2)])
  qed (rule Z)+
qed

text \<open>
  C23: for every transport block size below \<open>2 ^ 30\<close> and both base graphs the LDPC segmentation
  succeeds, with the number of blocks of TS 38.212, and picks the least valid lifting size \<open>Z\<close> with
  \<open>K_b * Z\<close> no less than the bits of a block; the block length, 22 or 10 times \<open>Z\<close>, holds these bits
  and stays within the maximum of the base graph. The bits of a block are the \<open>Kp\<close> the code computes, the total
  with the checksums divided by the number of blocks and rounded down: the blocks carry the total where the
  number of blocks divides it, as it does for the transport block sizes of TS 38.214, and otherwise up to one bit
  per block less (\<open>cbsegm_ldpc_rounds_down\<close>).
\<close>

theorem cbsegm_ldpc_correct:
  assumes "0 < tbs" "tbs < 2 ^ 30"
  shows "let (s', ok) = srsran_cbsegm_ldpc s bg tbs;
             B = tbs + srsran_cbsegm_ldpc_L tbs; K_cb = (if bg = BG1 then 8448 else 3840);
             C = cb_C s'; Kp = (B + (if C = 1 then 0 else 24 * C)) div C
         in ok \<and> C = (if B \<le> K_cb then 1 else ceil_div B (K_cb - 24)) \<and> cb_L_cb s' = (if C = 1 then 0 else 24) \<and>
            get_ls_index (cb_Z s') \<noteq> 255 \<and> cb_Z s' \<le> 384 \<and> Kp \<le> cb_Z s' * ldpc_K_b bg B \<and>
            (\<forall>y < cb_Z s'. Kp \<le> y * ldpc_K_b bg B \<longrightarrow> get_ls_index y = 255) \<and>
            cb_K1 s' = (if bg = BG1 then 22 else 10) * cb_Z s' \<and> Kp \<le> cb_K1 s' \<and> cb_K1 s' \<le> K_cb"
proof -
  let ?B = "tbs + srsran_cbsegm_ldpc_L tbs" and ?Kcb = "(if bg = BG1 then 8448 else 3840 :: nat)"
  let ?Kb = "ldpc_K_b bg ?B"
  define C where "C = (if ?B \<le> ?Kcb then 1 else ceil_div ?B (?Kcb - 24))"
  define Bp where "Bp = ?B + (if C = 1 then 0 else 24 * C)"
  have L: "16 \<le> srsran_cbsegm_ldpc_L tbs" "srsran_cbsegm_ldpc_L tbs \<le> 24" by (simp_all add: srsran_cbsegm_ldpc_L_def)
  have B: "add32 tbs (srsran_cbsegm_ldpc_L tbs) = ?B" using L assms(2) by (simp add: add32_small)
  have K_cb: "1000 < ?Kcb" "?Kcb < 2 ^ 20" "?Kcb \<le> 8448" by (cases bg; simp)+
  have c: "?B \<le> ?Kcb \<and> C = 1 \<or> \<not> ?B \<le> ?Kcb \<and> 2 \<le> C \<and> ?B \<le> C * (?Kcb - 24)"
    and size: "cbsegm_cb_size ?B ?Kcb = (C, Bp)"
  proof -
    have "(?B \<le> ?Kcb \<and> C = 1 \<or> \<not> ?B \<le> ?Kcb \<and> 2 \<le> C \<and> ?B \<le> C * (?Kcb - 24)) \<and> cbsegm_cb_size ?B ?Kcb = (C, Bp)"
    proof (cases "24 < ?B")
      case True
      have lt: "?B < 2 ^ 30 + 24" using L(2) assms(2) by linarith
      note spec = cb_size_spec [OF True lt K_cb(1,2)]
      have c: "?B \<le> ?Kcb \<and> C = 1 \<or> \<not> ?B \<le> ?Kcb \<and> 2 \<le> C \<and> ?B \<le> C * (?Kcb - 24)"
        using spec(2) by (cases "?B \<le> ?Kcb") (simp_all add: C_def Let_def)
      have "cbsegm_cb_size ?B ?Kcb = (C, if ?B \<le> ?Kcb then ?B else ?B + 24 * C)"
        using spec(1) by (cases "?B \<le> ?Kcb") (simp_all add: C_def Let_def)
      then show ?thesis using c by (auto simp: Bp_def)
    next
      case False
      then show ?thesis using K_cb(1) by (simp add: cbsegm_cb_size_def C_def Bp_def)
    qed
    then show "?B \<le> ?Kcb \<and> C = 1 \<or> \<not> ?B \<le> ?Kcb \<and> 2 \<le> C \<and> ?B \<le> C * (?Kcb - 24)"
      "cbsegm_cb_size ?B ?Kcb = (C, Bp)" by blast+
  qed
  have pos: "0 < C" using c by auto
  have "Bp \<le> C * ?Kcb" using c K_cb(1) by (auto simp: Bp_def diff_mult_distrib2)
  then have "Bp div C \<le> C * ?Kcb div C" by (rule div_le_mono)
  then have Kp: "Bp div C \<le> ?Kcb" using pos by simp
  have Kb: "0 < ?Kb" by (simp add: ldpc_K_b_def)
  have "Bp div C \<le> 384 * ?Kb"
  proof (cases "bg = BG2 \<and> ?B \<le> 640")
    case True
    then have "C = 1" using c by auto
    then show ?thesis using True by (simp add: Bp_def ldpc_K_b_def)
  next
    case False
    then show ?thesis using Kp by (cases bg) (auto simp: ldpc_K_b_def)
  qed
  then have "ceil_div (Bp div C) ?Kb \<le> 384" by (simp add: ceil_div_le_iff [OF Kb])
  from select_ls_spec [OF this Kb] obtain Z where Z:
    "cbsegm_ldpc_select_ls (Bp div C) ?Kb = Some (Z, get_ls_index Z)" "Bp div C \<le> Z * ?Kb" "Z \<le> 384"
    "get_ls_index Z \<noteq> 255" "\<forall>y < Z. Bp div C \<le> y * ?Kb \<longrightarrow> get_ls_index y = 255" .
  have K: "mul32 Z (if bg = BG1 then 22 else 10) = (if bg = BG1 then 22 else 10) * Z"
    using Z(3) by (simp add: mul32_small)
  have "Z * ?Kb \<le> (if bg = BG1 then 22 else 10) * Z" by (cases bg) (simp_all add: ldpc_K_b_def mult.commute)
  then have fit: "Bp div C \<le> (if bg = BG1 then 22 else 10) * Z" using Z(2) by (rule order_trans [rotated])
  have max: "(if bg = BG1 then 22 else 10) * Z \<le> ?Kcb" using Z(3) by simp
  have run: "srsran_cbsegm_ldpc s bg tbs =
      (s\<lparr>cb_tbs := tbs, cb_L_tb := srsran_cbsegm_ldpc_L tbs, cb_L_cb := (if C > 1 then 24 else 0), cb_C := C,
         cb_F := mul32 ((if bg = BG1 then 22 else 10) * Z) C, cb_C1 := C, cb_K1 := (if bg = BG1 then 22 else 10) * Z,
         cb_K1_idx := get_ls_index Z, cb_Z := Z, cb_C2 := 0, cb_K2 := 0, cb_K2_idx := 0\<rparr>, True)"
    unfolding srsran_cbsegm_ldpc_def Let_def B size prod.case ldpc_K_b_def [symmetric] Z(1) option.case K
    using assms(1) by simp
  obtain s' where s': "srsran_cbsegm_ldpc s bg tbs = (s', True)" "cb_C s' = C" "cb_L_cb s' = (if C > 1 then 24 else 0)"
    "cb_Z s' = Z" "cb_K1 s' = (if bg = BG1 then 22 else 10) * Z"
    using run by simp
  show ?thesis
    unfolding s' Let_def prod.case Bp_def [symmetric] C_def [symmetric]
    using Z(2-5) fit max pos by auto
qed

text \<open>A transport block of 9081 bits makes two blocks of 4576 bits, one bit less than the 9153 with all checksums.\<close>

lemma cbsegm_ldpc_rounds_down:
  "let B = 9081 + srsran_cbsegm_ldpc_L 9081; C = ceil_div B (8448 - 24) in
     C = 2 \<and> cbsegm_cb_size B 8448 = (C, 9153) \<and> C * (9153 div C) = 9152"
  by (simp add: srsran_cbsegm_ldpc_L_def cbsegm_cb_size_def ceil_div_def Let_def add32_def sub32_def mul32_def)

theorem cbsegm_ldpc_correct_witness:
  "let (s', ok) = srsran_cbsegm_ldpc cbsegm_zero BG2 500
   in ok \<and> cb_C s' = 1 \<and> get_ls_index (cb_Z s') \<noteq> 255 \<and> cb_K1 s' = 10 * cb_Z s' \<and> 516 \<le> cb_K1 s'"
  using cbsegm_ldpc_correct [of 500 cbsegm_zero BG2]
  by (auto simp: Let_def srsran_cbsegm_ldpc_L_def split: prod.splits if_splits)

end
