(* ===== verification/Turbo_Interl.thy ===== *)
theory Turbo_Interl
  imports Cbsegm "HOL-Library.Multiset"
begin

text \<open>
  The quadratic permutation polynomial interleaver of the turbo code,
  \<open>lib/src/phy/fec/turbo/tc_interl_lte.c\<close>: the coefficient tables, and the generation of the forward
  and reverse tables, also for a decoder that works on \<open>interl_win\<close> windows. The tables hold 16-bit
  values; all entries are smaller than 6144. Indices are computed in 64 bits and do not wrap.
\<close>

section \<open>The coefficients and the tables\<close>

definition f1_list :: "nat list" where
  "f1_list = [
    3, 7, 19, 7, 7, 11, 5, 11, 7, 41, 103, 15, 9, 17, 9, 21, 101, 21, 57, 23, 13,
    27, 11, 27, 85, 29, 33, 15, 17, 33, 103, 19, 19, 37, 19, 21, 21, 115, 193, 21, 133, 81,
    45, 23, 243, 151, 155, 25, 51, 47, 91, 29, 29, 247, 29, 89, 91, 157, 55, 31, 17, 35, 227,
    65, 19, 37, 41, 39, 185, 43, 21, 155, 79, 139, 23, 217, 25, 17, 127, 25, 239, 17, 137, 215,
    29, 15, 147, 29, 59, 65, 55, 31, 17, 171, 67, 35, 19, 39, 19, 199, 21, 211, 21, 43, 149,
    45, 49, 71, 13, 17, 25, 183, 55, 127, 27, 29, 29, 57, 45, 31, 59, 185, 113, 31, 17, 171,
    209, 253, 367, 265, 181, 39, 27, 127, 143, 43, 29, 45, 157, 47, 13, 111, 443, 51, 51, 451, 257,
    57, 313, 271, 179, 331, 363, 375, 127, 31, 33, 43, 33, 477, 35, 233, 357, 337, 37, 71, 71, 37,
    39, 127, 39, 39, 31, 113, 41, 251, 43, 21, 43, 45, 45, 161, 89, 323, 47, 23, 47, 263]"

definition f2_list :: "nat list" where
  "f2_list = [
    10, 12, 42, 16, 18, 20, 22, 24, 26, 84, 90, 32, 34, 108, 38, 120, 84, 44, 46, 48, 50,
    52, 36, 56, 58, 60, 62, 32, 198, 68, 210, 36, 74, 76, 78, 120, 82, 84, 86, 44, 90, 46,
    94, 48, 98, 40, 102, 52, 106, 72, 110, 168, 114, 58, 118, 180, 122, 62, 84, 64, 66, 68, 420,
    96, 74, 76, 234, 80, 82, 252, 86, 44, 120, 92, 94, 48, 98, 80, 102, 52, 106, 48, 110, 112,
    114, 58, 118, 60, 122, 124, 84, 64, 66, 204, 140, 72, 74, 76, 78, 240, 82, 252, 86, 88, 60,
    92, 846, 48, 28, 80, 102, 104, 954, 96, 110, 112, 114, 116, 354, 120, 610, 124, 420, 64, 66, 136,
    420, 216, 444, 456, 468, 80, 164, 504, 172, 88, 300, 92, 188, 96, 28, 240, 204, 104, 212, 192, 220,
    336, 228, 232, 236, 120, 244, 248, 168, 64, 130, 264, 134, 408, 138, 280, 142, 480, 146, 444, 120, 152,
    462, 234, 158, 80, 96, 902, 166, 336, 170, 86, 174, 176, 178, 120, 182, 184, 186, 94, 190, 480]"

record srsran_tc_interl_t =
  il_forward :: "nat list"
  il_reverse :: "nat list"
  il_max_long_cb :: nat

definition deinter :: "nat \<Rightarrow> nat \<Rightarrow> nat \<Rightarrow> nat" where
  "deinter long_cb x win = (x mod (long_cb div win)) * win + x div (long_cb div win)"

definition inter :: "nat \<Rightarrow> nat \<Rightarrow> nat \<Rightarrow> nat" where
  "inter long_cb x win = (x mod win) * (long_cb div win) + x div win"

definition srsran_tc_interl_LTE_gen_interl ::
  "srsran_tc_interl_t \<Rightarrow> nat \<Rightarrow> nat \<Rightarrow> srsran_tc_interl_t option" where
  "srsran_tc_interl_LTE_gen_interl h long_cb interl_win =
     (if long_cb > il_max_long_cb h then None
      else case srsran_cbsegm_cbindex long_cb of
             None \<Rightarrow> None
           | Some cb_table_idx \<Rightarrow>
               let f1 = f1_list ! cb_table_idx;
                   f2 = f2_list ! cb_table_idx;
                   h0 = h\<lparr>il_forward := (il_forward h)[0 := 0], il_reverse := (il_reverse h)[0 := 0]\<rparr>;
                   h1 = foldl (\<lambda>h i. let j = (f1 * i + f2 * i * i) mod long_cb
                                     in h\<lparr>il_forward := (il_forward h)[i := j], il_reverse := (il_reverse h)[j := i]\<rparr>)
                          h0 [1..<long_cb]
               in if interl_win \<noteq> 1
                  then let f = take long_cb (il_forward h1); r = take long_cb (il_reverse h1)
                       in Some (foldl (\<lambda>h i. h\<lparr>il_forward := (il_forward h)[i := deinter long_cb (f ! inter long_cb i interl_win) interl_win],
                                               il_reverse := (il_reverse h)[i := deinter long_cb (r ! inter long_cb i interl_win) interl_win]\<rparr>)
                                  h1 [0..<long_cb])
                  else Some h1)"

definition srsran_tc_interl_LTE_gen :: "srsran_tc_interl_t \<Rightarrow> nat \<Rightarrow> srsran_tc_interl_t option" where
  "srsran_tc_interl_LTE_gen h long_cb = srsran_tc_interl_LTE_gen_interl h long_cb 1"

section \<open>The interface of an interleaver\<close>

text \<open>
  Two index maps on the first \<open>n\<close> positions, each the inverse of the other on one side. The client
  laws: both are bijections, interleaving rearranges a block, and deinterleaving restores it.
\<close>

locale interleaver =
  fixes fwd rev :: "nat \<Rightarrow> nat" and n :: nat
  assumes fwd_less: "i < n \<Longrightarrow> fwd i < n"
    and rev_fwd: "i < n \<Longrightarrow> rev (fwd i) = i"
begin

definition interleave :: "'a list \<Rightarrow> 'a list" where
  "interleave xs = map (\<lambda>i. xs ! fwd i) [0..<n]"

definition deinterleave :: "'a list \<Rightarrow> 'a list" where
  "deinterleave xs = map (\<lambda>i. xs ! rev i) [0..<n]"

lemma inj_fwd: "inj_on fwd {..<n}"
  by (rule inj_on_inverseI [of _ rev]) (simp add: rev_fwd)

lemma fwd_surj: "fwd ` {..<n} = {..<n}"
  by (rule endo_inj_surj) (use inj_fwd fwd_less in auto)

lemma bij_fwd: "bij_betw fwd {..<n} {..<n}"
  by (simp add: bij_betw_def inj_fwd fwd_surj)

lemma rev_less: "j < n \<Longrightarrow> rev j < n"
  using fwd_surj rev_fwd by (metis imageE lessThan_iff)

lemma fwd_rev: "j < n \<Longrightarrow> fwd (rev j) = j"
  using fwd_surj rev_fwd by (metis imageE lessThan_iff)

lemma deinterleave_interleave: "length xs = n \<Longrightarrow> deinterleave (interleave xs) = xs"
  by (rule nth_equalityI) (simp_all add: interleave_def deinterleave_def rev_less fwd_rev)

lemma mset_interleave: "length xs = n \<Longrightarrow> mset (interleave xs) = mset xs"
proof -
  assume len: "length xs = n"
  have "image_mset fwd (mset_set {..<n}) = mset_set {..<n}"
    using image_mset_mset_set [OF inj_fwd] by (simp add: fwd_surj)
  then have "mset (map fwd [0..<n]) = mset [0..<n]"
    by (simp add: mset_upt atLeast0LessThan)
  then have "mset (map ((!) xs) (map fwd [0..<n])) = mset (map ((!) xs) [0..<n])"
    by (metis mset_map)
  moreover have "map ((!) xs) [0..<n] = xs" using map_nth [of xs] len by simp
  ultimately show ?thesis by (simp add: interleave_def comp_def)
qed

end

section \<open>The quadratic polynomial is a permutation\<close>

text \<open>
  Inverses of the linear coefficients modulo the block sizes. They certify that each linear
  coefficient is a unit; the quadratic one is nilpotent.
\<close>

definition f1_inverses :: "nat list" where
  "f1_inverses = [
    27, 7, 3, 55, 31, 51, 53, 35, 15, 41, 7, 111, 121, 17, 17, 61, 5, 109, 113,
    167, 77, 131, 59, 83, 101, 149, 233, 239, 233, 33, 87, 91, 187, 189, 115, 61, 125, 187,
    41, 285, 157, 209, 117, 167, 171, 151, 179, 233, 291, 239, 411, 309, 173, 263, 293, 329, 59,
    357, 55, 479, 497, 171, 523, 257, 187, 493, 137, 279, 617, 547, 557, 595, 319, 323, 327, 361,
    345, 753, 559, 233, 479, 305, 713, 871, 629, 495, 411, 629, 579, 641, 55, 991, 497, 579, 1003,
    395, 187, 343, 1051, 759, 125, 1051, 1245, 131, 29, 229, 1105, 887, 965, 753, 457, 391, 1511, 1279,
    1043, 309, 629, 521, 965, 991, 1555, 1673, 785, 991, 497, 1667, 1329, 1621, 271, 569, 1117, 919, 1555,
    127, 943, 131, 1589, 1701, 2165, 719, 965, 2191, 2483, 3067, 3259, 1387, 2753, 3081, 1993, 2671, 443, 1891,
    1667, 455, 127, 3039, 2017, 2947, 2209, 885, 3659, 4057, 3373, 1969, 1389, 2935, 2231, 1709, 3159, 511, 1815,
    919, 3679, 2833, 2073, 2099, 5187, 2621, 259, 4005, 2405, 3041, 4777, 875, 4559, 1831, 1423, 5303]"

lemma length_coefficients [simp]: "length f1_list = 188" "length f2_list = 188" "length f1_inverses = 188"
  by (simp_all add: f1_list_def f2_list_def f1_inverses_def)

lemma coefficients_check:
  "list_all (\<lambda>(k, a, b, c). a * c mod k = 1 \<and> b ^ 7 mod k = 0) (zip tc_cb_sizes (zip f1_list (zip f2_list f1_inverses)))"
  by (simp add: tc_cb_sizes_def f1_list_def f2_list_def f1_inverses_def)

lemma coefficients:
  assumes "idx < 188"
  shows "f1_list ! idx * f1_inverses ! idx mod tc_cb_sizes ! idx = 1" "tc_cb_sizes ! idx dvd f2_list ! idx ^ 7"
  using coefficients_check assms by (auto simp: list_all_length mod_eq_0_iff_dvd)

lemma sum_seventh_powers:
  "(x + y) * (x ^ 6 - x ^ 5 * y + x ^ 4 * y ^ 2 - x ^ 3 * y ^ 3 + x ^ 2 * y ^ 4 - x * y ^ 5 + y ^ 6) = x ^ 7 + (y :: int) ^ 7"
  by algebra

lemma unit_plus_nilpotent:
  fixes a b k m :: int
  assumes "coprime a k" "k dvd b ^ 7"
  shows "coprime (a + b * m) k"
proof (rule coprimeI)
  fix c assume c: "c dvd a + b * m" "c dvd k"
  have "k dvd (b * m) ^ 7" using assms(2) by (simp add: power_mult_distrib)
  then have "c dvd (b * m) ^ 7" using c(2) dvd_trans by blast
  moreover have "c dvd a ^ 7 + (b * m) ^ 7"
    using c(1) unfolding sum_seventh_powers [symmetric] by (rule dvd_mult2)
  ultimately have "c dvd a ^ 7" by (metis dvd_add_left_iff)
  moreover have "coprime (a ^ 7) k" using assms(1) by simp
  ultimately show "is_unit c" using c(2) by (meson coprime_common_divisor)
qed

lemma qpp_inj:
  fixes K a b i j :: nat
  assumes "coprime a K" "K dvd b ^ 7" "i < K" "j < K"
    "(a * i + b * i * i) mod K = (a * j + b * j * j) mod K"
  shows "i = j"
proof -
  let ?d = "int i - int j"
  have cop: "coprime (int a + int b * (int i + int j)) (int K)"
  proof (rule unit_plus_nilpotent)
    show "coprime (int a) (int K)" using assms(1) by simp
    show "int K dvd int b ^ 7" using assms(2) by (metis of_nat_dvd_iff of_nat_power)
  qed
  have "int ((a * i + b * i * i) mod K) = int ((a * j + b * j * j) mod K)" using assms(5) by simp
  then have "int K dvd int (a * i + b * i * i) - int (a * j + b * j * j)"
    by (simp add: zmod_int mod_eq_dvd_iff)
  also have "int (a * i + b * i * i) - int (a * j + b * j * j) = ?d * (int a + int b * (int i + int j))"
    by (simp add: algebra_simps)
  finally have "int K dvd ?d"
    using cop by (simp add: coprime_dvd_mult_left_iff coprime_commute)
  moreover have "\<bar>?d\<bar> < int K" using assms(3,4) by linarith
  moreover have "int K \<le> \<bar>?d\<bar>" if "?d \<noteq> 0" "int K dvd ?d"
    using dvd_imp_le_int [OF that] by simp
  ultimately have "?d = 0" by linarith
  then show ?thesis by simp
qed

text \<open>The polynomial of table row \<open>idx\<close>, and the inverse the code builds while it fills the forward table.\<close>

definition qpp :: "nat \<Rightarrow> nat \<Rightarrow> nat" where
  "qpp idx i = (f1_list ! idx * i + f2_list ! idx * i * i) mod tc_cb_sizes ! idx"

lemma qpp_inj_on: "idx < 188 \<Longrightarrow> inj_on (qpp idx) {..<tc_cb_sizes ! idx}"
proof (rule inj_onI)
  fix i j assume idx: "idx < 188" and ij: "i \<in> {..<tc_cb_sizes ! idx}" "j \<in> {..<tc_cb_sizes ! idx}" "qpp idx i = qpp idx j"
  have "coprime (f1_list ! idx) (tc_cb_sizes ! idx)"
  proof (rule coprimeI)
    fix c assume c: "c dvd f1_list ! idx" "c dvd tc_cb_sizes ! idx"
    have "c dvd f1_list ! idx * f1_inverses ! idx mod tc_cb_sizes ! idx"
      by (intro dvd_mod dvd_mult2 c)
    then show "is_unit c" using coefficients(1) [OF idx] by simp
  qed
  from this coefficients(2) [OF idx] show "i = j"
    by (rule qpp_inj) (use ij in \<open>simp_all only: qpp_def lessThan_iff\<close>)
qed

lemma tc_cb_sizes_pos: "idx < 188 \<Longrightarrow> 40 \<le> tc_cb_sizes ! idx"
  using tc_cb_sizes_mono [of 0 idx] by (simp add: tc_cb_sizes_ends)

text \<open>The first loop: both tables agree with the polynomial, and the reverse one inverts it.\<close>

lemma tables_loop:
  assumes "inj_on p {..<k}" "p 0 = 0" "0 < k" "\<And>i. i < k \<Longrightarrow> p i < k" "k \<le> length (il_forward h)" "k \<le> length (il_reverse h)"
  defines "h0 \<equiv> h\<lparr>il_forward := (il_forward h)[0 := 0], il_reverse := (il_reverse h)[0 := 0]\<rparr>"
  defines "loop \<equiv> \<lambda>m. foldl (\<lambda>h i. h\<lparr>il_forward := (il_forward h)[i := p i], il_reverse := (il_reverse h)[p i := i]\<rparr>) h0 [1..<m]"
  shows "1 \<le> m \<Longrightarrow> m \<le> k \<Longrightarrow> length (il_forward (loop m)) = length (il_forward h) \<and>
    length (il_reverse (loop m)) = length (il_reverse h) \<and> il_max_long_cb (loop m) = il_max_long_cb h \<and>
    (\<forall>i < m. il_forward (loop m) ! i = p i \<and> il_reverse (loop m) ! p i = i)"
proof (induction m)
  case (Suc m)
  show ?case
  proof (cases "m = 0")
    case True
    moreover have "0 < length (il_forward h)" "0 < length (il_reverse h)" using assms(3,5,6) by auto
    ultimately show ?thesis by (simp add: loop_def h0_def assms(2))
  next
    case False
    then have IH: "length (il_forward (loop m)) = length (il_forward h)" "length (il_reverse (loop m)) = length (il_reverse h)"
      "il_max_long_cb (loop m) = il_max_long_cb h" "\<And>i. i < m \<Longrightarrow> il_forward (loop m) ! i = p i \<and> il_reverse (loop m) ! p i = i"
      using Suc by auto
    have step: "loop (Suc m) = (loop m)\<lparr>il_forward := (il_forward (loop m))[m := p m], il_reverse := (il_reverse (loop m))[p m := m]\<rparr>"
      using False by (simp add: loop_def)
    have "p i \<noteq> p m \<and> p m \<noteq> p i" if "i < m" for i
      using that Suc.prems(2) inj_onD [OF assms(1), of i m] by auto
    moreover have "m < length (il_forward h)" "p m < length (il_reverse h)"
      using Suc.prems(2) assms(4) [of m] assms(5,6) by auto
    ultimately show ?thesis using IH unfolding step by (auto simp: nth_list_update less_Suc_eq)
  qed
qed simp

lemma cbindex_size:
  assumes "idx < 188"
  shows "srsran_cbsegm_cbindex (tc_cb_sizes ! idx) = Some idx"
proof -
  have "tc_cb_sizes ! idx \<le> 6144" using tc_cb_sizes_mono [of idx 187] assms by (simp add: tc_cb_sizes_ends)
  then obtain j where j: "srsran_cbsegm_cbindex (tc_cb_sizes ! idx) = Some j" "j < 188" "tc_cb_sizes ! idx \<le> tc_cb_sizes ! j"
    "0 < j \<longrightarrow> tc_cb_sizes ! (j - 1) < tc_cb_sizes ! idx"
    by (rule cbindex_spec)
  have "\<not> j < idx"
  proof
    assume "j < idx"
    then have "tc_cb_sizes ! j < tc_cb_sizes ! Suc j" "tc_cb_sizes ! Suc j \<le> tc_cb_sizes ! idx"
      using tc_cb_sizes_step [of j] tc_cb_sizes_mono [of "Suc j" idx] assms by auto
    then show False using j(3) by simp
  qed
  moreover have "\<not> idx < j"
  proof
    assume "idx < j"
    then have "tc_cb_sizes ! idx \<le> tc_cb_sizes ! (j - 1)" using tc_cb_sizes_mono [of idx "j - 1"] j(2) by auto
    then show False using j(4) \<open>idx < j\<close> by auto
  qed
  ultimately show ?thesis using j(1) by simp
qed

section \<open>What the generator computes\<close>

text \<open>The tables generated for block size number \<open>idx\<close>, in one window.\<close>

lemma gen_one_window:
  assumes "idx < 188" "tc_cb_sizes ! idx \<le> il_max_long_cb h"
    "il_max_long_cb h \<le> length (il_forward h)" "il_max_long_cb h \<le> length (il_reverse h)"
  obtains h1 where "srsran_tc_interl_LTE_gen_interl h (tc_cb_sizes ! idx) 1 = Some h1"
    "length (il_forward h1) = length (il_forward h)" "length (il_reverse h1) = length (il_reverse h)"
    "il_max_long_cb h1 = il_max_long_cb h"
    "\<forall>i < tc_cb_sizes ! idx. il_forward h1 ! i = qpp idx i \<and> il_reverse h1 ! qpp idx i = i"
    "\<forall>w. w \<noteq> 1 \<longrightarrow> srsran_tc_interl_LTE_gen_interl h (tc_cb_sizes ! idx) w =
       Some (foldl (\<lambda>h i. h\<lparr>il_forward := (il_forward h)[i := deinter (tc_cb_sizes ! idx) (take (tc_cb_sizes ! idx) (il_forward h1) ! inter (tc_cb_sizes ! idx) i w) w],
                            il_reverse := (il_reverse h)[i := deinter (tc_cb_sizes ! idx) (take (tc_cb_sizes ! idx) (il_reverse h1) ! inter (tc_cb_sizes ! idx) i w) w]\<rparr>)
               h1 [0..<tc_cb_sizes ! idx])"
proof -
  define K where "K = tc_cb_sizes ! idx"
  define h0 where "h0 = h\<lparr>il_forward := (il_forward h)[0 := 0], il_reverse := (il_reverse h)[0 := 0]\<rparr>"
  define h1 where "h1 = foldl (\<lambda>h i. h\<lparr>il_forward := (il_forward h)[i := qpp idx i], il_reverse := (il_reverse h)[qpp idx i := i]\<rparr>) h0 [1..<K]"
  have K: "40 \<le> K" using tc_cb_sizes_pos [OF assms(1)] by (simp add: K_def)
  have q0: "qpp idx 0 = 0" by (simp add: qpp_def)
  have ql: "qpp idx i < K" for i using K unfolding qpp_def K_def by (intro mod_less_divisor) simp
  have lens: "K \<le> length (il_forward h)" "K \<le> length (il_reverse h)" using assms(2-4) unfolding K_def by linarith+
  have inj: "inj_on (qpp idx) {..<K}" unfolding K_def by (rule qpp_inj_on [OF assms(1)])
  have "0 < K" "1 \<le> K" using K by simp_all
  have l: "length (il_forward h1) = length (il_forward h) \<and> length (il_reverse h1) = length (il_reverse h) \<and>
      il_max_long_cb h1 = il_max_long_cb h \<and> (\<forall>i < K. il_forward h1 ! i = qpp idx i \<and> il_reverse h1 ! qpp idx i = i)"
    unfolding h1_def h0_def
    by (rule tables_loop [OF inj q0 \<open>0 < K\<close> ql lens \<open>1 \<le> K\<close> order_refl])
  have gen: "srsran_tc_interl_LTE_gen_interl h K w =
      (if w \<noteq> 1 then Some (foldl (\<lambda>h i. h\<lparr>il_forward := (il_forward h)[i := deinter K (take K (il_forward h1) ! inter K i w) w],
                            il_reverse := (il_reverse h)[i := deinter K (take K (il_reverse h1) ! inter K i w) w]\<rparr>)
               h1 [0..<K]) else Some h1)" for w
  proof -
    have idx: "srsran_cbsegm_cbindex K = Some idx" unfolding K_def by (rule cbindex_size [OF assms(1)])
    have h1: "foldl (\<lambda>h i. let j = (f1_list ! idx * i + f2_list ! idx * i * i) mod K
                           in h\<lparr>il_forward := (il_forward h)[i := j], il_reverse := (il_reverse h)[j := i]\<rparr>) h0 [1..<K] = h1"
      unfolding h1_def qpp_def K_def Let_def ..
    show ?thesis
      using assms(2) unfolding srsran_tc_interl_LTE_gen_interl_def idx option.case K_def [symmetric]
        Let_def [of "f1_list ! idx"] Let_def [of "f2_list ! idx"] h0_def [symmetric] Let_def [of h0] h1
      by (simp add: Let_def)
  qed
  show thesis
    using gen [of 1] l by (intro that [of h1]) (simp_all add: gen [unfolded K_def] K_def)
qed

text \<open>With \<open>win\<close> windows both tables are conjugated with the transposition of a \<open>win\<close>-column matrix.\<close>

lemma transpose_index:
  fixes m n x :: nat
  assumes "x < m * n"
  shows "(x mod n) * m + x div n < m * n"
    "(((x mod n) * m + x div n) mod m) * n + ((x mod n) * m + x div n) div m = x"
proof -
  have n: "0 < n" "0 < m" using assms by (auto intro: gr0I)
  define a where "a = x div n"
  define b where "b = x mod n"
  have a: "a < m" unfolding a_def using assms n(1) by (simp add: div_less_iff_less_mult)
  have b: "b < n" using n(1) by (simp add: b_def)
  have "b * m + a < (b + 1) * m" using a by simp
  also have "\<dots> \<le> n * m" using b by (intro mult_le_mono1) simp
  finally show "(x mod n) * m + x div n < m * n" by (simp only: a_def b_def mult.commute [of m n])
  have "(b * m + a) mod m = a" "(b * m + a) div m = b" using a n(2) by simp_all
  then have "((b * m + a) mod m) * n + (b * m + a) div m = a * n + b" by simp
  also have "\<dots> = x" by (simp add: a_def b_def)
  finally show "(((x mod n) * m + x div n) mod m) * n + ((x mod n) * m + x div n) div m = x"
    by (simp only: a_def b_def)
qed

lemma inter_deinter:
  assumes "win dvd K" "0 < K" "x < K"
  shows "inter K x win < K" "deinter K x win < K" "inter K (deinter K x win) win = x" "deinter K (inter K x win) win = x"
proof -
  have K: "win * (K div win) = K" "(K div win) * win = K" using assms(1) by simp_all
  have x: "x < win * (K div win)" "x < (K div win) * win" using assms(3) by (simp_all only: K)
  show "inter K x win < K" "deinter K (inter K x win) win = x"
    using transpose_index [OF x(2)] unfolding inter_def deinter_def by (simp_all only: K)
  show "deinter K x win < K" "inter K (deinter K x win) win = x"
    using transpose_index [OF x(1)] unfolding inter_def deinter_def by (simp_all only: K)
qed

text \<open>Two tables that hold an interleaver and its inverse for block size \<open>K\<close>.\<close>

definition tables_inverse :: "srsran_tc_interl_t \<Rightarrow> nat \<Rightarrow> bool" where
  "tables_inverse h K \<longleftrightarrow> K \<le> length (il_forward h) \<and> K \<le> length (il_reverse h) \<and>
     interleaver ((!) (il_forward h)) ((!) (il_reverse h)) K"

interpretation qpp: interleaver "qpp (min idx 187)" "inv_into {..<tc_cb_sizes ! min idx 187} (qpp (min idx 187))"
    "tc_cb_sizes ! min idx 187" for idx
proof
  have idx: "min idx 187 < 188" by simp
  fix i assume i: "i < tc_cb_sizes ! min idx 187"
  then show "qpp (min idx 187) i < tc_cb_sizes ! min idx 187"
    unfolding qpp_def by (intro mod_less_divisor) simp
  show "inv_into {..<tc_cb_sizes ! min idx 187} (qpp (min idx 187)) (qpp (min idx 187) i) = i"
    using qpp_inj_on [OF idx] i by (intro inv_into_f_f) auto
qed

lemma qpp_less: "idx < 188 \<Longrightarrow> i < tc_cb_sizes ! idx \<Longrightarrow> qpp idx i < tc_cb_sizes ! idx"
  using qpp.fwd_less [of i idx] by (simp add: min_absorb1)

lemma gen_tables_inverse:
  assumes "idx < 188" "tc_cb_sizes ! idx \<le> il_max_long_cb h"
    "il_max_long_cb h \<le> length (il_forward h)" "il_max_long_cb h \<le> length (il_reverse h)" "w dvd tc_cb_sizes ! idx"
  obtains h' where "srsran_tc_interl_LTE_gen_interl h (tc_cb_sizes ! idx) w = Some h'"
    "tables_inverse h' (tc_cb_sizes ! idx)" "il_max_long_cb h' = il_max_long_cb h"
    "\<forall>i < tc_cb_sizes ! idx. il_forward h' ! i =
       deinter (tc_cb_sizes ! idx) (qpp idx (inter (tc_cb_sizes ! idx) i w)) w"
proof -
  let ?K = "tc_cb_sizes ! idx"
  have K: "0 < ?K" using tc_cb_sizes_pos [OF assms(1)] by simp
  obtain h1 where h1: "srsran_tc_interl_LTE_gen_interl h ?K 1 = Some h1"
    "length (il_forward h1) = length (il_forward h)" "length (il_reverse h1) = length (il_reverse h)"
    "il_max_long_cb h1 = il_max_long_cb h"
    "\<forall>i < ?K. il_forward h1 ! i = qpp idx i \<and> il_reverse h1 ! qpp idx i = i"
    "\<forall>w. w \<noteq> 1 \<longrightarrow> srsran_tc_interl_LTE_gen_interl h ?K w =
       Some (foldl (\<lambda>h i. h\<lparr>il_forward := (il_forward h)[i := deinter ?K (take ?K (il_forward h1) ! inter ?K i w) w],
                            il_reverse := (il_reverse h)[i := deinter ?K (take ?K (il_reverse h1) ! inter ?K i w) w]\<rparr>)
               h1 [0..<?K])"
    by (rule gen_one_window [OF assms(1-4)])
  have lens: "?K \<le> length (il_forward h1)" "?K \<le> length (il_reverse h1)"
    using h1(2,3) assms(2-4) by linarith+
  have ql: "qpp idx i < ?K" if "i < ?K" for i using qpp_less [OF assms(1) that] .
  show thesis
  proof (cases "w = 1")
    case True
    have inv: "tables_inverse h1 ?K"
      unfolding tables_inverse_def using lens h1(5) ql by (auto intro!: interleaver.intro)
    have id: "inter ?K i 1 = i" "deinter ?K i 1 = i" if "i < ?K" for i using that by (simp_all add: inter_def deinter_def)
    show thesis using True h1(1,4,5) inv ql by (intro that [of h1]) (simp_all add: id [unfolded One_nat_def])
  next
    case False
    define f where "f i = deinter ?K (il_forward h1 ! inter ?K i w) w" for i
    define r where "r i = deinter ?K (il_reverse h1 ! inter ?K i w) w" for i
    define h' where "h' = foldl (\<lambda>h i. h\<lparr>il_forward := (il_forward h)[i := f i], il_reverse := (il_reverse h)[i := r i]\<rparr>) h1 [0..<?K]"
    have io: "inter ?K x w < ?K" "deinter ?K x w < ?K" "inter ?K (deinter ?K x w) w = x" "deinter ?K (inter ?K x w) w = x"
      if "x < ?K" for x using inter_deinter [OF assms(5) K that] by auto
    have run: "srsran_tc_interl_LTE_gen_interl h ?K w = Some h'"
      unfolding h1(6) [rule_format, OF False] h'_def f_def r_def using io(1)
      by (intro arg_cong [of _ _ Some] foldl_cong refl) simp
    have fields: "il_forward h' = foldl (\<lambda>o' i. o'[i := f i]) (il_forward h1) [0..<?K] \<and>
        il_reverse h' = foldl (\<lambda>o' i. o'[i := r i]) (il_reverse h1) [0..<?K] \<and> il_max_long_cb h' = il_max_long_cb h1"
    proof -
      have "il_forward (foldl (\<lambda>h i. h\<lparr>il_forward := (il_forward h)[i := f i], il_reverse := (il_reverse h)[i := r i]\<rparr>) h1 [0..<k]) =
          foldl (\<lambda>o' i. o'[i := f i]) (il_forward h1) [0..<k] \<and>
        il_reverse (foldl (\<lambda>h i. h\<lparr>il_forward := (il_forward h)[i := f i], il_reverse := (il_reverse h)[i := r i]\<rparr>) h1 [0..<k]) =
          foldl (\<lambda>o' i. o'[i := r i]) (il_reverse h1) [0..<k] \<and>
        il_max_long_cb (foldl (\<lambda>h i. h\<lparr>il_forward := (il_forward h)[i := f i], il_reverse := (il_reverse h)[i := r i]\<rparr>) h1 [0..<k]) = il_max_long_cb h1"
        for k by (induction k) simp_all
      then show ?thesis by (simp add: h'_def)
    qed
    have nth: "il_forward h' ! i = f i" "il_reverse h' ! i = r i" if "i < ?K" for i
      using that lens fields by (simp_all add: foldl_list_update_nth)
    have rf: "il_forward h1 ! x = qpp idx x" "il_reverse h1 ! qpp idx x = x" if "x < ?K" for x using that h1(5) by auto
    have "f i < ?K" "r (f i) = i" if i: "i < ?K" for i
    proof -
      have x: "inter ?K i w < ?K" using io(1) [OF i] .
      show "f i < ?K" unfolding f_def rf(1) [OF x] by (rule io(2) [OF ql [OF x]])
      show "r (f i) = i" unfolding r_def f_def rf(1) [OF x] io(3) [OF ql [OF x]] rf(2) [OF x] by (rule io(4) [OF i])
    qed
    then have "tables_inverse h' ?K"
      unfolding tables_inverse_def using fields lens nth by (auto intro!: interleaver.intro)
    moreover have "\<forall>i < ?K. il_forward h' ! i = deinter ?K (qpp idx (inter ?K i w)) w"
      using nth io(1) rf by (simp add: f_def)
    ultimately show thesis using run fields h1(4) by (intro that [of h']) simp_all
  qed
qed

text \<open>
  C26: for each of the 188 block sizes \<open>K\<close> and every number of windows that divides it, the generator
  succeeds and the forward table is a permutation of the \<open>K\<close> positions with the reverse table as its
  inverse: the quadratic polynomial of TS 36.212 for one window, and its conjugate with the windowing
  of the decoder otherwise; interleaving a block keeps its elements, and deinterleaving restores it.
\<close>

theorem interleaver_tables_correct:
  assumes "idx < 188" "tc_cb_sizes ! idx \<le> il_max_long_cb h"
    "il_max_long_cb h \<le> length (il_forward h)" "il_max_long_cb h \<le> length (il_reverse h)" "w dvd tc_cb_sizes ! idx"
    "length xs = tc_cb_sizes ! idx"
  shows "\<exists>h'. srsran_tc_interl_LTE_gen_interl h (tc_cb_sizes ! idx) w = Some h' \<and>
    bij_betw ((!) (il_forward h')) {..<tc_cb_sizes ! idx} {..<tc_cb_sizes ! idx} \<and>
    (\<forall>i < tc_cb_sizes ! idx. il_reverse h' ! (il_forward h' ! i) = i \<and> il_forward h' ! (il_reverse h' ! i) = i \<and>
       il_forward h' ! i = deinter (tc_cb_sizes ! idx) (qpp idx (inter (tc_cb_sizes ! idx) i w)) w) \<and>
    mset (map (\<lambda>i. xs ! (il_forward h' ! i)) [0..<tc_cb_sizes ! idx]) = mset xs \<and>
    map (\<lambda>i. map (\<lambda>i. xs ! (il_forward h' ! i)) [0..<tc_cb_sizes ! idx] ! (il_reverse h' ! i)) [0..<tc_cb_sizes ! idx] = xs"
proof -
  obtain h' where h': "srsran_tc_interl_LTE_gen_interl h (tc_cb_sizes ! idx) w = Some h'"
    "tables_inverse h' (tc_cb_sizes ! idx)"
    "\<forall>i < tc_cb_sizes ! idx. il_forward h' ! i = deinter (tc_cb_sizes ! idx) (qpp idx (inter (tc_cb_sizes ! idx) i w)) w"
    by (rule gen_tables_inverse [OF assms(1-5)])
  from h'(2) have il: "interleaver ((!) (il_forward h')) ((!) (il_reverse h')) (tc_cb_sizes ! idx)"
    by (simp add: tables_inverse_def)
  show ?thesis
    using h'(1,3) interleaver.bij_fwd [OF il] interleaver.rev_fwd [OF il] interleaver.fwd_rev [OF il]
      interleaver.mset_interleave [OF il assms(6)] interleaver.deinterleave_interleave [OF il assms(6)]
    unfolding interleaver.interleave_def [OF il] interleaver.deinterleave_def [OF il] by blast
qed

theorem interleaver_tables_correct_witness:
  "\<exists>h'. srsran_tc_interl_LTE_gen_interl \<lparr>il_forward = replicate 40 0, il_reverse = replicate 40 0, il_max_long_cb = 40\<rparr> 40 4 = Some h' \<and>
    (\<forall>i < 40. il_reverse h' ! (il_forward h' ! i) = i)"
  using interleaver_tables_correct [of 0 "\<lparr>il_forward = replicate 40 0, il_reverse = replicate 40 0, il_max_long_cb = 40\<rparr>" 4 "[0..<40::nat]"]
  by (auto simp: tc_cb_sizes_ends)

end
