(* ===== verification/Transducer.thy ===== *)
theory Transducer
  imports Phy_Prelude
begin

text \<open>
  Sequential encoders as transducers: a step takes a state and an input to a new state and an
  output, and \<open>run\<close> iterates it over a list. The locale states when a step on blocks (a table of
  the transitions over a byte) implements the step on single bits, and what follows for whole runs.
\<close>

fun run :: "('s \<Rightarrow> 'i \<Rightarrow> 's \<times> 'o) \<Rightarrow> 's \<Rightarrow> 'i list \<Rightarrow> 's \<times> 'o list" where
  "run step s [] = (s, [])"
| "run step s (x # xs) = (let (s', y) = step s x; (s'', ys) = run step s' xs in (s'', y # ys))"

lemma run_append:
  "run step s (xs @ ys) =
     (fst (run step (fst (run step s xs)) ys), snd (run step s xs) @ snd (run step (fst (run step s xs)) ys))"
  by (induction xs arbitrary: s) (simp_all add: split_def Let_def)

lemma run_snoc:
  "run step s (xs @ [x]) =
     (fst (step (fst (run step s xs)) x), snd (run step s xs) @ [snd (step (fst (run step s xs)) x)])"
  by (simp add: run_append split_def Let_def)

lemma length_run [simp]: "length (snd (run step s xs)) = length xs"
  by (induction xs arbitrary: s) (simp_all add: split_def Let_def)

lemma run_take: "snd (run step s (take n xs)) = take n (snd (run step s xs))"
  by (induction xs arbitrary: s n) (simp_all add: split_def Let_def take_Cons split: nat.split)

lemma run_upt_Suc: "run step s (map f [0..<Suc n]) =
   (fst (step (fst (run step s (map f [0..<n]))) (f n)),
    snd (run step s (map f [0..<n])) @ [snd (step (fst (run step s (map f [0..<n]))) (f n))])"
  by (simp add: run_snoc)

locale blocked_transducer =
  fixes step :: "'s \<Rightarrow> 'i \<Rightarrow> 's \<times> 'o" and block_step :: "'b \<Rightarrow> 'j \<Rightarrow> 'b \<times> 'p"
    and valid :: "'b \<Rightarrow> bool" and state :: "'b \<Rightarrow> 's"
    and split_in :: "'j \<Rightarrow> 'i list" and split_out :: "'p \<Rightarrow> 'o list"
  assumes valid_step: "valid b \<Longrightarrow> valid (fst (block_step b x))"
    and run_block: "valid b \<Longrightarrow>
      run step (state b) (split_in x) = (state (fst (block_step b x)), split_out (snd (block_step b x)))"
begin

lemma valid_run: "valid b \<Longrightarrow> valid (fst (run block_step b xs))"
proof (induction xs arbitrary: b)
  case (Cons x xs)
  then show ?case using valid_step [of b x] by (simp add: split_def Let_def)
qed simp

lemma run_blocks:
  "valid b \<Longrightarrow> run step (state b) (concat (map split_in xs)) =
     (state (fst (run block_step b xs)), concat (map split_out (snd (run block_step b xs))))"
proof (induction xs arbitrary: b)
  case (Cons x xs)
  have "valid (fst (block_step b x))" by (rule valid_step [OF Cons.prems])
  from Cons.IH [OF this] show ?case
    by (simp add: run_append run_block [OF Cons.prems] split_def Let_def)
qed simp

end

end
