(* ===== verification/Turbo_Coder.thy ===== *)
theory Turbo_Coder
  imports Turbo_Interl Crc Transducer
begin

text \<open>
  The turbo encoder, \<open>lib/src/phy/fec/turbo/turbocoder.c\<close>: the encoder on unpacked bits and the one
  on packed bytes, which looks up the transitions of the constituent encoder a byte at a time,
  interleaves packed bits, and attaches the checksums on the way. The tables that
  \<open>srsran_tcod_gentable\<close> computes once are functions of the block size number. An unpacked input
  element is 0, 1 or the filler value 100.
\<close>

unbundle bit_operations_syntax

section \<open>The tables\<close>

abbreviation NOF_REGS :: nat where "NOF_REGS \<equiv> 3"
abbreviation SRSRAN_TX_NULL :: u8 where "SRSRAN_TX_NULL \<equiv> 100"

definition tcod_interl_obj :: srsran_tc_interl_t where
  "tcod_interl_obj = \<lparr>il_forward = replicate 6144 0, il_reverse = replicate 6144 0, il_max_long_cb = 6144\<rparr>"

definition tcod_per_fw :: "nat \<Rightarrow> nat list" where
  "tcod_per_fw len =
     (let long_cb = tc_cb_sizes ! len in
      case srsran_tc_interl_LTE_gen tcod_interl_obj long_cb of None \<Rightarrow> []
      | Some interl \<Rightarrow> map (\<lambda>i. il_forward interl ! i) [0..<long_cb] @ replicate (6144 - long_cb) 0)"

definition tcod_interleavers :: "nat \<Rightarrow> srsran_bit_interleaver_t" where
  "tcod_interleavers len = srsran_bit_interleaver_init (tcod_per_fw len) (tc_cb_sizes ! len)"

text \<open>The registers of a constituent encoder and one step: the new registers and the parity bit.\<close>

type_synonym regs = "u8 \<times> u8 \<times> u8"

definition rsc_step :: "regs \<Rightarrow> u8 \<Rightarrow> regs \<times> u8" where
  "rsc_step = (\<lambda>(reg_0, reg_1, reg_2) b.
     let ins = b XOR (reg_2 XOR reg_1); out = reg_2 XOR (reg_0 XOR ins) in ((ins, reg_0, reg_1), out))"

definition state_regs :: "u8 \<Rightarrow> regs" where
  "state_regs state = (drop_bit 2 (state AND 4), drop_bit 1 (state AND 2), state AND 1)"

record tcod_lut_t =
  next_state :: u8
  lut_output :: u8

definition tcod_lut_bit :: "u8 \<Rightarrow> regs \<times> u8 \<Rightarrow> nat \<Rightarrow> regs \<times> u8" where
  "tcod_lut_bit data = (\<lambda>(regs, output) i.
     let b = (if data AND push_bit (7 - i) 1 \<noteq> 0 then 1 else 0);
         (regs', out) = rsc_step regs b
     in (regs', output OR push_bit (7 - i) out))"

definition tcod_lut :: "u8 \<Rightarrow> u8 \<Rightarrow> tcod_lut_t" where
  "tcod_lut state data =
     (let ((reg_0, reg_1, reg_2), output) = foldl (tcod_lut_bit data) (state_regs state, 0) [0..<8]
      in \<lparr>next_state = (push_bit 2 reg_0 OR push_bit 1 reg_1 OR reg_2) mod 8, lut_output = output\<rparr>)"

section \<open>The encoder on bits\<close>

text \<open>The tail: three steps whose input clears the registers; each emits its input and its parity bit.\<close>

definition tcod_tail :: "regs \<Rightarrow> regs \<times> u8 list" where
  "tcod_tail regs =
     foldl (\<lambda>((reg_0, reg_1, reg_2), tail) j.
         let b = reg_2 XOR reg_1; (regs', out) = rsc_step (reg_0, reg_1, reg_2) b
         in (regs', tail @ [b, out]))
       (regs, []) [0..<NOF_REGS]"

definition tcod_encode_step :: "nat list \<Rightarrow> u8 list \<Rightarrow> regs \<times> regs \<times> u8 list \<Rightarrow> nat \<Rightarrow> regs \<times> regs \<times> u8 list" where
  "tcod_encode_step per input = (\<lambda>(reg1, reg2, output) i.
     let (reg1', out1) = rsc_step reg1 (if input ! i = SRSRAN_TX_NULL then 0 else input ! i);
         par1 = (if input ! i = SRSRAN_TX_NULL then SRSRAN_TX_NULL else out1);
         b2 = input ! (per ! i);
         (reg2', out2) = rsc_step reg2 (if b2 = SRSRAN_TX_NULL then 0 else b2)
     in (reg1', reg2', output @ [input ! i, par1, out2]))"

text \<open>The bytes are written one after the other from the start of \<open>output\<close>.\<close>

definition srsran_tcod_encode :: "nat \<Rightarrow> u8 list \<Rightarrow> u8 list \<Rightarrow> nat \<Rightarrow> u8 list option" where
  "srsran_tcod_encode max_long_cb input output long_cb =
     (if long_cb > max_long_cb then None
      else case srsran_cbsegm_cbindex long_cb of
             None \<Rightarrow> None
           | Some longcb_idx \<Rightarrow>
               let per = tcod_per_fw longcb_idx;
                   (reg1, reg2, body) = foldl (tcod_encode_step per input) ((0, 0, 0), (0, 0, 0), []) [0..<long_cb];
                   (reg1', tail1) = tcod_tail reg1;
                   (reg2', tail2) = tcod_tail reg2
               in Some (store output 0 (body @ tail1 @ tail2)))"

section \<open>The encoder on bytes\<close>

text \<open>One byte through the table: the state after it, and the parity byte stored at \<open>idx\<close>.\<close>

definition enc_byte :: "nat \<Rightarrow> u8 \<Rightarrow> u8 \<times> u8 list \<Rightarrow> u8 \<times> u8 list" where
  "enc_byte idx b = (\<lambda>(state, parity). let l = tcod_lut state b in (next_state l, parity[idx := lut_output l]))"

text \<open>Byte \<open>i\<close> of a checksum of \<open>ord\<close> bits, most significant first.\<close>

definition checksum_byte :: "u32 \<Rightarrow> nat \<Rightarrow> nat \<Rightarrow> u8" where
  "checksum_byte checksum ord i = ucast (drop_bit (8 * (ord div 8 - i - 1)) checksum AND 0xff)"

definition enc_crc_cb ::
  "srsran_crc_t \<Rightarrow> srsran_crc_t \<Rightarrow> u8 list \<Rightarrow> u8 list \<Rightarrow> nat \<Rightarrow> bool \<Rightarrow>
   srsran_crc_t \<times> srsran_crc_t \<times> u8 list \<times> u8 list \<times> u8" where
  "enc_crc_cb crc_tb crc_cb input parity long_cb last_cb =
     (let block_size_nocrc = sub32 (sub32 long_cb (order crc_cb)) (if last_cb then order crc_tb else 0) div 8;
          (tb1, cb1, state1, parity1) =
            foldl (\<lambda>(tb, cb, sp) i. (srsran_crc_checksum_put_byte tb (input ! i),
                     srsran_crc_checksum_put_byte cb (input ! i), enc_byte i (input ! i) sp))
              (crc_tb, crc_cb, 0, parity) [0..<block_size_nocrc];
          checksum_tb = (ucast (srsran_crc_checksum_get tb1) :: u32);
          (cb2, input2, state2, parity2) =
            (if last_cb
             then foldl (\<lambda>(cb, input, sp) i.
                    let b = checksum_byte checksum_tb (order tb1) i; idx = block_size_nocrc + i
                    in (srsran_crc_checksum_put_byte cb b, input[idx := b], enc_byte idx b sp))
                    (cb1, input, state1, parity1) [0..<order tb1 div 8]
             else (cb1, input, state1, parity1));
          checksum_cb = (ucast (srsran_crc_checksum_get cb2) :: u32);
          (input3, state3, parity3) =
            foldl (\<lambda>(input, sp) i.
                let b = checksum_byte checksum_cb (order cb2) i; idx = sub32 long_cb (order cb2) div 8 + i
                in (input[idx := b], enc_byte idx b sp))
              (input2, state2, parity2) [0..<order cb2 div 8]
      in (tb1, cb2, input3, parity3, state3))"

definition enc_no_cb ::
  "srsran_crc_t \<Rightarrow> u8 list \<Rightarrow> u8 list \<Rightarrow> nat \<Rightarrow> bool \<Rightarrow> srsran_crc_t \<times> u8 list \<times> u8 list \<times> u8" where
  "enc_no_cb crc_tb input parity long_cb last_cb =
     (let block_size_nocrc = sub32 long_cb (if last_cb then order crc_tb else 0) div 8;
          (tb1, state1, parity1) =
            foldl (\<lambda>(tb, sp) i. (srsran_crc_checksum_put_byte tb (input ! i), enc_byte i (input ! i) sp))
              (crc_tb, 0, parity) [0..<block_size_nocrc];
          checksum_tb = (ucast (srsran_crc_checksum_get tb1) :: u32);
          (input2, state2, parity2) =
            (if last_cb
             then foldl (\<lambda>(input, sp) i.
                    let b = checksum_byte checksum_tb (order tb1) i; idx = block_size_nocrc + i
                    in (input[idx := b], enc_byte idx b sp))
                    (input, state1, parity1) [0..<order tb1 div 8]
             else (input, state1, parity1))
      in (tb1, input2, parity2, state2))"

definition enc_second :: "u8 list \<Rightarrow> u8 list \<Rightarrow> nat \<Rightarrow> u8 \<times> u8 list" where
  "enc_second temp parity n =
     foldl (\<lambda>(state, parity) i.
         let l = tcod_lut state (temp ! i); out = lut_output l;
             parity' = parity[n + i := parity ! (n + i) OR drop_bit 4 (out AND 0xf0)]
         in (next_state l, parity'[n + i + 1 := push_bit 4 (out AND 0xf)]))
       (0, parity) [0..<n]"

definition pack4 :: "u8 list \<Rightarrow> nat \<Rightarrow> u8" where
  "pack4 tail j = ucast (fst (srsran_bit_pack (map (\<lambda>i. tail ! (3 * i + j)) [0..<4]) 4))"

text \<open>
  The arguments after the buffers of the encoder are the two checksum generators, the second
  optional, and the result the buffers, the generators and the number of bits, or an error: the code returns -1,
  or it writes outside one of the three arrays. It does not compare the block with the length \<open>max_long_cb\<close> that
  \<open>temp\<close> was allocated for.
\<close>

datatype tcod_error = Tcod_invalid | Tcod_overrun

definition srsran_tcod_encode_lut ::
  "u8 list \<Rightarrow> srsran_crc_t \<Rightarrow> srsran_crc_t option \<Rightarrow> u8 list \<Rightarrow> u8 list \<Rightarrow> nat \<Rightarrow> bool \<Rightarrow>
   (tcod_error + u8 list \<times> srsran_crc_t \<times> srsran_crc_t option \<times> u8 list \<times> u8 list \<times> nat)" where
  "srsran_tcod_encode_lut temp crc_tb crc_cb input parity cblen_idx last_cb =
     (if \<not> cblen_idx < 188 then Inl Tcod_invalid
      else case srsran_cbsegm_cbsize cblen_idx of None \<Rightarrow> Inl Tcod_invalid
      | Some long_cb \<Rightarrow>
        if long_cb mod 8 \<noteq> 0 then Inl Tcod_invalid
        else if length input \<le> long_cb div 8 \<or> length parity \<le> 2 * (long_cb div 8) \<or> length temp < long_cb div 8 then Inl Tcod_overrun
        else let (tb', cb', input1, parity1, state0) =
                   (case crc_cb of
                      Some cb \<Rightarrow> let (tb1, cb1, i1, p1, st) = enc_crc_cb crc_tb (fst (srsran_crc_set_init cb 0)) input parity long_cb last_cb
                                in (tb1, Some cb1, i1, p1, st)
                    | None \<Rightarrow> let (tb1, i1, p1, st) = enc_no_cb crc_tb input parity long_cb last_cb in (tb1, None, i1, p1, st));
                 parity2 = parity1[long_cb div 8 := 0];
                 temp' = srsran_bit_interleaver_run (tcod_interleavers cblen_idx) input1 temp 0;
                 (state1, parity3) = enc_second temp' parity2 (long_cb div 8);
                 tail = snd (tcod_tail (state_regs state0)) @ snd (tcod_tail (state_regs state1));
                 input2 = input1[long_cb div 8 := push_bit 4 (pack4 tail 0)];
                 parity4 = parity3[long_cb div 8 := parity3 ! (long_cb div 8) OR push_bit 4 (pack4 tail 1)];
                 parity5 = parity4[2 * long_cb div 8 := parity4 ! (2 * long_cb div 8) OR (pack4 tail 2 AND 0xf)]
             in Inr (temp', tb', cb', input2, parity5, 3 * long_cb + 12))"

section \<open>The constituent encoder over booleans\<close>

type_synonym bregs = "bool \<times> bool \<times> bool"

definition brsc :: "bregs \<Rightarrow> bool \<Rightarrow> bregs \<times> bool" where
  "brsc = (\<lambda>(a, b, c) x. ((x \<noteq> (c \<noteq> b), a, b), c \<noteq> (a \<noteq> (x \<noteq> (c \<noteq> b)))))"

definition regs_of :: "bregs \<Rightarrow> regs" where
  "regs_of = (\<lambda>(a, b, c). (bit_of a, bit_of b, bit_of c))"

abbreviation zero_regs :: bregs where "zero_regs \<equiv> (False, False, False)"

lemma rsc_step_brsc: "rsc_step (regs_of r) (bit_of x) = (regs_of (fst (brsc r x)), bit_of (snd (brsc r x)))"
  by (cases r) (auto simp: rsc_step_def brsc_def regs_of_def bit_of_xor Let_def)

text \<open>
  The transfer function of TS 36.212 5.1.3.2, \<open>g1(D)/g0(D)\<close> with \<open>g0(D) = 1 + D\<^sup>2 + D\<^sup>3\<close> and
  \<open>g1(D) = 1 + D + D\<^sup>3\<close>, as recurrences over the positions of the input.
\<close>

fun rsc_a :: "(nat \<Rightarrow> bool) \<Rightarrow> nat \<Rightarrow> bool" where
  "rsc_a x n = (x n \<noteq> ((if 2 \<le> n then rsc_a x (n - 2) else False) \<noteq> (if 3 \<le> n then rsc_a x (n - 3) else False)))"

declare rsc_a.simps [simp del]

definition rsc_z :: "(nat \<Rightarrow> bool) \<Rightarrow> nat \<Rightarrow> bool" where
  "rsc_z a n = (a n \<noteq> ((1 \<le> n \<and> a (n - 1)) \<noteq> (3 \<le> n \<and> a (n - 3))))"

definition rsc_regs :: "(nat \<Rightarrow> bool) \<Rightarrow> nat \<Rightarrow> bregs" where
  "rsc_regs a n = (1 \<le> n \<and> a (n - 1), 2 \<le> n \<and> a (n - 2), 3 \<le> n \<and> a (n - 3))"

lemma brsc_regs: "brsc (rsc_regs (rsc_a x) n) (x n) = (rsc_regs (rsc_a x) (Suc n), rsc_z (rsc_a x) n)"
proof -
  have "n = 0 \<or> n = 1 \<or> 2 \<le> n" by arith
  then show ?thesis
    by (auto simp: brsc_def rsc_regs_def rsc_z_def rsc_a.simps [of x n] Suc_diff_le numeral_3_eq_3 numeral_2_eq_2)
qed

lemma run_rsc:
  "run brsc zero_regs (map x [0..<n]) = (rsc_regs (rsc_a x) n, map (rsc_z (rsc_a x)) [0..<n])"
proof (induction n)
  case 0
  then show ?case by (simp add: rsc_regs_def)
next
  case (Suc n)
  then show ?case unfolding run_upt_Suc by (simp add: brsc_regs)
qed

text \<open>The tail of three steps with the feedback as its input returns the registers to zero.\<close>

definition brsc_tail :: "bregs \<Rightarrow> bool list" where
  "brsc_tail = (\<lambda>(a, b, c). [c \<noteq> b, c \<noteq> a, b \<noteq> a, b, a, a])"

lemma tcod_tail_regs: "tcod_tail (regs_of r) = ((0, 0, 0), map bit_of (brsc_tail r))"
proof -
  obtain a b c where "r = (a, b, c)" by (cases r) auto
  moreover have "[0..<3] = [0, 1, 2 :: nat]" by (simp add: upt_rec)
  ultimately show ?thesis
    by (simp add: tcod_tail_def regs_of_def brsc_tail_def rsc_step_def Let_def bit_of_xor)
qed

section \<open>The encoder on bits computes the recurrences\<close>

lemma tcod_per_fw_nth:
  assumes "idx < 188" "i < tc_cb_sizes ! idx"
  shows "tcod_per_fw idx ! i = qpp idx i"
proof -
  have "tc_cb_sizes ! idx \<le> 6144" using tc_cb_sizes_mono [of idx 187] assms(1) by (simp add: tc_cb_sizes_ends)
  then obtain h' where "srsran_tc_interl_LTE_gen_interl tcod_interl_obj (tc_cb_sizes ! idx) 1 = Some h'"
    "\<forall>i < tc_cb_sizes ! idx. il_forward h' ! i =
       deinter (tc_cb_sizes ! idx) (qpp idx (inter (tc_cb_sizes ! idx) i 1)) 1"
    using gen_tables_inverse [OF assms(1), of tcod_interl_obj 1] by (auto simp: tcod_interl_obj_def)
  then show ?thesis
    using assms qpp_less [OF assms]
    by (simp add: tcod_per_fw_def srsran_tc_interl_LTE_gen_def Let_def nth_append inter_def deinter_def)
qed

text \<open>The input element at a position as the encoder reads it: the filler counts as 0.\<close>

definition filler_bits :: "u8 list \<Rightarrow> bool" where
  "filler_bits xs \<longleftrightarrow> (\<forall>x \<in> set xs. x = 0 \<or> x = 1 \<or> x = SRSRAN_TX_NULL)"

definition sys_in :: "u8 list \<Rightarrow> nat \<Rightarrow> bool" where
  "sys_in input i \<longleftrightarrow> input ! i = 1"

definition int_in :: "nat \<Rightarrow> u8 list \<Rightarrow> nat \<Rightarrow> bool" where
  "int_in idx input i \<longleftrightarrow> input ! qpp idx i = 1"

lemma filler_bit_of: "x = 0 \<or> x = 1 \<or> x = SRSRAN_TX_NULL \<Longrightarrow> (if x = SRSRAN_TX_NULL then 0 else x) = bit_of (x = 1)"
  by auto

lemma tcod_encode_loop:
  assumes "idx < 188" "filler_bits input" "tc_cb_sizes ! idx \<le> length input" "n \<le> tc_cb_sizes ! idx"
  shows "foldl (tcod_encode_step (tcod_per_fw idx) input) ((0, 0, 0), (0, 0, 0), []) [0..<n] =
    (regs_of (rsc_regs (rsc_a (sys_in input)) n), regs_of (rsc_regs (rsc_a (int_in idx input)) n),
     concat (map (\<lambda>i. [input ! i,
       if input ! i = SRSRAN_TX_NULL then SRSRAN_TX_NULL else bit_of (rsc_z (rsc_a (sys_in input)) i),
       bit_of (rsc_z (rsc_a (int_in idx input)) i)]) [0..<n]))"
  using assms(4)
proof (induction n)
  case 0
  then show ?case by (simp add: rsc_regs_def regs_of_def)
next
  case (Suc n)
  have n: "n < tc_cb_sizes ! idx" using Suc.prems by simp
  have q: "tcod_per_fw idx ! n = qpp idx n" "qpp idx n < length input" "n < length input"
    using tcod_per_fw_nth [OF assms(1) n] qpp_less [OF assms(1) n] n assms(3) by simp_all
  have b: "(if input ! k = SRSRAN_TX_NULL then 0 else input ! k) = bit_of (input ! k = 1)" if "k < length input" for k
    using that assms(2) by (intro filler_bit_of) (simp add: filler_bits_def)
  have r1: "rsc_step (regs_of (rsc_regs (rsc_a (sys_in input)) n)) (bit_of (input ! n = 1)) =
      (regs_of (rsc_regs (rsc_a (sys_in input)) (Suc n)), bit_of (rsc_z (rsc_a (sys_in input)) n))"
    using brsc_regs [of "sys_in input" n] by (simp add: rsc_step_brsc sys_in_def)
  have r2: "rsc_step (regs_of (rsc_regs (rsc_a (int_in idx input)) n)) (bit_of (input ! qpp idx n = 1)) =
      (regs_of (rsc_regs (rsc_a (int_in idx input)) (Suc n)), bit_of (rsc_z (rsc_a (int_in idx input)) n))"
    using brsc_regs [of "int_in idx input" n] by (simp add: rsc_step_brsc int_in_def)
  have step: "tcod_encode_step (tcod_per_fw idx) input
      (regs_of (rsc_regs (rsc_a (sys_in input)) n), regs_of (rsc_regs (rsc_a (int_in idx input)) n), out) n =
    (regs_of (rsc_regs (rsc_a (sys_in input)) (Suc n)), regs_of (rsc_regs (rsc_a (int_in idx input)) (Suc n)),
     out @ [input ! n,
       if input ! n = SRSRAN_TX_NULL then SRSRAN_TX_NULL else bit_of (rsc_z (rsc_a (sys_in input)) n),
       bit_of (rsc_z (rsc_a (int_in idx input)) n)])" for out
    unfolding tcod_encode_step_def prod.case q(1) b [OF q(3)] Let_def b [OF q(2)] r1 r2 by simp
  show ?case
    unfolding foldl_upt_Suc Suc.IH [OF less_imp_le [OF n]] step by simp
qed

lemma length_concat_triples: "length (concat (map (\<lambda>i. [f i, g i, h i]) [0..<n])) = 3 * n"
  by (induction n) simp_all

lemma nth_concat_triples:
  assumes "i < n"
  shows "concat (map (\<lambda>i. [f i, g i, h i]) [0..<n]) ! (3 * i) = f i"
    "concat (map (\<lambda>i. [f i, g i, h i]) [0..<n]) ! Suc (3 * i) = g i"
    "concat (map (\<lambda>i. [f i, g i, h i]) [0..<n]) ! Suc (Suc (3 * i)) = h i"
  using assms by (induction n) (auto simp: nth_append length_concat_triples less_Suc_eq)

text \<open>The bytes the encoder writes.\<close>

definition tcod_stream :: "nat \<Rightarrow> u8 list \<Rightarrow> nat \<Rightarrow> u8 list" where
  "tcod_stream idx input n =
     concat (map (\<lambda>i. [input ! i,
       if input ! i = SRSRAN_TX_NULL then SRSRAN_TX_NULL else bit_of (rsc_z (rsc_a (sys_in input)) i),
       bit_of (rsc_z (rsc_a (int_in idx input)) i)]) [0..<n]) @
     map bit_of (brsc_tail (rsc_regs (rsc_a (sys_in input)) n) @ brsc_tail (rsc_regs (rsc_a (int_in idx input)) n))"

lemma tcod_encode_stream:
  assumes "idx < 188" "filler_bits input" "tc_cb_sizes ! idx \<le> length input" "tc_cb_sizes ! idx \<le> max_long_cb"
  shows "srsran_tcod_encode max_long_cb input output (tc_cb_sizes ! idx) =
    Some (store output 0 (tcod_stream idx input (tc_cb_sizes ! idx)))"
  using assms(4) unfolding srsran_tcod_encode_def cbindex_size [OF assms(1)]
    tcod_encode_loop [OF assms(1-3) order_refl] Let_def option.case prod.case
  by (simp add: tcod_tail_regs tcod_stream_def)

lemma length_tcod_stream [simp]: "length (tcod_stream idx input n) = 3 * n + 12"
proof -
  have "length (brsc_tail r) = 6" for r by (cases r) (simp add: brsc_tail_def)
  then show ?thesis by (simp add: tcod_stream_def length_concat_triples)
qed

text \<open>The registers the tail reads, as the recurrence cut off at position \<open>n\<close>.\<close>

lemma nth_brsc_tail:
  assumes "j < 3" "3 \<le> n"
  shows "brsc_tail (rsc_regs a n) ! (2 * j) \<longleftrightarrow>
      (n + j - 2 < n \<and> a (n + j - 2)) \<noteq> (n + j - 3 < n \<and> a (n + j - 3))"
    "brsc_tail (rsc_regs a n) ! (2 * j + 1) \<longleftrightarrow> rsc_z (\<lambda>k. k < n \<and> a k) (n + j)"
proof -
  obtain m where n: "n = Suc (Suc (Suc m))" using assms(2) by (auto simp: le_iff_add numeral_3_eq_3)
  have "j = 0 \<or> j = 1 \<or> j = 2" using assms(1) by arith
  then show "brsc_tail (rsc_regs a n) ! (2 * j) \<longleftrightarrow>
      (n + j - 2 < n \<and> a (n + j - 2)) \<noteq> (n + j - 3 < n \<and> a (n + j - 3))"
    "brsc_tail (rsc_regs a n) ! (2 * j + 1) \<longleftrightarrow> rsc_z (\<lambda>k. k < n \<and> a k) (n + j)"
    by (auto simp: n brsc_tail_def rsc_regs_def rsc_z_def numeral_3_eq_3 numeral_2_eq_2)
qed

text \<open>The systematic and the parity bit of a terminated constituent encoder at tail position \<open>j\<close>.\<close>

definition tail_sys :: "(nat \<Rightarrow> bool) \<Rightarrow> nat \<Rightarrow> nat \<Rightarrow> bool" where
  "tail_sys a n j = ((n + j - 2 < n \<and> a (n + j - 2)) \<noteq> (n + j - 3 < n \<and> a (n + j - 3)))"

definition tail_par :: "(nat \<Rightarrow> bool) \<Rightarrow> nat \<Rightarrow> nat \<Rightarrow> bool" where
  "tail_par a n j = rsc_z (\<lambda>k. k < n \<and> a k) (n + j)"

lemma length_brsc_tail [simp]: "length (brsc_tail r) = 6"
  by (cases r) (simp add: brsc_tail_def)

lemma nth_tcod_stream:
  assumes "i < n"
  shows "tcod_stream idx input n ! (3 * i) = input ! i"
    "tcod_stream idx input n ! (3 * i + 1) =
       (if input ! i = SRSRAN_TX_NULL then SRSRAN_TX_NULL else bit_of (rsc_z (rsc_a (sys_in input)) i))"
    "tcod_stream idx input n ! (3 * i + 2) = bit_of (rsc_z (rsc_a (int_in idx input)) i)"
  using assms by (simp_all add: tcod_stream_def nth_append length_concat_triples nth_concat_triples)

lemma nth_tcod_stream_tail:
  assumes "j < 3" "3 \<le> n"
  shows "tcod_stream idx input n ! (3 * n + 2 * j) = bit_of (tail_sys (rsc_a (sys_in input)) n j)"
    "tcod_stream idx input n ! (3 * n + (2 * j + 1)) = bit_of (tail_par (rsc_a (sys_in input)) n j)"
    "tcod_stream idx input n ! (3 * n + 6 + 2 * j) = bit_of (tail_sys (rsc_a (int_in idx input)) n j)"
    "tcod_stream idx input n ! (3 * n + 6 + (2 * j + 1)) = bit_of (tail_par (rsc_a (int_in idx input)) n j)"
proof -
  have j: "2 * j < 6" "2 * j + 1 < 6" "Suc (2 * j) < 6" using assms(1) by auto
  have e: "3 * n + 6 + 2 * j - 3 * n = 6 + 2 * j" "3 * n + 6 + (2 * j + 1) - 3 * n = 6 + (2 * j + 1)"
    "3 * n + 2 * j - 3 * n = 2 * j" "3 * n + (2 * j + 1) - 3 * n = 2 * j + 1" by simp_all
  note t = nth_brsc_tail [OF assms]
  show "tcod_stream idx input n ! (3 * n + 2 * j) = bit_of (tail_sys (rsc_a (sys_in input)) n j)"
    "tcod_stream idx input n ! (3 * n + (2 * j + 1)) = bit_of (tail_par (rsc_a (sys_in input)) n j)"
    "tcod_stream idx input n ! (3 * n + 6 + 2 * j) = bit_of (tail_sys (rsc_a (int_in idx input)) n j)"
    "tcod_stream idx input n ! (3 * n + 6 + (2 * j + 1)) = bit_of (tail_par (rsc_a (int_in idx input)) n j)"
    unfolding tcod_stream_def nth_append length_concat_triples e tail_sys_def tail_par_def t [symmetric]
    using j by (simp_all add: nth_append)
qed

text \<open>
  C24: the bit encoder accepts each of the 188 block sizes \<open>K\<close> that its buffers were made for, on inputs of
  bits and fillers, and writes the \<open>3 K + 12\<close> bytes TS 36.212 5.1.3.2 prescribes: at \<open>3 i\<close> the input,
  at \<open>3 i + 1\<close> the parity of the recursive encoder on the input (a filler where the input is one) and at
  \<open>3 i + 2\<close> its parity on the input permuted by the quadratic polynomial; then, for each of the two
  encoders, the three pairs of a tail bit and its parity that lead its registers back to zero. The rest
  of the output is unchanged.
\<close>

theorem tcod_encode_correct:
  assumes "idx < 188" "K = tc_cb_sizes ! idx" "filler_bits input" "K \<le> length input" "K \<le> max_long_cb"
    "3 * K + 12 \<le> length output"
  shows "\<exists>out. srsran_tcod_encode max_long_cb input output K = Some out \<and> length out = length output \<and>
    (\<forall>i < K. out ! (3 * i) = input ! i \<and>
       out ! (3 * i + 1) = (if input ! i = SRSRAN_TX_NULL then SRSRAN_TX_NULL else bit_of (rsc_z (rsc_a (sys_in input)) i)) \<and>
       out ! (3 * i + 2) = bit_of (rsc_z (rsc_a (int_in idx input)) i)) \<and>
    (\<forall>j < 3. out ! (3 * K + 2 * j) = bit_of (tail_sys (rsc_a (sys_in input)) K j) \<and>
       out ! (3 * K + (2 * j + 1)) = bit_of (tail_par (rsc_a (sys_in input)) K j) \<and>
       out ! (3 * K + 6 + 2 * j) = bit_of (tail_sys (rsc_a (int_in idx input)) K j) \<and>
       out ! (3 * K + 6 + (2 * j + 1)) = bit_of (tail_par (rsc_a (int_in idx input)) K j)) \<and>
    (\<forall>i. 3 * K + 12 \<le> i \<and> i < length output \<longrightarrow> out ! i = output ! i)"
proof -
  define out where "out = store output 0 (tcod_stream idx input K)"
  have K: "3 \<le> K" using tc_cb_sizes_pos [OF assms(1)] assms(2) by simp
  have run: "srsran_tcod_encode max_long_cb input output K = Some out"
    unfolding out_def assms(2) by (rule tcod_encode_stream) (use assms in simp_all)
  have nth: "out ! i = (if i < 3 * K + 12 then tcod_stream idx input K ! i else output ! i)" if "i < length output" for i
    using that assms(6) by (simp add: out_def nth_store)
  have len: "length out = length output" using assms(6) by (simp add: out_def length_store)
  have s: "out ! i = tcod_stream idx input K ! i" if "i < 3 * K + 12" for i using that assms(6) nth [of i] by simp
  show ?thesis
  proof (intro exI conjI allI impI)
    show "srsran_tcod_encode max_long_cb input output K = Some out" by (rule run)
    show "length out = length output" by (rule len)
    fix i assume i: "i < K"
    then have "3 * i < 3 * K + 12" "3 * i + 1 < 3 * K + 12" "3 * i + 2 < 3 * K + 12" by simp_all
    then show "out ! (3 * i) = input ! i"
      "out ! (3 * i + 1) = (if input ! i = SRSRAN_TX_NULL then SRSRAN_TX_NULL else bit_of (rsc_z (rsc_a (sys_in input)) i))"
      "out ! (3 * i + 2) = bit_of (rsc_z (rsc_a (int_in idx input)) i)"
      by (simp_all only: s nth_tcod_stream [OF i])
  next
    fix j :: nat assume j: "j < 3"
    then have "3 * K + 2 * j < 3 * K + 12" "3 * K + (2 * j + 1) < 3 * K + 12" "3 * K + 6 + 2 * j < 3 * K + 12"
      "3 * K + 6 + (2 * j + 1) < 3 * K + 12" by simp_all
    then show "out ! (3 * K + 2 * j) = bit_of (tail_sys (rsc_a (sys_in input)) K j)"
       "out ! (3 * K + (2 * j + 1)) = bit_of (tail_par (rsc_a (sys_in input)) K j)"
       "out ! (3 * K + 6 + 2 * j) = bit_of (tail_sys (rsc_a (int_in idx input)) K j)"
       "out ! (3 * K + 6 + (2 * j + 1)) = bit_of (tail_par (rsc_a (int_in idx input)) K j)"
      by (simp_all only: s nth_tcod_stream_tail [OF j K])
  next
    fix i assume "3 * K + 12 \<le> i \<and> i < length output"
    then show "out ! i = output ! i" using nth [of i] by simp
  qed
qed

theorem tcod_encode_correct_witness:
  "\<exists>out. srsran_tcod_encode 6144 (replicate 40 1) (replicate 132 0) 40 = Some out \<and> out ! (3 * 39) = 1"
  using tcod_encode_correct [of 0 40 "replicate 40 1" 6144 "replicate 132 0"]
  by (auto simp: tc_cb_sizes_ends filler_bits_def dest!: spec [of _ "39::nat"])

section \<open>The table implements the constituent encoder\<close>

definition lut_step :: "u8 \<Rightarrow> u8 \<Rightarrow> u8 \<times> u8" where
  "lut_step state b = (next_state (tcod_lut state b), lut_output (tcod_lut state b))"

definition state_of :: "u8 \<Rightarrow> bregs" where
  "state_of state = (bit state 2, bit state 1, bit state 0)"

lemma state_regs_of: "state_regs state = regs_of (state_of state)"
proof -
  have b: "bit (4 :: u8) k \<longleftrightarrow> k = 2" "bit (2 :: u8) k \<longleftrightarrow> k = 1" for k
    using bit_push_bit_1_word [where 'a = 8, of 2 k] bit_push_bit_1_word [where 'a = 8, of 1 k] by auto
  have o: "bit (bit_of x) k \<longleftrightarrow> x \<and> k = 0" for x k by (cases x) (auto simp: bit_1_iff)
  have k: "bit state (2 + k) \<and> 2 + k = 2 \<longleftrightarrow> bit state 2 \<and> k = 0"
    "bit state (1 + k) \<and> 1 + k = 1 \<longleftrightarrow> bit state 1 \<and> k = 0" for k by (cases k, simp_all del: bit_0)+
  have "drop_bit 2 (state AND 4) = bit_of (bit state 2)"
    by (rule bit_word_eqI) (simp only: bit_drop_bit_eq comp_def bit_and_iff b o k)
  moreover have "drop_bit 1 (state AND 2) = bit_of (bit state 1)"
    by (rule bit_word_eqI) (simp only: bit_drop_bit_eq comp_def bit_and_iff b o k)
  moreover have "state AND 1 = bit_of (bit state 0)" using word_and_1_bit_of [of state] by simp
  ultimately show ?thesis by (simp add: state_regs_def state_of_def regs_of_def)
qed

lemma byte_mask: "i < 8 \<Longrightarrow> (b :: u8) AND push_bit (7 - i) 1 \<noteq> 0 \<longleftrightarrow> bit b (7 - i)"
  by (simp add: and_exp_eq_0_iff_not_bit)

lemma tcod_lut_loop:
  "n \<le> 8 \<Longrightarrow> \<exists>out. foldl (tcod_lut_bit data) (regs_of r, 0) [0..<n] =
       (regs_of (fst (run brsc r (map (\<lambda>i. bit data (7 - i)) [0..<n]))), out) \<and>
     (\<forall>k. bit out k \<longleftrightarrow> k < 8 \<and> 8 - n \<le> k \<and> snd (run brsc r (map (\<lambda>i. bit data (7 - i)) [0..<n])) ! (7 - k))"
proof (induction n)
  case 0
  then show ?case by simp
next
  case (Suc n)
  let ?r = "run brsc r (map (\<lambda>i. bit data (7 - i)) [0..<n])"
  obtain out where IH: "foldl (tcod_lut_bit data) (regs_of r, 0) [0..<n] = (regs_of (fst ?r), out)"
    "\<forall>k. bit out k \<longleftrightarrow> k < 8 \<and> 8 - n \<le> k \<and> snd ?r ! (7 - k)"
    using Suc.IH Suc.prems by auto
  have n: "n < 8" using Suc.prems by simp
  have b: "(if data AND push_bit (7 - n) 1 \<noteq> 0 then 1 else 0) = bit_of (bit data (7 - n))"
    unfolding byte_mask [OF n] by simp
  let ?y = "snd (brsc (fst ?r) (bit data (7 - n)))"
  have "foldl (tcod_lut_bit data) (regs_of r, 0) [0..<Suc n] =
      (regs_of (fst (brsc (fst ?r) (bit data (7 - n)))), out OR push_bit (7 - n) (bit_of ?y))"
    unfolding foldl_upt_Suc IH(1) by (simp only: tcod_lut_bit_def prod.case b Let_def rsc_step_brsc)
  moreover have "bit (out OR push_bit (7 - n) (bit_of ?y)) k \<longleftrightarrow>
      k < 8 \<and> 8 - Suc n \<le> k \<and> (snd ?r @ [?y]) ! (7 - k)" for k
  proof -
    have "bit (push_bit (7 - n) (bit_of ?y)) k \<longleftrightarrow> k = 7 - n \<and> ?y"
      using n by (cases ?y) (auto simp: bit_push_bit_word bit_1_iff simp del: push_bit_of_1)
    moreover have "(snd ?r @ [?y]) ! (7 - k) = (if k = 7 - n then ?y else snd ?r ! (7 - k))" if "k < 8" "8 - Suc n \<le> k"
      using that n by (auto simp: nth_append)
    moreover have "8 - Suc n \<le> k \<longleftrightarrow> k = 7 - n \<or> 8 - n \<le> k" "k = 7 - n \<Longrightarrow> k < 8" "k = 7 - n \<Longrightarrow> \<not> 8 - n \<le> k"
      using n by arith+
    ultimately show ?thesis unfolding bit_or_iff IH(2) [rule_format] by (cases "k = 7 - n") auto
  qed
  ultimately show ?case unfolding run_upt_Suc fst_conv snd_conv by blast
qed

lemma state_of_bits:
  "state_of ((push_bit 2 (bit_of a) OR push_bit 1 (bit_of b) OR bit_of c) mod 8) = (a, b, c) \<and>
   unat (((push_bit 2 (bit_of a) OR push_bit 1 (bit_of b) OR bit_of c) :: u8) mod 8) < 8"
  by (cases a; cases b; cases c; simp add: state_of_def; code_simp)

lemma run_lut_byte:
  "run brsc (state_of state) (byte_bits b) =
     (state_of (fst (lut_step state b)), byte_bits (snd (lut_step state b)))"
proof -
  let ?r = "run brsc (state_of state) (map (\<lambda>i. bit b (7 - i)) [0..<8])"
  obtain out where o: "foldl (tcod_lut_bit b) (regs_of (state_of state), 0) [0..<8] = (regs_of (fst ?r), out)"
    "\<forall>k. bit out k \<longleftrightarrow> k < 8 \<and> 8 - 8 \<le> k \<and> snd ?r ! (7 - k)"
    using tcod_lut_loop [of 8 b "state_of state"] by auto
  obtain x y z where xyz: "fst ?r = (x, y, z)" by (cases "fst ?r") auto
  have "tcod_lut state b = \<lparr>next_state = (push_bit 2 (bit_of x) OR push_bit 1 (bit_of y) OR bit_of z) mod 8, lut_output = out\<rparr>"
    unfolding tcod_lut_def state_regs_of o(1) xyz Let_def prod.case unfolding regs_of_def prod.case ..
  moreover have "byte_bits out = snd ?r"
  proof (rule nth_equalityI)
    fix k assume "k < length (byte_bits out)"
    then have "k < 8" by (simp add: byte_bits_def)
    moreover from this have "7 - (7 - k) = k" "7 - k < 8" by arith+
    ultimately show "byte_bits out ! k = snd ?r ! k" using o(2) by (simp add: byte_bits_def)
  qed (simp add: byte_bits_def)
  ultimately show ?thesis
    using state_of_bits [of x y z] xyz by (simp add: lut_step_def byte_bits_def [of b] prod_eq_iff)
qed

interpretation lut: blocked_transducer brsc lut_step "\<lambda>_. True" state_of byte_bits byte_bits
  by unfold_locales (simp_all add: run_lut_byte)

lemma state_of_0 [simp]: "state_of 0 = zero_regs"
  by (simp add: state_of_def)

section \<open>The loops over bytes\<close>

lemma foldl_pair: "foldl (\<lambda>(a, b) i. (f a i, g b i)) (a, b) is = (foldl f a is, foldl g b is)"
  by (induction "is" arbitrary: a b) simp_all

lemma foldl_triple:
  "foldl (\<lambda>(a, b, c) i. (f a i, g b i, h c i)) (a, b, c) is = (foldl f a is, foldl g b is, foldl h c is)"
  by (induction "is" arbitrary: a b c) simp_all

lemma foldl_shift: "foldl (\<lambda>a i. f a (m + i)) s [0..<k] = foldl f s [m..<m + k]"
  by (induction k) simp_all

lemma foldl_update_store:
  "m + k \<le> length buf \<Longrightarrow> foldl (\<lambda>o' i. o'[m + i := f i]) buf [0..<k] = store buf m (map f [0..<k])"
proof (induction k)
  case (Suc k)
  have "(take m buf @ map f [0..<k] @ drop (m + k) buf)[m + k := f k] =
      take m buf @ map f [0..<k] @ f k # drop (Suc (m + k)) buf"
    using Suc.prems by (simp add: list_update_append min_absorb2 Cons_nth_drop_Suc [symmetric])
  then show ?case using Suc by (simp add: store_def)
qed (simp add: store_def)

lemma foldl_put_upt: "n \<le> length xs \<Longrightarrow> foldl (\<lambda>h i. f h (xs ! i)) h [0..<n] = foldl f h (take n xs)"
  by (induction n) (simp_all add: take_Suc_conv_app_nth)

text \<open>The first constituent encoder over the bytes \<open>m\<close> to \<open>n - 1\<close> of a block.\<close>

definition enc_range :: "u8 list \<Rightarrow> nat \<Rightarrow> nat \<Rightarrow> u8 \<times> u8 list \<Rightarrow> u8 \<times> u8 list" where
  "enc_range input m n sp = foldl (\<lambda>sp i. enc_byte i (input ! i) sp) sp [m..<n]"

lemma enc_range_append: "m \<le> n \<Longrightarrow> n \<le> k \<Longrightarrow> enc_range input n k (enc_range input m n sp) = enc_range input m k sp"
  using upt_add_eq_append [of m n "k - n"] by (simp add: enc_range_def)

lemma enc_range_cong: "(\<And>i. m \<le> i \<Longrightarrow> i < n \<Longrightarrow> input ! i = input' ! i) \<Longrightarrow> enc_range input m n sp = enc_range input' m n sp"
  unfolding enc_range_def by (rule foldl_cong) simp_all

lemma enc_shifted:
  assumes "\<And>i. i < k \<Longrightarrow> input ! (m + i) = B i"
  shows "foldl (\<lambda>sp i. enc_byte (m + i) (B i) sp) sp [0..<k] = enc_range input m (m + k) sp"
proof -
  have "foldl (\<lambda>sp i. enc_byte (m + i) (B i) sp) sp [0..<k] = foldl (\<lambda>sp i. enc_byte (m + i) (input ! (m + i)) sp) sp [0..<k]"
    by (rule foldl_cong) (simp_all add: assms)
  then show ?thesis by (simp add: enc_range_def foldl_shift [of "\<lambda>sp i. enc_byte i (input ! i) sp"])
qed

lemma enc_range_run:
  "n \<le> length parity \<Longrightarrow> n \<le> length input \<Longrightarrow> enc_range input 0 n (state, parity) =
     (fst (run lut_step state (take n input)), store parity 0 (snd (run lut_step state (take n input))))"
proof (induction n)
  case 0
  then show ?case by (simp add: enc_range_def)
next
  case (Suc n)
  have upd: "(ys @ drop (length ys) parity)[length ys := y] = ys @ y # drop (Suc (length ys)) parity"
    if "length ys < length parity" for ys :: "u8 list" and y
    using that by (simp add: list_update_append Cons_nth_drop_Suc [symmetric])
  have tk: "take (Suc n) input = take n input @ [input ! n]" using Suc.prems by (simp add: take_Suc_conv_app_nth)
  have IH: "foldl (\<lambda>sp i. enc_byte i (input ! i) sp) (state, parity) [0..<n] =
     (fst (run lut_step state (take n input)), store parity 0 (snd (run lut_step state (take n input))))"
    using Suc by (simp add: enc_range_def)
  have len: "length (snd (run lut_step state (take n input))) = n" using Suc.prems by simp
  then show ?case
    unfolding enc_range_def foldl_upt_Suc IH tk run_snoc
    using Suc.prems upd [of "snd (run lut_step state (take n input))"]
    by (simp add: enc_byte_def lut_step_def Let_def store_def)
qed

lemma foldl_put_order: "order (foldl srsran_crc_checksum_put_byte h is) = order h"
  by (induction "is" arbitrary: h) simp_all

text \<open>
  What the two versions of the first loop leave: \<open>m\<close> bytes of the input, the checksum \<open>bt\<close> of the
  transport block on \<open>kt\<close> bytes, the checksum \<open>bc\<close> of the code block on \<open>kc\<close> bytes.
\<close>

definition block_of :: "u8 list \<Rightarrow> nat \<Rightarrow> u8 list \<Rightarrow> u8 list \<Rightarrow> u8 list" where
  "block_of input m bt bc = take m input @ bt @ bc @ drop (m + length bt + length bc) input"

definition checksum_bytes :: "srsran_crc_t \<Rightarrow> u8 list" where
  "checksum_bytes h = map (checksum_byte (ucast (srsran_crc_checksum_get h)) (order h)) [0..<order h div 8]"

lemma enc_no_cb_block:
  assumes "order tb mod 8 = 0" "K = 8 * nb" "order tb \<le> K" "K < 2 ^ 32" "nb \<le> length input" "nb \<le> length parity"
    and "m = (if last_cb then nb - order tb div 8 else nb)"
    and "tb1 = foldl srsran_crc_checksum_put_byte tb (take m input)"
    and "input' = block_of input m (if last_cb then checksum_bytes tb1 else []) []"
  shows "enc_no_cb tb input parity K last_cb =
    (tb1, input', store parity 0 (snd (run lut_step 0 (take nb input'))), fst (run lut_step 0 (take nb input')))"
proof -
  obtain ob where ob: "order tb = 8 * ob" using assms(1) by auto
  have m: "sub32 K (if last_cb then order tb else 0) div 8 = m"
  proof -
    have "8 * nb - 8 * ob = 8 * (nb - ob)" by simp
    then show ?thesis using assms(2-4,7) ob by (simp add: sub32_le)
  qed
  have mn: "m \<le> nb" "m \<le> length input" using assms(5,7) by auto
  have k: "last_cb \<Longrightarrow> m + order tb div 8 = nb" using assms(2,3,7) ob by auto
  have o1: "order tb1 = order tb" unfolding assms(8) by (rule foldl_put_order)
  have len: "length input' = length input"
    using mn k assms(5,9) o1 by (auto simp: block_of_def checksum_bytes_def)
  obtain s1 p1 where e1: "enc_range input 0 m (0, parity) = (s1, p1)" by fastforce
  have loop1: "foldl (\<lambda>(tb, sp) i. (srsran_crc_checksum_put_byte tb (input ! i), enc_byte i (input ! i) sp))
      (tb, 0, parity) [0..<m] = (tb1, s1, p1)"
    unfolding foldl_pair foldl_put_upt [OF mn(2), where f = srsran_crc_checksum_put_byte] enc_range_def [symmetric] e1 assms(8) ..
  have loop2: "foldl (\<lambda>(input, sp) i.
        let b = checksum_byte (ucast (srsran_crc_checksum_get tb1)) (order tb1) i; idx = m + i
        in (input[idx := b], enc_byte idx b sp)) (input, s1, p1) [0..<order tb1 div 8] =
      (input', enc_range input' m nb (s1, p1))" if last_cb
  proof -
    let ?B = "checksum_byte (ucast (srsran_crc_checksum_get tb1)) (order tb1)"
    have st: "store input m (map ?B [0..<order tb1 div 8]) = input'"
      using that mn k o1 assms(5,9) by (simp add: store_def block_of_def checksum_bytes_def)
    have "input' ! (m + i) = ?B i" if "i < order tb1 div 8" for i
      using that \<open>last_cb\<close> mn by (simp add: assms(9) block_of_def checksum_bytes_def nth_append min_absorb2)
    then show ?thesis
      using foldl_update_store [of m "order tb1 div 8" input ?B] enc_shifted [of "order tb1 div 8" input' m ?B "(s1, p1)"]
        k [OF that] o1 assms(5)
      unfolding Let_def foldl_pair st [symmetric] by simp
  qed
  have e1': "enc_range input' 0 m (0, parity) = (s1, p1)"
    unfolding e1 [symmetric] using mn by (intro enc_range_cong) (simp add: assms(9) block_of_def nth_append min_absorb2)
  have "enc_range input' m nb (s1, p1) = enc_range input' 0 nb (0, parity)"
    unfolding e1' [symmetric] using mn by (intro enc_range_append) simp_all
  also have "\<dots> = (fst (run lut_step 0 (take nb input')), store parity 0 (snd (run lut_step 0 (take nb input'))))"
    using assms(5,6) len by (intro enc_range_run) simp_all
  finally have run: "enc_range input' m nb (s1, p1) = \<dots>" .
  show ?thesis
  proof (cases last_cb)
    case True
    then show ?thesis unfolding enc_no_cb_def m Let_def [of m] loop1 prod.case using loop2 [OF True] run
      by (simp add: Let_def)
  next
    case False
    then have "input' = input" "m = nb" using assms(7,9) by (simp_all add: block_of_def)
    then show ?thesis using False run unfolding enc_no_cb_def m Let_def [of m] loop1 prod.case
      by (simp add: Let_def enc_range_def)
  qed
qed

text \<open>A loop that writes checksum bytes and runs the encoder over them.\<close>

lemma checksum_loop:
  assumes "m + length bs \<le> length input"
  shows "foldl (\<lambda>(input, sp) i. (input[m + i := bs ! i], enc_byte (m + i) (bs ! i) sp)) (input, sp) [0..<length bs] =
    (store input m bs, enc_range (store input m bs) m (m + length bs) sp)"
proof -
  have "store input m (map ((!) bs) [0..<length bs]) = store input m bs" by (simp add: map_nth)
  moreover have "store input m bs ! (m + i) = bs ! i" if "i < length bs" for i
    using that assms by (simp add: nth_store)
  ultimately show ?thesis
    using foldl_update_store [OF assms, where f = "(!) bs"] enc_shifted [of "length bs" "store input m bs" m "(!) bs" sp]
    unfolding foldl_pair by simp
qed

lemma enc_crc_cb_block:
  assumes "order tb mod 8 = 0" "order cb mod 8 = 0" "K = 8 * nb" "order tb + order cb \<le> K" "K < 2 ^ 32"
    "nb \<le> length input" "nb \<le> length parity"
    and "m = (if last_cb then nb - order cb div 8 - order tb div 8 else nb - order cb div 8)"
    and "tb1 = foldl srsran_crc_checksum_put_byte tb (take m input)"
    and "bt = (if last_cb then checksum_bytes tb1 else [])"
    and "cb2 = foldl srsran_crc_checksum_put_byte cb (take m input @ bt)"
    and "input' = block_of input m bt (checksum_bytes cb2)"
  shows "enc_crc_cb tb cb input parity K last_cb =
    (tb1, cb2, input', store parity 0 (snd (run lut_step 0 (take nb input'))), fst (run lut_step 0 (take nb input')))"
proof -
  obtain ot where ot: "order tb = 8 * ot" using assms(1) by auto
  obtain oc where oc: "order cb = 8 * oc" using assms(2) by auto
  have mul: "8 * nb - 8 * oc = 8 * (nb - oc)" "8 * nb - 8 * oc - 8 * ot = 8 * (nb - oc - ot)" by simp_all
  have le: "8 * oc \<le> 8 * nb" "8 * ot \<le> 8 * nb - 8 * oc" "8 * nb < 2 ^ 32" using assms(3-5) ot oc by auto
  have m: "sub32 (sub32 K (order cb)) (if last_cb then order tb else 0) div 8 = m"
  proof -
    have "sub32 (sub32 K (order cb)) (if last_cb then order tb else 0) = 8 * m"
      using le unfolding assms(3,8) ot oc by (cases last_cb) (simp_all add: sub32_le)
    then show ?thesis by simp
  qed
  have o1: "order tb1 = order tb" "order cb2 = order cb" unfolding assms(9,11) by (rule foldl_put_order)+
  have bt: "length bt = (if last_cb then ot else 0)" using ot o1 assms(10) by (simp add: checksum_bytes_def)
  have bc: "length (checksum_bytes cb2) = oc" using oc o1 by (simp add: checksum_bytes_def)
  have mn: "m + length bt = nb - oc" "m \<le> nb" "m \<le> length input" "m + length bt \<le> length input" "oc \<le> nb"
    using assms(6,8) le ot oc bt by auto
  have k: "sub32 K (order cb2) div 8 = m + length bt" unfolding mn(1) o1 using le unfolding assms(3) oc by (simp add: sub32_le mul)
  obtain s1 p1 where e1: "enc_range input 0 m (0, parity) = (s1, p1)" by fastforce
  have loop1: "foldl (\<lambda>(tb, cb, sp) i. (srsran_crc_checksum_put_byte tb (input ! i),
        srsran_crc_checksum_put_byte cb (input ! i), enc_byte i (input ! i) sp)) (tb, cb, 0, parity) [0..<m] =
      (tb1, foldl srsran_crc_checksum_put_byte cb (take m input), s1, p1)"
    unfolding foldl_triple foldl_put_upt [OF mn(3), where f = srsran_crc_checksum_put_byte] enc_range_def [symmetric] e1 assms(9) ..
  define i2 where "i2 = store input m bt"
  have li2: "length i2 = length input" using mn by (simp add: i2_def length_store)
  obtain s2 p2 where e2: "enc_range i2 m (m + length bt) (s1, p1) = (s2, p2)" by fastforce
  have loop2: "(if last_cb then foldl (\<lambda>(cb, input, sp) i.
          let b = checksum_byte (ucast (srsran_crc_checksum_get tb1)) (order tb1) i; idx = m + i
          in (srsran_crc_checksum_put_byte cb b, input[idx := b], enc_byte idx b sp))
          (foldl srsran_crc_checksum_put_byte cb (take m input), input, s1, p1) [0..<order tb1 div 8]
        else (foldl srsran_crc_checksum_put_byte cb (take m input), input, s1, p1)) = (cb2, i2, s2, p2)"
  proof (cases last_cb)
    case True
    then have l: "order tb1 div 8 = length bt" using bt ot o1 by simp
    have B: "checksum_byte (ucast (srsran_crc_checksum_get tb1)) (order tb1) i = bt ! i" if "i < length bt" for i
      using that True l [symmetric] by (simp add: assms(10) checksum_bytes_def)
    have "foldl (\<lambda>(cb, input, sp) i.
          let b = checksum_byte (ucast (srsran_crc_checksum_get tb1)) (order tb1) i; idx = m + i
          in (srsran_crc_checksum_put_byte cb b, input[idx := b], enc_byte idx b sp))
          (foldl srsran_crc_checksum_put_byte cb (take m input), input, s1, p1) [0..<length bt] =
       foldl (\<lambda>(cb, input, sp) i. (srsran_crc_checksum_put_byte cb (bt ! i), input[m + i := bt ! i], enc_byte (m + i) (bt ! i) sp))
          (foldl srsran_crc_checksum_put_byte cb (take m input), input, s1, p1) [0..<length bt]"
      by (rule foldl_cong) (simp_all add: Let_def B split: prod.split)
    also have "\<dots> = (cb2, i2, s2, p2)"
    proof -
      have "foldl (\<lambda>h i. srsran_crc_checksum_put_byte h (bt ! i)) (foldl srsran_crc_checksum_put_byte cb (take m input)) [0..<length bt] = cb2"
        unfolding foldl_put_upt [OF order_refl, where f = srsran_crc_checksum_put_byte] assms(11) by simp
      moreover have "foldl (\<lambda>input i. input[m + i := bt ! i]) input [0..<length bt] = i2"
        and "foldl (\<lambda>sp i. enc_byte (m + i) (bt ! i) sp) (s1, p1) [0..<length bt] = (s2, p2)"
        using checksum_loop [OF mn(4), of "(s1, p1)"] unfolding foldl_pair i2_def [symmetric] e2 by (simp_all only: prod.inject)
      ultimately show ?thesis unfolding foldl_triple by (simp only:)
    qed
    finally show ?thesis using True l by simp
  next
    case False
    then have "bt = []" using assms(10) by simp
    then show ?thesis using False e2 by (simp add: assms(11) i2_def enc_range_def)
  qed
  have loop3: "foldl (\<lambda>(input, sp) i.
          let b = checksum_byte (ucast (srsran_crc_checksum_get cb2)) (order cb2) i; idx = m + length bt + i
          in (input[idx := b], enc_byte idx b sp)) (i2, s2, p2) [0..<order cb2 div 8] =
      (input', enc_range input' (m + length bt) nb (s2, p2))"
  proof -
    have l: "order cb2 div 8 = length (checksum_bytes cb2)" by (simp add: checksum_bytes_def)
    have st: "store i2 (m + length bt) (checksum_bytes cb2) = input'"
      using mn(3,4) by (simp add: i2_def store_def assms(12) block_of_def min_absorb2 ac_simps)
    have fit: "m + length bt + length (checksum_bytes cb2) \<le> length i2" "m + length bt + length (checksum_bytes cb2) = nb"
      using mn assms(6) bc li2 by simp_all
    have "foldl (\<lambda>(input, sp) i.
          let b = checksum_byte (ucast (srsran_crc_checksum_get cb2)) (order cb2) i; idx = m + length bt + i
          in (input[idx := b], enc_byte idx b sp)) (i2, s2, p2) [0..<length (checksum_bytes cb2)] =
      foldl (\<lambda>(input, sp) i. (input[m + length bt + i := checksum_bytes cb2 ! i],
          enc_byte (m + length bt + i) (checksum_bytes cb2 ! i) sp)) (i2, s2, p2) [0..<length (checksum_bytes cb2)]"
      by (rule foldl_cong) (auto simp: checksum_bytes_def Let_def)
    then show ?thesis using checksum_loop [OF fit(1), of "(s2, p2)"] fit(2) by (simp add: st l)
  qed
  have nth: "i < m \<Longrightarrow> input' ! i = input ! i" "i < m + length bt \<Longrightarrow> input' ! i = i2 ! i" for i
    using mn by (auto simp: assms(12) block_of_def i2_def store_def nth_append min_absorb2)
  have "enc_range input' 0 m (0, parity) = (s1, p1)"
    unfolding e1 [symmetric] by (rule enc_range_cong) (simp add: nth)
  moreover have "enc_range input' m (m + length bt) (s1, p1) = (s2, p2)"
    unfolding e2 [symmetric] by (rule enc_range_cong) (simp add: nth)
  ultimately have "enc_range input' (m + length bt) nb (s2, p2) = enc_range input' 0 nb (0, parity)"
    using enc_range_append [of 0 m "m + length bt" input' "(0, parity)"]
      enc_range_append [of 0 "m + length bt" nb input' "(0, parity)"] mn by simp
  also have "\<dots> = (fst (run lut_step 0 (take nb input')), store parity 0 (snd (run lut_step 0 (take nb input'))))"
    using assms(6,7) mn bc by (intro enc_range_run) (simp_all add: assms(12) block_of_def)
  finally have run: "enc_range input' (m + length bt) nb (s2, p2) = \<dots>" .
  show ?thesis
    unfolding enc_crc_cb_def m Let_def [of m] loop1 Let_def [of "(a, b)" for a b] prod.case
    unfolding Let_def [of "ucast (srsran_crc_checksum_get tb1) :: u32"] loop2 Let_def [of "(a, b)" for a b] prod.case
    unfolding Let_def [of "ucast (srsran_crc_checksum_get cb2) :: u32"] k loop3 run by simp
qed

section \<open>The table-driven encoder computes the same stream\<close>

lemma bit_high_nibble: "bit (drop_bit 4 (out AND 0xf0) :: u8) k \<longleftrightarrow> k < 4 \<and> bit out (k + 4)"
proof -
  have "(0xf0 :: u8) = push_bit 4 (mask 4)" by (simp add: mask_numeral)
  then have "bit (0xf0 :: u8) (4 + k) \<longleftrightarrow> k < 4"
    by (simp only: bit_push_bit_word bit_mask_iff) (auto simp: possible_bit_word)
  then show ?thesis by (simp only: bit_drop_bit_eq comp_def bit_and_iff) (auto simp only: add.commute)
qed

lemma bit_low_nibble: "bit (push_bit 4 (out AND 0xf) :: u8) k \<longleftrightarrow> 4 \<le> k \<and> k < 8 \<and> bit out (k - 4)"
proof -
  have "(0xf :: u8) = mask 4" by (simp add: mask_numeral)
  then have "bit (0xf :: u8) (k - 4) \<longleftrightarrow> k - 4 < 4"
    by (simp only: bit_mask_iff) (auto simp: possible_bit_word)
  then show ?thesis by (simp only: bit_push_bit_word bit_and_iff) auto
qed

lemma packed_bit_byte: "j < 8 \<Longrightarrow> packed_bit xs (8 * i + j) = bit (xs ! i) (7 - j)"
  by (simp add: packed_bit_def div_add1_eq)

lemma bytes_bits_eq:
  assumes "\<And>p. p < 8 * length bs \<Longrightarrow> packed_bit bs p = f p"
  shows "concat (map byte_bits bs) = map f [0..<8 * length bs]"
  by (rule nth_equalityI) (simp_all add: nth_concat_byte_bits assms)

lemma packed_bit_take: "p < 8 * n \<Longrightarrow> packed_bit (take n xs) p = packed_bit xs p"
  by (simp add: packed_bit_def less_mult_imp_div_less mult.commute)

text \<open>The second parity stream starts in the middle of byte \<open>N\<close>.\<close>

definition second_step :: "u8 list \<Rightarrow> nat \<Rightarrow> u8 \<times> u8 list \<Rightarrow> nat \<Rightarrow> u8 \<times> u8 list" where
  "second_step temp N = (\<lambda>(state, parity) i.
     let l = tcod_lut state (temp ! i); out = lut_output l;
         parity' = parity[N + i := parity ! (N + i) OR drop_bit 4 (out AND 0xf0)]
     in (next_state l, parity'[N + i + 1 := push_bit 4 (out AND 0xf)]))"

lemma enc_second_step: "enc_second temp parity n = foldl (second_step temp n) (0, parity) [0..<n]"
  by (simp add: enc_second_def second_step_def)

lemma second_loop:
  assumes "N < length par" "par ! N = 0" "m \<le> length temp" "N + m < length par"
  shows "\<exists>R. foldl (second_step temp N) (0, par) [0..<m] = (fst (run lut_step 0 (take m temp)), R) \<and> length R = length par \<and>
    (\<forall>p < 8 * (N + m + 1). packed_bit R p \<longleftrightarrow>
       (if p < 8 * N then packed_bit par p
        else 8 * N + 4 \<le> p \<and> p < 8 * N + 4 + 8 * m \<and> packed_bit (snd (run lut_step 0 (take m temp))) (p - 8 * N - 4)))"
  using assms(3,4)
proof (induction m)
  case 0
  have "packed_bit par p \<longleftrightarrow> p < 8 * N \<and> packed_bit par p" if "p < 8 * (N + 1)" for p
  proof -
    obtain i j where p: "p = 8 * i + j" "j < 8" "p div 8 = i" "p mod 8 = j" by (rule div8E)
    then have "i < N \<or> i = N" using that by auto
    then show ?thesis using p assms(2) by (auto simp: packed_bit_def)
  qed
  then show ?case by auto
next
  case (Suc m)
  let ?r = "run lut_step 0 (take m temp)"
  obtain R where R: "foldl (second_step temp N) (0, par) [0..<m] = (fst ?r, R)" "length R = length par"
    "\<forall>p < 8 * (N + m + 1). packed_bit R p \<longleftrightarrow> (if p < 8 * N then packed_bit par p
        else 8 * N + 4 \<le> p \<and> p < 8 * N + 4 + 8 * m \<and> packed_bit (snd ?r) (p - 8 * N - 4))"
    using Suc by auto
  define out where "out = snd (lut_step (fst ?r) (temp ! m))"
  define R' where "R' = R[N + m := R ! (N + m) OR drop_bit 4 (out AND 0xf0), N + m + 1 := push_bit 4 (out AND 0xf)]"
  have tk: "take (Suc m) temp = take m temp @ [temp ! m]" using Suc.prems by (simp add: take_Suc_conv_app_nth)
  have r': "run lut_step 0 (take (Suc m) temp) = (fst (lut_step (fst ?r) (temp ! m)), snd ?r @ [out])"
    by (simp add: tk run_snoc out_def)
  have step: "foldl (second_step temp N) (0, par) [0..<Suc m] = (fst (lut_step (fst ?r) (temp ! m)), R')"
    unfolding foldl_upt_Suc R(1) by (simp add: second_step_def R'_def out_def lut_step_def Let_def)
  have len: "length (snd ?r) = m" using Suc.prems by simp
  have B: "packed_bit (snd ?r @ [out]) q = (if q < 8 * m then packed_bit (snd ?r) q else bit out (7 - (q - 8 * m)))"
    if "q < 8 * Suc m" for q
  proof -
    obtain i j where q: "q = 8 * i + j" "j < 8" "q div 8 = i" "q mod 8 = j" by (rule div8E)
    then have "i < m \<or> i = m" using that by auto
    then show ?thesis using q len by (auto simp: packed_bit_def nth_append)
  qed
  have R'nth: "R' ! i = (if i = N + m + 1 then push_bit 4 (out AND 0xf)
      else if i = N + m then R ! i OR drop_bit 4 (out AND 0xf0) else R ! i)" if "i \<le> N + m + 1" for i
    using that Suc.prems R(2) by (simp add: R'_def nth_list_update)
  have "packed_bit R' p \<longleftrightarrow> (if p < 8 * N then packed_bit par p
        else 8 * N + 4 \<le> p \<and> p < 8 * N + 4 + 8 * Suc m \<and> packed_bit (snd ?r @ [out]) (p - 8 * N - 4))"
    if p8: "p < 8 * (N + Suc m + 1)" for p
  proof -
    obtain i j where p: "p = 8 * i + j" "j < 8" "p div 8 = i" "p mod 8 = j" by (rule div8E)
    have pb: "packed_bit xs p = bit (xs ! i) (7 - j)" for xs by (simp add: packed_bit_def p)
    have IH: "packed_bit R p \<longleftrightarrow> (if p < 8 * N then packed_bit par p
        else 8 * N + 4 \<le> p \<and> p < 8 * N + 4 + 8 * m \<and> packed_bit (snd ?r) (p - 8 * N - 4))" if "i < N + m + 1"
    proof -
      have "i + 1 \<le> N + m + 1" using that by simp
      then have "8 * (i + 1) \<le> 8 * (N + m + 1)" by (rule mult_le_mono2)
      then have "p < 8 * (N + m + 1)" using p(1,2) by simp
      then show ?thesis by (rule R(3) [rule_format])
    qed
    have "8 * i < 8 * (N + Suc m + 1)" using p8 p(1) by simp
    then have "i < N + m \<or> i = N + m \<or> i = N + m + 1" unfolding mult_less_cancel1 by auto
    then consider (before) "i < N + m" | (here) "i = N + m" | (next_byte) "i = N + m + 1" by blast
    then show ?thesis
    proof cases
      case before
      then have q: "8 * N + 4 \<le> p \<Longrightarrow> p - 8 * N - 4 < 8 * m" "p < 8 * N + 4 + 8 * m" using p by arith+
      have "packed_bit R' p = packed_bit R p" using before by (simp add: pb R'nth)
      then show ?thesis using IH before q B [of "p - 8 * N - 4"] by (cases "8 * N + 4 \<le> p") auto
    next
      case here
      have "packed_bit R' p \<longleftrightarrow> packed_bit R p \<or> 4 \<le> j \<and> bit out (11 - j)"
      proof -
        have "R' ! i = R ! i OR drop_bit 4 (out AND 0xf0)" using here R'nth [of i] by simp
        moreover have "7 - j < 4 \<longleftrightarrow> 4 \<le> j" "4 \<le> j \<Longrightarrow> 7 - j + 4 = 11 - j" using p(2) by arith+
        ultimately show ?thesis unfolding pb by (auto simp only: bit_or_iff bit_high_nibble)
      qed
      moreover have "4 \<le> j \<Longrightarrow> 7 - (p - 8 * N - 4 - 8 * m) = 11 - j" using here p(1,2) by simp
      moreover have "4 \<le> j \<longleftrightarrow> 8 * N + 4 + 8 * m \<le> p" "\<not> p < 8 * N" "p < 8 * N + 4 + 8 * Suc m" "p - 8 * N - 4 < 8 * Suc m"
        using here p(1,2) by auto
      moreover have "packed_bit R p \<longleftrightarrow> 8 * N + 4 \<le> p \<and> p < 8 * N + 4 + 8 * m \<and> packed_bit (snd ?r) (p - 8 * N - 4)"
        using IH here p(1,2) by simp
      moreover have "4 \<le> j \<Longrightarrow> \<not> p - 8 * N - 4 < 8 * m" "\<not> 4 \<le> j \<Longrightarrow> 8 * N + 4 \<le> p \<Longrightarrow> p - 8 * N - 4 < 8 * m"
        "p < 8 * N + 4 + 8 * m \<longleftrightarrow> \<not> 4 \<le> j" using here p(1,2) by auto
      ultimately show ?thesis using B [of "p - 8 * N - 4"] by (cases "4 \<le> j"; cases "8 * N + 4 \<le> p"; simp only: if_False if_True simp_thms)
    next
      case next_byte
      have "packed_bit R' p \<longleftrightarrow> j < 4 \<and> bit out (3 - j)"
      proof -
        have "R' ! i = push_bit 4 (out AND 0xf)" using next_byte R'nth [of i] by simp
        moreover have "4 \<le> 7 - j \<longleftrightarrow> j < 4" "j < 4 \<Longrightarrow> 7 - j - 4 = 3 - j" "7 - j < 8" using p(2) by arith+
        ultimately show ?thesis unfolding pb by (auto simp only: bit_low_nibble)
      qed
      moreover have "j < 4 \<Longrightarrow> 7 - (p - 8 * N - 4 - 8 * m) = 3 - j" using next_byte p(1,2) by simp
      moreover have "j < 4 \<longleftrightarrow> p < 8 * N + 4 + 8 * Suc m" "\<not> p < 8 * N" "8 * N + 4 \<le> p" "\<not> p - 8 * N - 4 < 8 * m"
        "j < 4 \<Longrightarrow> p - 8 * N - 4 < 8 * Suc m"
        using next_byte p(1,2) by auto
      ultimately show ?thesis using B [of "p - 8 * N - 4"] by auto
    qed
  qed
  then show ?case unfolding step r' by (auto simp: R'_def R(2))
qed

lemma tc_cb_sizes_bytes: "idx < 188 \<Longrightarrow> tc_cb_sizes ! idx mod 8 = 0"
proof -
  have "list_all (\<lambda>k. k mod 8 = 0) tc_cb_sizes" by (simp add: tc_cb_sizes_def)
  then show "idx < 188 \<Longrightarrow> ?thesis" by (simp add: list_all_length)
qed

text \<open>Bit \<open>3 - i\<close> of the nibble \<open>j\<close> of the tail is element \<open>3 i + j\<close>.\<close>

lemma bit_pack4:
  assumes "length bs = 12" "j < 3"
  shows "bit (pack4 (map bit_of bs) j) k \<longleftrightarrow> k < 4 \<and> bs ! (3 * (3 - k) + j)"
proof -
  let ?xs = "map (\<lambda>i. map bit_of bs ! (3 * i + j)) [0..<4]"
  have xs: "?xs = map (\<lambda>i. bit_of (bs ! (3 * i + j))) [0..<4]" using assms by (intro map_cong) auto
  have u: "unpacked_bits ?xs" unfolding xs by (rule unpacked_bits_mapI) auto
  have "bit (pack4 (map bit_of bs) j) k \<longleftrightarrow> k < 8 \<and> bit (bits_word ?xs 4 :: u32) k"
    by (auto simp: pack4_def srsran_bit_pack_word bit_ucast_iff)
  also have "\<dots> \<longleftrightarrow> k < 4 \<and> ?xs ! (4 - k - 1) = 1" using u by (auto simp: bit_bits_word)
  also have "\<dots> \<longleftrightarrow> k < 4 \<and> bs ! (3 * (3 - k) + j)"
    unfolding xs by (auto simp: bit_of_def)
  finally show ?thesis .
qed

lemma bit_low_mask: "bit (x AND 0xf :: u8) k \<longleftrightarrow> k < 4 \<and> bit x k"
proof -
  have "(0xf :: u8) = mask 4" by (simp add: mask_numeral)
  then have "x AND 0xf = take_bit 4 x" by (simp only: take_bit_eq_mask)
  then show ?thesis by (simp add: bit_take_bit_iff)
qed

definition lut_tail :: "u8 \<Rightarrow> u8 \<Rightarrow> u8 list" where
  "lut_tail state0 state1 = snd (tcod_tail (state_regs state0)) @ snd (tcod_tail (state_regs state1))"

lemma lut_tail_bits:
  "lut_tail state0 state1 = map bit_of (brsc_tail (state_of state0) @ brsc_tail (state_of state1))"
  by (simp add: lut_tail_def state_regs_of tcod_tail_regs)

lemma nth_tcod_stream_end:
  "i < 12 \<Longrightarrow> tcod_stream idx input n ! (3 * n + i) =
     bit_of ((brsc_tail (rsc_regs (rsc_a (sys_in input)) n) @ brsc_tail (rsc_regs (rsc_a (int_in idx input)) n)) ! i)"
  by (simp add: tcod_stream_def nth_append length_concat_triples)

text \<open>The arrays the encoder leaves when the first constituent encoder has run over \<open>input1\<close>.\<close>

definition lut_outputs :: "nat \<Rightarrow> nat \<Rightarrow> u8 list \<Rightarrow> u8 list \<Rightarrow> u8 \<Rightarrow> u8 list \<Rightarrow> u8 list \<times> u8 list \<times> u8 list" where
  "lut_outputs idx long_cb input1 parity1 state0 temp =
     (let parity2 = parity1[long_cb div 8 := 0];
          temp' = srsran_bit_interleaver_run (tcod_interleavers idx) input1 temp 0;
          (state1, parity3) = enc_second temp' parity2 (long_cb div 8);
          tail = lut_tail state0 state1;
          input2 = input1[long_cb div 8 := push_bit 4 (pack4 tail 0)];
          parity4 = parity3[long_cb div 8 := parity3 ! (long_cb div 8) OR push_bit 4 (pack4 tail 1)];
          parity5 = parity4[2 * long_cb div 8 := parity4 ! (2 * long_cb div 8) OR (pack4 tail 2 AND 0xf)]
      in (temp', input2, parity5))"

text \<open>The constituent encoder over the bytes of a block whose bits are \<open>x\<close>.\<close>

lemma lut_run_rsc:
  assumes "K = 8 * nb" "nb \<le> length bs" "\<And>p. p < K \<Longrightarrow> packed_bit bs p = x p"
  shows "state_of (fst (run lut_step 0 (take nb bs))) = rsc_regs (rsc_a x) K"
    "p < K \<Longrightarrow> packed_bit (snd (run lut_step 0 (take nb bs))) p = rsc_z (rsc_a x) p"
proof -
  have "concat (map byte_bits (take nb bs)) = map x [0..<8 * length (take nb bs)]"
    using assms by (intro bytes_bits_eq) (simp add: packed_bit_take)
  then have "concat (map byte_bits (take nb bs)) = map x [0..<K]" using assms(1,2) by (simp add: min_absorb2)
  then have r: "(state_of (fst (run lut_step 0 (take nb bs))), concat (map byte_bits (snd (run lut_step 0 (take nb bs))))) =
      (rsc_regs (rsc_a x) K, map (rsc_z (rsc_a x)) [0..<K])"
    using lut.run_blocks [of 0 "take nb bs"] run_rsc [of x K] by simp
  then show "state_of (fst (run lut_step 0 (take nb bs))) = rsc_regs (rsc_a x) K" by simp
  have "length (snd (run lut_step 0 (take nb bs))) = nb" using assms(2) by simp
  then show "p < K \<Longrightarrow> packed_bit (snd (run lut_step 0 (take nb bs))) p = rsc_z (rsc_a x) p"
    using r nth_concat_byte_bits [of p "snd (run lut_step 0 (take nb bs))"] assms(1) by simp
qed

lemma length_interleaver_run [simp]: "length (srsran_bit_interleaver_run q input out w_offset) = length out"
proof -
  have h: "length (snd (snd (interleave_head input out il w))) = length out" for il w
    by (simp add: interleave_head_def)
  have t: "length (interleave_tail input o' il n w) = length o'" for o' il n w
    by (simp add: interleave_tail_def Let_def)
  show ?thesis using h [of "il_interleaver q" w_offset]
    by (auto simp: srsran_bit_interleaver_run_def t Let_def split: prod.split)
qed

text \<open>Setting the tail nibbles in the parity array.\<close>

lemma packed_bit_nibbles:
  assumes "0 < nb" "2 * nb < length par"
    and "par' = par[nb := par ! nb OR push_bit 4 hi, 2 * nb := par[nb := par ! nb OR push_bit 4 hi] ! (2 * nb) OR (lo AND 0xf)]"
    and "q = 8 * i + j" "j < 8"
  shows "packed_bit par' q \<longleftrightarrow> packed_bit par q \<or> i = nb \<and> j < 4 \<and> bit hi (3 - j) \<or> i = 2 * nb \<and> 4 \<le> j \<and> bit lo (7 - j)"
proof -
  have "par' ! i = (if i = 2 * nb then par ! i OR (lo AND 0xf) else if i = nb then par ! i OR push_bit 4 hi else par ! i)"
    unfolding assms(3) using assms(1,2) by (simp add: nth_list_update)
  moreover have "7 - j < 4 \<longleftrightarrow> 4 \<le> j" "4 \<le> 7 - j \<longleftrightarrow> j < 4" "7 - j - 4 = 3 - j" "7 - j < LENGTH(8)" using assms(5) by auto
  ultimately show ?thesis
    unfolding assms(4) packed_bit_byte [OF assms(5)] using assms(1)
    by (auto simp only: bit_or_iff bit_low_mask bit_push_bit_word len_num1 split: if_splits)
qed

lemma lut_outputs_stream:
  assumes "idx < 188" "K = tc_cb_sizes ! idx" "K = 8 * nb" "nb < length input1" "2 * nb < length parity" "nb \<le> length temp"
    and "parity1 = store parity 0 (snd (run lut_step 0 (take nb input1)))" "state0 = fst (run lut_step 0 (take nb input1))"
    and "lut_outputs idx K input1 parity1 state0 temp = (temp', input2, parity5)" and "p < K + 4"
  defines "S \<equiv> tcod_stream idx (srsran_bit_unpack_vector input2 K) K"
  shows "S ! (3 * p) = bit_of (packed_bit input2 p) \<and> S ! (3 * p + 1) = bit_of (packed_bit parity5 p) \<and>
    S ! (3 * p + 2) = bit_of (packed_bit parity5 (K + 4 + p))"
proof -
  let ?in = "srsran_bit_unpack_vector input2 K"
  let ?a1 = "rsc_a (sys_in ?in)" and ?a2 = "rsc_a (int_in idx ?in)"
  have d: "K div 8 = nb" "2 * K div 8 = 2 * nb" unfolding assms(3) by simp_all
  have nb: "5 \<le> nb" using tc_cb_sizes_pos [OF assms(1)] assms(2,3) by simp
  have K32: "K < 2 ^ 32" using tc_cb_sizes_mono [of idx 187] assms(1,2) by (simp add: tc_cb_sizes_ends)
  obtain state1 parity3 where s2: "enc_second (srsran_bit_interleaver_run (tcod_interleavers idx) input1 temp 0) (parity1[nb := 0]) nb = (state1, parity3)"
    by fastforce
  let ?tail = "lut_tail state0 state1"
  have temp': "temp' = srsran_bit_interleaver_run (tcod_interleavers idx) input1 temp 0"
    and input2: "input2 = input1[nb := push_bit 4 (pack4 ?tail 0)]"
    and parity5: "parity5 = parity3[nb := parity3 ! nb OR push_bit 4 (pack4 ?tail 1),
      2 * nb := parity3[nb := parity3 ! nb OR push_bit 4 (pack4 ?tail 1)] ! (2 * nb) OR (pack4 ?tail 2 AND 0xf)]"
    using assms(9) unfolding lut_outputs_def d Let_def s2 prod.case by simp_all
  have in1: "packed_bit input2 p = packed_bit input1 p" if "p < K" for p
  proof -
    obtain i j where p: "p = 8 * i + j" "j < 8" by (rule div8E)
    then have "8 * i < 8 * nb" using that assms(3) by simp
    then show ?thesis unfolding p(1) packed_bit_byte [OF p(2)] input2 by simp
  qed
  have sys: "packed_bit input1 p = sys_in ?in p" if "p < K" for p
    using that by (simp add: sys_in_def in1 bit_of_def)
  have tmp: "packed_bit temp' p = int_in idx ?in p" if "p < K" for p
  proof -
    have "packed_bit temp' p = packed_bit (srsran_bit_interleave input1 temp (tcod_per_fw idx) K) p"
      unfolding temp' tcod_interleavers_def assms(2) [symmetric] srsran_bit_interleave_def
      using K32 by (simp add: interleaver_run_eq)
    also have "\<dots> = packed_bit input1 (qpp idx p)"
      using that K32 assms(2,3,6) interleave_correct [of K temp p input1 "tcod_per_fw idx"] tcod_per_fw_nth [OF assms(1), of p] by simp
    also have "\<dots> = int_in idx ?in p"
      using qpp_less [OF assms(1), of p] that assms(2) by (simp add: int_in_def in1 bit_of_def)
    finally show ?thesis .
  qed
  have r1: "state_of state0 = rsc_regs ?a1 K"
    "\<And>p. p < K \<Longrightarrow> packed_bit (snd (run lut_step 0 (take nb input1))) p = rsc_z ?a1 p"
    unfolding assms(8) using lut_run_rsc [OF assms(3) less_imp_le [OF assms(4)] sys] by simp_all
  have lt: "nb \<le> length temp'" using assms(6) by (simp add: temp')
  note r2 = lut_run_rsc [OF assms(3) lt tmp]
  have l1: "length parity1 = length parity" using assms(4,5) by (simp add: assms(7) length_store)
  obtain R where R: "foldl (second_step temp' nb) (0, parity1[nb := 0]) [0..<nb] = (fst (run lut_step 0 (take nb temp')), R)"
      "length R = length (parity1[nb := 0])"
      "\<forall>p < 8 * (nb + nb + 1). packed_bit R p \<longleftrightarrow> (if p < 8 * nb then packed_bit (parity1[nb := 0]) p
        else 8 * nb + 4 \<le> p \<and> p < 8 * nb + 4 + 8 * nb \<and> packed_bit (snd (run lut_step 0 (take nb temp'))) (p - 8 * nb - 4))"
    using second_loop [of nb "parity1[nb := 0]" nb temp'] lt l1 assms(5) by auto
  have s1: "state_of state1 = rsc_regs ?a2 K" and p3: "parity3 = R"
    using s2 R(1) r2(1) unfolding enc_second_step temp' [symmetric] by auto
  have par: "packed_bit (parity1[nb := 0]) p = rsc_z ?a1 p" if "p < K" for p
  proof -
    obtain i j where p: "p = 8 * i + j" "j < 8" by (rule div8E)
    then have "8 * i < 8 * nb" using that assms(3) by simp
    then have "packed_bit (parity1[nb := 0]) p = packed_bit (snd (run lut_step 0 (take nb input1))) p"
      unfolding p(1) packed_bit_byte [OF p(2)] assms(7) using assms(4,5) by (simp add: nth_store)
    then show ?thesis using r1(2) that by simp
  qed
  have T: "bit (pack4 ?tail j) k \<longleftrightarrow> k < 4 \<and> (brsc_tail (rsc_regs ?a1 K) @ brsc_tail (rsc_regs ?a2 K)) ! (3 * (3 - k) + j)"
    if "j < 3" for j k
    using bit_pack4 [of "brsc_tail (rsc_regs ?a1 K) @ brsc_tail (rsc_regs ?a2 K)" j k] that
    by (simp only: lut_tail_bits r1(1) s1) simp
  have nib: "packed_bit parity5 q \<longleftrightarrow> packed_bit parity3 q \<or> i = nb \<and> j < 4 \<and> bit (pack4 ?tail 1) (3 - j) \<or>
      i = 2 * nb \<and> 4 \<le> j \<and> bit (pack4 ?tail 2) (7 - j)" if "q = 8 * i + j" "j < 8" for q i j
    by (rule packed_bit_nibbles [OF _ _ parity5 that]) (use nb assms(5) l1 R(2) p3 in simp_all)
  have Rn: "packed_bit R q \<longleftrightarrow> (if q < K then rsc_z ?a1 q else K + 4 \<le> q \<and> q < 2 * K + 4 \<and> rsc_z ?a2 (q - K - 4))"
    if "q < 2 * K + 8" for q
    using R(3) [rule_format, of q] that r2(2) [of "q - K - 4"] par [of q] unfolding assms(3) by auto
  show ?thesis
  proof (cases "p < K")
    case True
    have S: "S ! (3 * p) = bit_of (sys_in ?in p)" "S ! (3 * p + 1) = bit_of (rsc_z ?a1 p)" "S ! (3 * p + 2) = bit_of (rsc_z ?a2 p)"
      using True unfolding S_def nth_tcod_stream [OF True] by (simp_all add: sys_in_def bit_of_def)
    obtain i j where p: "p = 8 * i + j" "j < 8" by (rule div8E)
    obtain i' j' where p': "K + 4 + p = 8 * i' + j'" "j' < 8" by (rule div8E)
    have "8 * i < 8 * nb" using True p(1) assms(3) by simp
    then have "packed_bit parity5 p = packed_bit R p" using nib [OF p] nb p3 by auto
    moreover have "i' = nb \<Longrightarrow> \<not> j' < 4" "i' = 2 * nb \<Longrightarrow> \<not> 4 \<le> j'" using p' True assms(3) by auto
    then have "packed_bit parity5 (K + 4 + p) = packed_bit R (K + 4 + p)" using nib [OF p'] p3 by auto
    ultimately show ?thesis unfolding S using True by (simp add: Rn in1 sys)
  next
    case False
    obtain i where p: "p = K + i" "i < 4" using False assms(10) by (metis add_less_cancel_left le_iff_add not_less)
    let ?T = "brsc_tail (rsc_regs ?a1 K) @ brsc_tail (rsc_regs ?a2 K)"
    have i8: "i < 8" "4 + i < 8" "3 - (3 - i) = i" "3 - i < 4" "7 - (4 + i) = 3 - i" "\<not> 4 \<le> i"
      "4 \<le> 7 - i" "7 - i < 8" "7 - i - 4 = 3 - i" using p(2) by auto
    have S: "S ! (3 * p) = bit_of (?T ! (3 * i))" "S ! (3 * p + 1) = bit_of (?T ! (3 * i + 1))" "S ! (3 * p + 2) = bit_of (?T ! (3 * i + 2))"
      using nth_tcod_stream_end [of "3 * i" idx ?in K] nth_tcod_stream_end [of "3 * i + 1" idx ?in K]
        nth_tcod_stream_end [of "3 * i + 2" idx ?in K] p(2) by (simp_all add: S_def p(1) algebra_simps)
    have pack: "bit (pack4 ?tail j) (3 - i) = ?T ! (3 * i + j)" if "j < 3" for j using T [OF that, of "3 - i"] i8 by simp
    have "packed_bit input2 (8 * nb + i) = bit (pack4 ?tail 0) (3 - i)"
      unfolding packed_bit_byte [OF i8(1)] input2 using assms(4) i8 by (simp add: bit_push_bit_word)
    moreover have "packed_bit parity5 (8 * nb + i) = bit (pack4 ?tail 1) (3 - i)"
      using nib [OF refl i8(1), of nb] Rn [of "8 * nb + i"] nb p(2) assms(3) i8 p3 by auto
    moreover have "packed_bit parity5 (8 * (2 * nb) + (4 + i)) = bit (pack4 ?tail 2) (3 - i)"
      using nib [OF refl i8(2), of "2 * nb"] Rn [of "8 * (2 * nb) + (4 + i)"] nb p(2) assms(3) i8 p3 by auto
    moreover have "p = 8 * nb + i" "K + 4 + p = 8 * (2 * nb) + (4 + i)" using p(1) assms(3) by simp_all
    ultimately show ?thesis unfolding S using pack [of 0] pack [of 1] pack [of 2] by simp
  qed
qed

section \<open>Checksums attached on the way\<close>

lemma ucast_and_ff: "ucast (x AND 0xff :: u32) = (ucast x :: u8)"
proof (rule bit_word_eqI)
  fix k assume k: "k < LENGTH(8)"
  have "(0xff :: u32) = mask 8" by (simp add: mask_numeral)
  then have "bit (0xff :: u32) k" using k by (simp only: bit_mask_iff possible_bit_word) simp
  then show "bit (ucast (x AND 0xff :: u32) :: u8) k = bit (ucast x :: u8) k" by (simp only: bit_ucast_iff bit_and_iff) simp
qed

lemma checksum_bytes_remainder:
  assumes "crc_inv h" "crcinit h = 0" "order h mod 8 = 0"
  shows "crc_spec h (concat (map byte_bits (bs @ checksum_bytes (foldl srsran_crc_checksum_put_byte h bs)))) = 0"
proof -
  obtain m where m: "order h = 8 * m" using assms(3) by auto
  let ?bits = "concat (map byte_bits bs)" and ?h = "foldl srsran_crc_checksum_put_byte h bs"
  let ?c = "crc_spec h ?bits"
  have get: "srsran_crc_checksum_get ?h = ?c" by (rule checksum_get_bytes [OF assms(1,2)])
  have ord: "order ?h = order h" by (rule foldl_put_order)
  have "concat (map byte_bits (checksum_bytes ?h)) = map (\<lambda>i. bit (ucast ?c :: u32) (8 * m - i - 1)) [0..<8 * m]"
    by (rule attach_bytes_bits) (simp_all add: checksum_bytes_def get ord m checksum_byte_def ucast_and_ff)
  also have "\<dots> = map (\<lambda>i. bit ?c (order h - i - 1)) [0..<order h]"
    unfolding m using crc_inv_bounds [OF assms(1)] m by (intro map_cong) (auto simp: bit_ucast_iff)
  finally show ?thesis
    using crc_spec_own_remainder [of h ?bits] crc_inv_bounds [OF assms(1)] by simp
qed

lemma match_checksum_bytes:
  assumes "crc_inv h" "crcinit h' = 0" "h' = h\<lparr>crcinit := 0\<rparr>" "order h mod 8 = 0"
    "data = bs @ checksum_bytes (foldl srsran_crc_checksum_put_byte h' bs) @ rest" "len = 8 * length bs"
  shows "snd (srsran_crc_match_byte h data len)"
proof -
  let ?c = "checksum_bytes (foldl srsran_crc_checksum_put_byte h' bs)"
  obtain m where m: "order h = 8 * m" using assms(4) by auto
  have lc: "length ?c = m" by (simp add: checksum_bytes_def foldl_put_order assms(3) m)
  have n: "(len + order h) div 8 = length bs + m" unfolding assms(6) m add_mult_distrib2 [symmetric] by simp
  have "take ((len + order h) div 8) data = bs @ ?c" unfolding n assms(5) using lc by simp
  moreover have "crc_spec h (concat (map byte_bits (bs @ ?c))) = 0"
    using checksum_bytes_remainder [of h' bs] assms(1-4) by simp
  moreover have "(len + order h) div 8 \<le> length data" unfolding n assms(5) using lc by simp
  ultimately show ?thesis using match_byte_iff [OF assms(1)] by simp
qed

text \<open>The parts of the block after the first loop of \<open>srsran_tcod_encode_lut\<close>.\<close>

definition cb_bytes :: "srsran_crc_t option \<Rightarrow> nat" where
  "cb_bytes crc_cb = (case crc_cb of None \<Rightarrow> 0 | Some c \<Rightarrow> order c div 8)"

definition msg_bytes :: "srsran_crc_t \<Rightarrow> srsran_crc_t option \<Rightarrow> nat \<Rightarrow> bool \<Rightarrow> nat" where
  "msg_bytes crc_tb crc_cb nb last_cb = nb - cb_bytes crc_cb - (if last_cb then order crc_tb div 8 else 0)"

definition tb_after :: "srsran_crc_t \<Rightarrow> srsran_crc_t option \<Rightarrow> u8 list \<Rightarrow> nat \<Rightarrow> bool \<Rightarrow> srsran_crc_t" where
  "tb_after crc_tb crc_cb input nb last_cb =
     foldl srsran_crc_checksum_put_byte crc_tb (take (msg_bytes crc_tb crc_cb nb last_cb) input)"

definition tb_sum :: "srsran_crc_t \<Rightarrow> srsran_crc_t option \<Rightarrow> u8 list \<Rightarrow> nat \<Rightarrow> bool \<Rightarrow> u8 list" where
  "tb_sum crc_tb crc_cb input nb last_cb =
     (if last_cb then checksum_bytes (tb_after crc_tb crc_cb input nb last_cb) else [])"

definition cb_after :: "srsran_crc_t \<Rightarrow> srsran_crc_t option \<Rightarrow> u8 list \<Rightarrow> nat \<Rightarrow> bool \<Rightarrow> srsran_crc_t option" where
  "cb_after crc_tb crc_cb input nb last_cb =
     map_option (\<lambda>c. foldl srsran_crc_checksum_put_byte (c\<lparr>crcinit := 0\<rparr>)
       (take (msg_bytes crc_tb crc_cb nb last_cb) input @ tb_sum crc_tb crc_cb input nb last_cb)) crc_cb"

definition lut_block :: "srsran_crc_t \<Rightarrow> srsran_crc_t option \<Rightarrow> u8 list \<Rightarrow> nat \<Rightarrow> bool \<Rightarrow> u8 list" where
  "lut_block crc_tb crc_cb input nb last_cb =
     block_of input (msg_bytes crc_tb crc_cb nb last_cb) (tb_sum crc_tb crc_cb input nb last_cb)
       (case cb_after crc_tb crc_cb input nb last_cb of None \<Rightarrow> [] | Some c \<Rightarrow> checksum_bytes c)"

definition crc_orders_ok :: "srsran_crc_t \<Rightarrow> srsran_crc_t option \<Rightarrow> nat \<Rightarrow> bool" where
  "crc_orders_ok crc_tb crc_cb long_cb \<longleftrightarrow> order crc_tb mod 8 = 0 \<and>
     (case crc_cb of None \<Rightarrow> order crc_tb \<le> long_cb | Some c \<Rightarrow> order c mod 8 = 0 \<and> order crc_tb + order c \<le> long_cb)"

lemma encode_lut_run:
  assumes "idx < 188" "K = tc_cb_sizes ! idx" "nb = K div 8" "crc_orders_ok crc_tb crc_cb K" "nb < length input" "2 * nb < length parity" "nb \<le> length temp"
    and input1_def: "input1 = lut_block crc_tb crc_cb input nb last_cb" and r_def: "r = run lut_step 0 (take nb input1)"
  shows "srsran_tcod_encode_lut temp crc_tb crc_cb input parity idx last_cb =
    (let (temp', input', parity') = lut_outputs idx K input1 (store parity 0 (snd r)) (fst r) temp
     in Inr (temp', tb_after crc_tb crc_cb input nb last_cb, cb_after crc_tb crc_cb input nb last_cb, input', parity', 3 * K + 12))"
proof -
  have K: "K = 8 * nb" "K mod 8 = 0" "K < 2 ^ 32" using tc_cb_sizes_bytes [OF assms(1)] tc_cb_sizes_mono [of idx 187] assms(1-3)
    by (auto simp: tc_cb_sizes_ends)
  have le: "nb \<le> length input" "nb \<le> length parity" using assms(5,6) by simp_all
  have first: "(case crc_cb of
        Some cb \<Rightarrow> let (tb1, cb1, i1, p1, st) = enc_crc_cb crc_tb (fst (srsran_crc_set_init cb 0)) input parity K last_cb
                   in (tb1, Some cb1, i1, p1, st)
      | None \<Rightarrow> let (tb1, i1, p1, st) = enc_no_cb crc_tb input parity K last_cb in (tb1, None, i1, p1, st)) =
    (tb_after crc_tb crc_cb input nb last_cb, cb_after crc_tb crc_cb input nb last_cb, input1, store parity 0 (snd r), fst r)"
  proof (cases crc_cb)
    case None
    have "msg_bytes crc_tb None nb last_cb = (if last_cb then nb - order crc_tb div 8 else nb)"
      by (simp add: msg_bytes_def cb_bytes_def)
    then have "enc_no_cb crc_tb input parity K last_cb =
        (tb_after crc_tb None input nb last_cb, input1, store parity 0 (snd r), fst r)"
      unfolding r_def using assms(4) K(1,3) le None
      by (intro enc_no_cb_block [where m = "msg_bytes crc_tb None nb last_cb"])
        (simp_all add: input1_def lut_block_def tb_sum_def tb_after_def cb_after_def crc_orders_ok_def)
    then show ?thesis using None by (simp add: cb_after_def)
  next
    case (Some c)
    have "msg_bytes crc_tb (Some c) nb last_cb = (if last_cb then nb - order c div 8 - order crc_tb div 8 else nb - order c div 8)"
      by (simp add: msg_bytes_def cb_bytes_def)
    then have "enc_crc_cb crc_tb (c\<lparr>crcinit := 0\<rparr>) input parity K last_cb =
        (tb_after crc_tb crc_cb input nb last_cb, the (cb_after crc_tb crc_cb input nb last_cb), input1, store parity 0 (snd r), fst r)"
      unfolding r_def using assms(4) K(1,3) le Some
      by (intro enc_crc_cb_block [where m = "msg_bytes crc_tb (Some c) nb last_cb" and bt = "tb_sum crc_tb crc_cb input nb last_cb"])
        (simp_all add: input1_def lut_block_def tb_sum_def tb_after_def cb_after_def crc_orders_ok_def)
    then show ?thesis using Some by (simp add: cb_after_def set_init_crcinit)
  qed
  obtain st1 p3 where s2: "enc_second (srsran_bit_interleaver_run (tcod_interleavers idx) input1 temp 0)
      ((store parity 0 (snd r))[K div 8 := 0]) (K div 8) = (st1, p3)" by fastforce
  have c: "(\<not> idx < 188) = False" "(if idx < 188 then Some K else None) = Some K" "(K mod 8 \<noteq> 0) = False"
    "(length input \<le> K div 8 \<or> length parity \<le> 2 * (K div 8) \<or> length temp < K div 8) = False"
    using assms(1,3,5-7) K(2) by auto
  have "srsran_tcod_encode_lut temp crc_tb crc_cb input parity idx last_cb =
      (let (tb', cb', input1, parity1, state0) = (tb_after crc_tb crc_cb input nb last_cb, cb_after crc_tb crc_cb input nb last_cb, input1, store parity 0 (snd r), fst r);
           (temp', input2, parity5) = lut_outputs idx K input1 parity1 state0 temp
       in Inr (temp', tb', cb', input2, parity5, 3 * K + 12))"
    unfolding srsran_tcod_encode_lut_def srsran_cbsegm_cbsize_def assms(2) [symmetric] c option.case if_False first
    unfolding Let_def [of "(a, b)" for a b] prod.case lut_outputs_def lut_tail_def Let_def s2 ..
  then show ?thesis by simp
qed

lemma lut_block_parts:
  assumes "crc_orders_ok crc_tb crc_cb K" "K = 8 * nb" "nb \<le> length input"
  shows "msg_bytes crc_tb crc_cb nb last_cb + length (tb_sum crc_tb crc_cb input nb last_cb) + cb_bytes crc_cb = nb"
    "length (case cb_after crc_tb crc_cb input nb last_cb of None \<Rightarrow> [] | Some c \<Rightarrow> checksum_bytes c) = cb_bytes crc_cb"
    "length (tb_sum crc_tb crc_cb input nb last_cb) = (if last_cb then order crc_tb div 8 else 0)"
proof -
  show ts: "length (tb_sum crc_tb crc_cb input nb last_cb) = (if last_cb then order crc_tb div 8 else 0)"
    by (simp add: tb_sum_def checksum_bytes_def tb_after_def foldl_put_order)
  show "length (case cb_after crc_tb crc_cb input nb last_cb of None \<Rightarrow> [] | Some c \<Rightarrow> checksum_bytes c) = cb_bytes crc_cb"
    by (cases crc_cb) (simp_all add: cb_after_def cb_bytes_def checksum_bytes_def foldl_put_order)
  have "cb_bytes crc_cb + (if last_cb then order crc_tb div 8 else 0) \<le> nb"
    using assms(1,2) by (cases crc_cb) (auto simp: crc_orders_ok_def cb_bytes_def elim!: dvdE simp flip: mod_eq_0_iff_dvd)
  then show "msg_bytes crc_tb crc_cb nb last_cb + length (tb_sum crc_tb crc_cb input nb last_cb) + cb_bytes crc_cb = nb"
    by (simp add: ts msg_bytes_def)
qed

lemma length_lut_block:
  assumes "crc_orders_ok crc_tb crc_cb K" "K = 8 * nb" "nb \<le> length input"
  shows "length (lut_block crc_tb crc_cb input nb last_cb) = length input"
  using lut_block_parts [OF assms, of last_cb] assms(3) by (simp add: lut_block_def block_of_def)

text \<open>
  C7: on packed bytes the table-driven encoder succeeds for every block size index below 188, with or
  without a code-block checksum, and agrees with the bit encoder: let \<open>out\<close> be the output of
  \<open>srsran_tcod_encode\<close> on the bits of the block it encoded (checksums included). Then for each of the
  \<open>K + 4\<close> positions \<open>p\<close> bit \<open>p\<close> of the input array is \<open>out[3 p]\<close>, bit \<open>p\<close> of the parity array is
  \<open>out[3 p + 1]\<close>, and bit \<open>K + 4 + p\<close> of the parity array is \<open>out[3 p + 2]\<close>, tail bits included.
\<close>

theorem tcod_encode_lut_equiv:
  assumes "idx < 188" "K = tc_cb_sizes ! idx" "crc_orders_ok crc_tb crc_cb K" "K div 8 < length input"
    "2 * (K div 8) < length parity" "K div 8 \<le> length temp"
  shows "\<exists>temp' crc_tb' crc_cb' input' parity' out.
    srsran_tcod_encode_lut temp crc_tb crc_cb input parity idx last_cb =
      Inr (temp', crc_tb', crc_cb', input', parity', 3 * K + 12) \<and>
    srsran_tcod_encode K (srsran_bit_unpack_vector input' K) (replicate (3 * K + 12) 0) K = Some out \<and>
    (\<forall>p < K + 4. out ! (3 * p) = bit_of (packed_bit input' p) \<and> out ! (3 * p + 1) = bit_of (packed_bit parity' p) \<and>
       out ! (3 * p + 2) = bit_of (packed_bit parity' (K + 4 + p)))"
proof -
  define nb where "nb = K div 8"
  have K: "K = 8 * nb" using tc_cb_sizes_bytes [OF assms(1)] assms(2) by (auto simp: nb_def)
  define input1 where "input1 = lut_block crc_tb crc_cb input nb last_cb"
  define r where "r = run lut_step 0 (take nb input1)"
  obtain temp' input' parity' where o: "lut_outputs idx K input1 (store parity 0 (snd r)) (fst r) temp = (temp', input', parity')"
    by (metis prod_cases3)
  let ?in = "srsran_bit_unpack_vector input' K"
  have len: "length input1 = length input"
    unfolding input1_def by (rule length_lut_block [OF assms(3) K]) (use assms(4) in \<open>simp add: nb_def\<close>)
  have run: "srsran_tcod_encode_lut temp crc_tb crc_cb input parity idx last_cb =
      Inr (temp', tb_after crc_tb crc_cb input nb last_cb, cb_after crc_tb crc_cb input nb last_cb, input', parity', 3 * K + 12)"
    using encode_lut_run [OF assms(1,2) nb_def assms(3) _ _ _ input1_def r_def] assms(4-6) o by (simp add: nb_def)
  have fb: "filler_bits ?in"
    using unpacked_unpack_vector [of input' K] by (auto simp: filler_bits_def unpacked_bits_def)
  have "srsran_tcod_encode K ?in (replicate (3 * K + 12) 0) K = Some (tcod_stream idx ?in K)"
    using tcod_encode_stream [OF assms(1) fb, of K "replicate (3 * K + 12) 0"] assms(2) by (simp add: store_def)
  moreover have "\<forall>p < K + 4. tcod_stream idx ?in K ! (3 * p) = bit_of (packed_bit input' p) \<and>
      tcod_stream idx ?in K ! (3 * p + 1) = bit_of (packed_bit parity' p) \<and>
      tcod_stream idx ?in K ! (3 * p + 2) = bit_of (packed_bit parity' (K + 4 + p))"
    using lut_outputs_stream [OF assms(1,2) K, of input1 parity temp "store parity 0 (snd r)" "fst r"] o len assms(4-6)
    by (simp add: nb_def r_def)
  ultimately show ?thesis using run by blast
qed

theorem tcod_encode_lut_equiv_witness:
  "\<exists>temp' crc_tb' crc_cb' input' parity' out.
    srsran_tcod_encode_lut (replicate 5 0) (fst (srsran_crc_init 0x11021 16)) None (replicate 6 0xA5) (replicate 11 0) 0 True =
      Inr (temp', crc_tb', crc_cb', input', parity', 132) \<and>
    srsran_tcod_encode 40 (srsran_bit_unpack_vector input' 40) (replicate 132 0) 40 = Some out"
proof -
  have "crc_orders_ok (fst (srsran_crc_init 0x11021 16)) None 40"
    by (simp add: crc_orders_ok_def srsran_crc_init_def Let_def srsran_crc_set_init_def gen_crc_table_def)
  then show ?thesis
    using tcod_encode_lut_equiv [of 0 40 "fst (srsran_crc_init 0x11021 16)" None "replicate 6 0xA5" "replicate 11 0" "replicate 5 0" True]
    by (auto simp: tc_cb_sizes_ends)
qed

text \<open>The message and the checksums are in the first \<open>nb\<close> bytes; the last byte holds tail bits.\<close>

lemma lut_outputs_input:
  assumes "lut_outputs idx K input1 parity1 state0 temp = (temp', input2, parity5)"
  shows "take (K div 8) input2 = take (K div 8) input1" "length input2 = length input1"
  using assms by (auto simp: lut_outputs_def Let_def split: prod.splits)

text \<open>
  C25: in arrays that are long enough, \<open>temp\<close> included, the table-driven encoder keeps the message bytes, advances the transport-block generator over
  them, and completes the block with valid checksums: a code block encoded with a code-block
  checksum passes \<open>srsran_crc_match_byte\<close>; after the last code block the whole transport block, the
  bytes \<open>pre\<close> fed before and this block, passes it with the transport-block generator.
\<close>

theorem tcod_encode_lut_checksums:
  assumes "idx < 188" "K = tc_cb_sizes ! idx" "crc_orders_ok crc_tb crc_cb K" "K div 8 < length input"
    "2 * (K div 8) < length parity" "K div 8 \<le> length temp"
    and "crc_inv tb0" "order tb0 mod 8 = 0" "crc_tb = foldl srsran_crc_checksum_put_byte (tb0\<lparr>crcinit := 0\<rparr>) pre"
    and "m = K div 8 - cb_bytes crc_cb - (if last_cb then order crc_tb div 8 else 0)"
  shows "\<exists>temp' crc_tb' crc_cb' input' parity'.
    srsran_tcod_encode_lut temp crc_tb crc_cb input parity idx last_cb =
      Inr (temp', crc_tb', crc_cb', input', parity', 3 * K + 12) \<and>
    take m input' = take m input \<and> crc_tb' = foldl srsran_crc_checksum_put_byte crc_tb (take m input) \<and>
    (\<forall>c. crc_cb = Some c \<and> crc_inv c \<longrightarrow> snd (srsran_crc_match_byte c input' (K - order c))) \<and>
    (last_cb \<longrightarrow> snd (srsran_crc_match_byte tb0 (pre @ input') (8 * (length pre + m))))"
proof -
  define nb where "nb = K div 8"
  have K: "K = 8 * nb" using tc_cb_sizes_bytes [OF assms(1)] assms(2) by (auto simp: nb_def)
  define input1 where "input1 = lut_block crc_tb crc_cb input nb last_cb"
  define r where "r = run lut_step 0 (take nb input1)"
  obtain temp' input' parity' where o: "lut_outputs idx K input1 (store parity 0 (snd r)) (fst r) temp = (temp', input', parity')"
    by (metis prod_cases3)
  have run: "srsran_tcod_encode_lut temp crc_tb crc_cb input parity idx last_cb =
      Inr (temp', tb_after crc_tb crc_cb input nb last_cb, cb_after crc_tb crc_cb input nb last_cb, input', parity', 3 * K + 12)"
    using encode_lut_run [OF assms(1,2) nb_def assms(3) _ _ _ input1_def r_def] assms(4-6) o by (simp add: nb_def)
  have m: "msg_bytes crc_tb crc_cb nb last_cb = m" by (simp add: msg_bytes_def assms(10) nb_def)
  let ?bt = "tb_sum crc_tb crc_cb input nb last_cb"
  let ?bc = "case cb_after crc_tb crc_cb input nb last_cb of None \<Rightarrow> [] | Some c \<Rightarrow> checksum_bytes c"
  have li: "nb < length input" using assms(4) by (simp add: nb_def)
  note parts = lut_block_parts [OF assms(3) K less_imp_le [OF li], of last_cb, unfolded m]
  have ml: "m \<le> length input" using parts(1) li by simp
  have "take nb input' = take nb input1" using lut_outputs_input(1) [OF o] by (simp add: nb_def)
  also have "\<dots> = take m input @ ?bt @ ?bc"
    using parts ml by (simp add: input1_def lut_block_def block_of_def m)
  finally have t: "input' = take m input @ ?bt @ ?bc @ drop nb input'" by (metis append.assoc append_take_drop_id)
  have "take m input' = take m input" using ml by (subst t) (simp add: min_absorb2)
  moreover have "tb_after crc_tb crc_cb input nb last_cb = foldl srsran_crc_checksum_put_byte crc_tb (take m input)"
    by (simp add: tb_after_def m)
  moreover have "snd (srsran_crc_match_byte c input' (K - order c))" if c: "crc_cb = Some c" "crc_inv c" for c
  proof (rule match_checksum_bytes [OF c(2) _ refl, where bs = "take m input @ ?bt" and rest = "drop nb input'"])
    obtain k where k: "order c = 8 * k" using assms(3) c by (auto simp: crc_orders_ok_def)
    show "order c mod 8 = 0" by (simp add: k)
    show "input' = (take m input @ ?bt) @ checksum_bytes (foldl srsran_crc_checksum_put_byte (c\<lparr>crcinit := 0\<rparr>) (take m input @ ?bt)) @ drop nb input'"
      using c(1) m by (subst t) (simp add: cb_after_def)
    have "m + length ?bt + k = nb" using parts(1) c by (simp add: cb_bytes_def k)
    then show "K - order c = 8 * length (take m input @ ?bt)" using ml by (simp add: K k min_absorb2 flip: diff_mult_distrib2)
  qed simp
  moreover have "snd (srsran_crc_match_byte tb0 (pre @ input') (8 * (length pre + m)))" if last_cb
  proof (rule match_checksum_bytes [OF assms(7) _ refl assms(8), where bs = "pre @ take m input" and rest = "?bc @ drop nb input'"])
    show "pre @ input' = (pre @ take m input) @
        checksum_bytes (foldl srsran_crc_checksum_put_byte (tb0\<lparr>crcinit := 0\<rparr>) (pre @ take m input)) @ ?bc @ drop nb input'"
      using that m by (subst t) (simp add: tb_sum_def tb_after_def assms(9))
    show "8 * (length pre + m) = 8 * length (pre @ take m input)" using ml by (simp add: min_absorb2)
  qed simp
  ultimately show ?thesis using run by blast
qed

theorem tcod_encode_lut_checksums_witness:
  "\<exists>temp' crc_tb' crc_cb' input' parity'.
    srsran_tcod_encode_lut (replicate 5 0) (fst (srsran_crc_init 0x11021 16)) (Some (fst (srsran_crc_init 0x11021 16))) (replicate 6 0xA5) (replicate 11 0) 0 True =
      Inr (temp', crc_tb', crc_cb', input', parity', 132) \<and>
    snd (srsran_crc_match_byte (fst (srsran_crc_init 0x11021 16)) input' 24) \<and>
    snd (srsran_crc_match_byte (fst (srsran_crc_init 0x11021 16)) input' 8)"
proof -
  let ?h = "fst (srsran_crc_init 0x11021 16)"
  have "order ?h = 16" "?h\<lparr>crcinit := 0\<rparr> = ?h"
    by (simp_all add: srsran_crc_init_def Let_def srsran_crc_set_init_def gen_crc_table_def)
  moreover have "crc_inv ?h" by (simp add: init_inv)
  ultimately have h: "order ?h = 16" "?h\<lparr>crcinit := 0\<rparr> = ?h" "crc_inv ?h" .
  then have "crc_orders_ok ?h (Some ?h) 40" by (simp add: crc_orders_ok_def)
  then show ?thesis
    using tcod_encode_lut_checksums [of 0 40 ?h "Some ?h" "replicate 6 0xA5" "replicate 11 0" "replicate 5 0" ?h "[]" 1 True] h
    by (auto simp: tc_cb_sizes_ends cb_bytes_def)
qed

end
