(* ===== verification/Ring_Buffer.thy ===== *)
theory Ring_Buffer
  imports Phy_Prelude
begin

text \<open>
  The byte ring buffer between the radio and the physical layer, \<open>lib/src/phy/utils/ringbuffer.c\<close>.
  Every operation holds the mutex except while it waits on a condition variable, so an operation is a
  function of the buffer that either completes or is blocked; a blocked thread runs the code after
  the wait again when it wakes up, with the value \<open>pthread_cond_timedwait\<close> returned. The threads
  are the steps of a relation on the buffer; the condition variables are in the theory \<open>Ring_Threads\<close>.
  Integers are \<open>int\<close> and a sum that leaves the range of a C \<open>int\<close> is the outcome \<open>Undefined\<close>. The memory
  a call allocates is an argument, \<open>None\<close> when the allocation fails.
\<close>

section \<open>State and operations\<close>

record srsran_ringbuffer_t =
  rb_buffer :: "u8 list option"
  rb_active :: bool
  rb_capacity :: int
  rb_count :: int
  rb_wpm :: int
  rb_rpm :: int

abbreviation (input) RB_SUCCESS :: int where "RB_SUCCESS \<equiv> 0"
abbreviation (input) RB_ERROR :: int where "RB_ERROR \<equiv> -1"
abbreviation (input) RB_ERROR_INVALID_INPUTS :: int where "RB_ERROR_INVALID_INPUTS \<equiv> -2"
abbreviation (input) RB_ERROR_TIMEOUT :: int where "RB_ERROR_TIMEOUT \<equiv> -3"
abbreviation (input) ETIMEDOUT :: int where "ETIMEDOUT \<equiv> 110"
abbreviation (input) EINVAL :: int where "EINVAL \<equiv> 22"

text \<open>The values of a C \<open>int\<close>.\<close>

definition int_ok :: "int \<Rightarrow> bool" where
  "int_ok i \<longleftrightarrow> - (2 ^ 31) \<le> i \<and> i < 2 ^ 31"

lemma int_ok_between: "int_ok i \<Longrightarrow> 0 \<le> j \<Longrightarrow> j \<le> i \<Longrightarrow> int_ok j"
  by (simp add: int_ok_def)

lemma int_ok_sum: "0 \<le> i \<Longrightarrow> 0 \<le> j \<Longrightarrow> int_ok (i + j) \<longleftrightarrow> i + j < 2 ^ 31"
  by (simp add: int_ok_def)

datatype 'r outcome = Blocked | Done 'r | Undefined

definition srsran_ringbuffer_reset :: "srsran_ringbuffer_t \<Rightarrow> srsran_ringbuffer_t" where
  "srsran_ringbuffer_reset q =
     (if rb_capacity q \<noteq> 0 then q\<lparr>rb_count := 0, rb_wpm := 0, rb_rpm := 0\<rparr> else q)"

definition srsran_ringbuffer_init ::
  "srsran_ringbuffer_t \<Rightarrow> u8 list option \<Rightarrow> int \<Rightarrow> srsran_ringbuffer_t \<times> int" where
  "srsran_ringbuffer_init q mem capacity =
     (let q1 = q\<lparr>rb_buffer := mem\<rparr> in
      if mem = None then (q1, RB_ERROR)
      else (srsran_ringbuffer_reset (q1\<lparr>rb_active := True, rb_capacity := capacity\<rparr>), RB_SUCCESS))"

definition srsran_ringbuffer_stop :: "srsran_ringbuffer_t \<Rightarrow> srsran_ringbuffer_t" where
  "srsran_ringbuffer_stop q = q\<lparr>rb_active := False\<rparr>"

definition srsran_ringbuffer_free :: "srsran_ringbuffer_t \<Rightarrow> srsran_ringbuffer_t" where
  "srsran_ringbuffer_free q = (srsran_ringbuffer_stop q)\<lparr>rb_buffer := None\<rparr>"

definition srsran_ringbuffer_resize ::
  "srsran_ringbuffer_t \<Rightarrow> u8 list option \<Rightarrow> int \<Rightarrow> srsran_ringbuffer_t \<times> int" where
  "srsran_ringbuffer_resize q mem capacity =
     (let q1 = (srsran_ringbuffer_reset (q\<lparr>rb_buffer := None\<rparr>))\<lparr>rb_buffer := mem\<rparr> in
      if mem = None then (q1, RB_ERROR)
      else (q1\<lparr>rb_active := True, rb_capacity := capacity\<rparr>, RB_SUCCESS))"

definition srsran_ringbuffer_status :: "srsran_ringbuffer_t \<Rightarrow> int" where
  "srsran_ringbuffer_status q = rb_count q"

definition srsran_ringbuffer_space :: "srsran_ringbuffer_t \<Rightarrow> int" where
  "srsran_ringbuffer_space q = rb_capacity q - rb_count q"

text \<open>
  The source of a write: \<open>len\<close> bytes from offset \<open>from\<close> of the caller's array, or zeros for a
  null pointer.
\<close>

definition write_src :: "u8 list option \<Rightarrow> int \<Rightarrow> int \<Rightarrow> u8 list" where
  "write_src ptr from len =
     (case ptr of Some d \<Rightarrow> take (nat len) (drop (nat from) d) | None \<Rightarrow> replicate (nat len) 0)"

definition advance :: "srsran_ringbuffer_t \<Rightarrow> int \<Rightarrow> int \<Rightarrow> int" where
  "advance q pos n = (if pos + n \<ge> rb_capacity q then pos + n - rb_capacity q else pos + n)"

definition ringbuffer_put :: "srsran_ringbuffer_t \<Rightarrow> u8 list option \<Rightarrow> int \<Rightarrow> srsran_ringbuffer_t" where
  "ringbuffer_put q ptr w_bytes =
     (let b = the (rb_buffer q);
          b' = (if w_bytes > rb_capacity q - rb_wpm q
                then let x = rb_capacity q - rb_wpm q
                     in store (store b (nat (rb_wpm q)) (write_src ptr 0 x)) 0 (write_src ptr x (w_bytes - x))
                else store b (nat (rb_wpm q)) (write_src ptr 0 w_bytes))
      in q\<lparr>rb_buffer := Some b', rb_wpm := advance q (rb_wpm q) w_bytes, rb_count := rb_count q + w_bytes\<rparr>)"

text \<open>The code after the lock is taken, or taken again by a wait that returned \<open>wait_ret\<close>.\<close>

definition ringbuffer_write_resume ::
  "srsran_ringbuffer_t \<Rightarrow> u8 list option \<Rightarrow> int \<Rightarrow> int \<Rightarrow> int \<Rightarrow> (srsran_ringbuffer_t \<times> int) outcome" where
  "ringbuffer_write_resume q ptr nof_bytes timeout_ms wait_ret =
     (let full = rb_count q + nof_bytes > rb_capacity q \<and> rb_active q \<and> wait_ret = RB_SUCCESS in
      if \<not> int_ok (rb_count q + nof_bytes) then Undefined
      else if full \<and> timeout_ms \<noteq> 0 then Blocked
      else let w_bytes = (if full then rb_capacity q - rb_count q else nof_bytes) in
        if wait_ret = ETIMEDOUT then Done (q, RB_ERROR_TIMEOUT)
        else if \<not> rb_active q then Done (q, RB_SUCCESS)
        else if wait_ret = RB_SUCCESS then
          if int_ok (rb_wpm q + w_bytes) then Done (ringbuffer_put q ptr w_bytes, w_bytes) else Undefined
        else Done (q, RB_ERROR))"

definition srsran_ringbuffer_write_timed_block ::
  "srsran_ringbuffer_t \<Rightarrow> u8 list option \<Rightarrow> int \<Rightarrow> int \<Rightarrow> (srsran_ringbuffer_t \<times> int) outcome" where
  "srsran_ringbuffer_write_timed_block q p nof_bytes timeout_ms =
     (if rb_buffer q = None then Done (q, RB_ERROR_INVALID_INPUTS)
      else ringbuffer_write_resume q p nof_bytes timeout_ms RB_SUCCESS)"

definition srsran_ringbuffer_write where
  "srsran_ringbuffer_write q ptr nof_bytes = srsran_ringbuffer_write_timed_block q ptr nof_bytes 0"

definition srsran_ringbuffer_write_timed where
  "srsran_ringbuffer_write_timed q ptr nof_bytes timeout_ms =
     srsran_ringbuffer_write_timed_block q ptr nof_bytes timeout_ms"

definition srsran_ringbuffer_write_block where
  "srsran_ringbuffer_write_block q ptr nof_bytes = srsran_ringbuffer_write_timed_block q ptr nof_bytes (-1)"

text \<open>The bytes a read copies, in two pieces when they wrap around.\<close>

definition ringbuffer_peek :: "srsran_ringbuffer_t \<Rightarrow> int \<Rightarrow> u8 list" where
  "ringbuffer_peek q nof_bytes =
     (let b = the (rb_buffer q) in
      if nof_bytes + rb_rpm q > rb_capacity q
      then let x = rb_capacity q - rb_rpm q
           in take (nat x) (drop (nat (rb_rpm q)) b) @ take (nat (nof_bytes - x)) b
      else take (nat nof_bytes) (drop (nat (rb_rpm q)) b))"

definition ringbuffer_drop :: "srsran_ringbuffer_t \<Rightarrow> int \<Rightarrow> srsran_ringbuffer_t" where
  "ringbuffer_drop q nof_bytes =
     q\<lparr>rb_rpm := advance q (rb_rpm q) nof_bytes, rb_count := rb_count q - nof_bytes\<rparr>"

text \<open>
  The code of a read after the lock is taken; \<open>take_out\<close> is what it returns of the buffer. The
  timeout of a read only decides which values a wait can return.
\<close>

definition ringbuffer_read_resume ::
  "(srsran_ringbuffer_t \<Rightarrow> 'a) \<Rightarrow> srsran_ringbuffer_t \<Rightarrow> int \<Rightarrow> int \<Rightarrow> (srsran_ringbuffer_t \<times> 'a option \<times> int) outcome" where
  "ringbuffer_read_resume take_out q nof_bytes wait_ret =
     (if rb_count q < nof_bytes \<and> rb_active q \<and> wait_ret = RB_SUCCESS then Blocked
      else if wait_ret = ETIMEDOUT then Done (q, None, RB_ERROR_TIMEOUT)
      else if \<not> rb_active q then Done (q, None, RB_SUCCESS)
      else if wait_ret = RB_SUCCESS then
        if int_ok (nof_bytes + rb_rpm q) then Done (ringbuffer_drop q nof_bytes, Some (take_out q), nof_bytes) else Undefined
      else Done (q, None, RB_ERROR))"

definition srsran_ringbuffer_read_timed_block where
  "srsran_ringbuffer_read_timed_block q nof_bytes = ringbuffer_read_resume (\<lambda>q. ringbuffer_peek q nof_bytes) q nof_bytes RB_SUCCESS"

definition srsran_ringbuffer_read where
  "srsran_ringbuffer_read q nof_bytes = srsran_ringbuffer_read_timed_block q nof_bytes"

definition srsran_ringbuffer_read_timed where
  "srsran_ringbuffer_read_timed q nof_bytes = srsran_ringbuffer_read_timed_block q nof_bytes"

text \<open>\<open>srsran_ringbuffer_read_block\<close> returns a pointer into the buffer, here its offset.\<close>

definition srsran_ringbuffer_read_block where
  "srsran_ringbuffer_read_block q nof_bytes = ringbuffer_read_resume rb_rpm q nof_bytes RB_SUCCESS"

text \<open>
  The samples of \<open>srsran_ringbuffer_read_convert_conj\<close>: little-endian 16-bit integers, converted
  by \<open>conv\<close> (the scaling to floats) and conjugated by \<open>cnj\<close>. The number of bytes is a \<open>uint32_t\<close>; a read
  position that does not fit an \<open>int\<close> is \<open>Undefined\<close> here, too.
\<close>

definition shorts :: "u8 list \<Rightarrow> int \<Rightarrow> u16 list" where
  "shorts bs n = map (\<lambda>i. ucast (bs ! (2 * i)) + push_bit 8 (ucast (bs ! (2 * i + 1)))) [0..<nat n]"

definition srsran_ringbuffer_read_convert_conj ::
  "(u16 \<Rightarrow> 'f) \<Rightarrow> ('f list \<Rightarrow> 'f list) \<Rightarrow> srsran_ringbuffer_t \<Rightarrow> int \<Rightarrow> (srsran_ringbuffer_t \<times> 'f list option \<times> int) outcome" where
  "srsran_ringbuffer_read_convert_conj conv cnj q nof_samples =
     (let nof_bytes = nof_samples * 4 mod 2 ^ 32; b = the (rb_buffer q) in
      if \<not> int_ok (nof_samples * 4) then Undefined
      else if rb_count q < nof_bytes \<and> rb_active q then Blocked
      else if \<not> rb_active q then Done (q, None, RB_ERROR)
      else if \<not> int_ok (rb_rpm q + nof_bytes) then Undefined
      else let dst = (if nof_bytes + rb_rpm q > rb_capacity q
                      then let x = rb_capacity q - rb_rpm q
                           in map conv (shorts (drop (nat (rb_rpm q)) b) (x div 2)) @
                              map conv (shorts b (2 * nof_samples - x div 2))
                      else map conv (shorts (drop (nat (rb_rpm q)) b) (2 * nof_samples)))
           in Done (ringbuffer_drop q nof_bytes, Some (cnj dst), nof_samples))"

text \<open>
  The absolute deadlines of the timed operations, in seconds and nanoseconds: the write starts from
  microseconds (\<open>gettimeofday\<close>), the reads from nanoseconds (\<open>timespec_get\<close>).
\<close>

definition write_deadline :: "int \<Rightarrow> int \<Rightarrow> int \<Rightarrow> int \<times> int" where
  "write_deadline now_sec now_usec timeout_ms =
     (now_sec + timeout_ms div 1000, (now_usec + 1000 * (timeout_ms mod 1000)) * 1000)"

definition read_deadline :: "int \<Rightarrow> int \<Rightarrow> int \<Rightarrow> int \<times> int" where
  "read_deadline now_sec now_nsec timeout_ms =
     (let nsec = now_nsec + (timeout_ms mod 1000) * 1000
      in (now_sec + timeout_ms div 1000 + nsec div 1000000000, nsec mod 1000000000))"

section \<open>Arrays written and read around their end\<close>

definition ring_nth :: "'a list \<Rightarrow> nat \<Rightarrow> nat \<Rightarrow> 'a" where
  "ring_nth b R i = b ! ((R + i) mod length b)"

definition ring_take :: "'a list \<Rightarrow> nat \<Rightarrow> nat \<Rightarrow> 'a list" where
  "ring_take b R n = map (ring_nth b R) [0..<n]"

definition ring_store :: "'a list \<Rightarrow> nat \<Rightarrow> 'a list \<Rightarrow> 'a list" where
  "ring_store b W d =
     (if W + length d > length b then store (store b W (take (length b - W) d)) 0 (drop (length b - W) d)
      else store b W d)"

lemma length_ring_take [simp]: "length (ring_take b R n) = n"
  by (simp add: ring_take_def)

lemma nth_ring_take [simp]: "i < n \<Longrightarrow> ring_take b R n ! i = ring_nth b R i"
  by (simp add: ring_take_def)

lemma mod_once: "(a :: nat) < 2 * c \<Longrightarrow> a mod c = (if a < c then a else a - c)"
  by (auto simp: mod_if)

lemma length_ring_store [simp]:
  "W < length b \<Longrightarrow> length d \<le> length b \<Longrightarrow> length (ring_store b W d) = length b"
  by (auto simp: ring_store_def length_store)

lemma nth_ring_store:
  assumes "W < length b" "length d \<le> length b" "j < length b"
  shows "ring_store b W d ! j = (if W \<le> j \<and> j < W + length d then d ! (j - W)
      else if j + length b < W + length d then d ! (j + length b - W) else b ! j)"
proof (cases "W + length d > length b")
  case True
  define x where "x = length b - W"
  define s1 where "s1 = store b W (take x d)"
  have x: "x < length d" "W + x = length b" using True assms(1) by (auto simp: x_def)
  have l1: "length s1 = length b" unfolding s1_def using x by (simp add: length_store)
  have n1: "s1 ! j = (if W \<le> j then d ! (j - W) else b ! j)"
    unfolding s1_def using x assms(3) by (auto simp: nth_store)
  have "ring_store b W d ! j = (if j < length d - x then d ! (x + j) else s1 ! j)"
    using True x l1 assms unfolding ring_store_def x_def [symmetric] s1_def [symmetric] by (simp add: nth_store)
  moreover have "j < length d - x \<longleftrightarrow> j + length b < W + length d" "x + j = j + length b - W"
    "W \<le> j \<Longrightarrow> j < W + length d" "W \<le> j \<Longrightarrow> \<not> j < length d - x" using x assms by auto
  ultimately show ?thesis using n1 by auto
next
  case False
  then show ?thesis using assms by (auto simp: ring_store_def nth_store)
qed

lemma ring_nth_store:
  assumes "W < length b" "length d \<le> length b" "k < length b"
  shows "ring_nth (ring_store b W d) W k = (if k < length d then d ! k else ring_nth b W k)"
proof -
  have "(W + k) mod length b = (if W + k < length b then W + k else W + k - length b)"
    using assms by (intro mod_once) simp
  moreover have "(W + k) mod length b < length b" using assms by (intro mod_less_divisor) auto
  ultimately show ?thesis using assms nth_ring_store [OF assms(1,2), of "(W + k) mod length b"]
    by (auto simp: ring_nth_def)
qed

text \<open>Writing at the end of the \<open>n\<close> elements from \<open>R\<close> appends.\<close>

lemma ring_take_store:
  assumes "R < length b" "n + length d \<le> length b" "W = (R + n) mod length b"
  shows "ring_take (ring_store b W d) R (n + length d) = ring_take b R n @ d"
proof (rule nth_equalityI)
  fix i assume i: "i < length (ring_take (ring_store b W d) R (n + length d))"
  let ?C = "length b"
  have W: "W < ?C" unfolding assms(3) using assms(1) by (intro mod_less_divisor) auto
  have shift: "ring_nth c R i = ring_nth c W k" if "length c = ?C" "n + k = i \<or> n + k = i + ?C" for c :: "'a list" and k
  proof -
    have "(W + k) mod ?C = (R + (n + k)) mod ?C" unfolding assms(3) by (simp add: mod_simps add.assoc)
    also have "R + (n + k) = R + i \<or> R + (n + k) = (R + i) + ?C" using that(2) by auto
    then have "(R + (n + k)) mod ?C = (R + i) mod ?C" by (elim disjE) (simp_all only: mod_add_self2)
    finally show ?thesis using that(1) by (simp add: ring_nth_def)
  qed
  have l: "length (ring_store b W d) = ?C" using W assms(2) by simp
  show "ring_take (ring_store b W d) R (n + length d) ! i = (ring_take b R n @ d) ! i"
  proof (cases "i < n")
    case True
    define k where "k = i + ?C - n"
    have k: "n + k = i + ?C" "k < ?C" "\<not> k < length d" using True assms(2) by (auto simp: k_def)
    then show ?thesis
      using True i shift [OF l, of k] shift [OF refl, of k] ring_nth_store [OF W _ k(2), of d] assms(2) by (simp add: nth_append)
  next
    case False
    define k where "k = i - n"
    have k: "n + k = i" "k < ?C" "k < length d" using False i assms(2) by (auto simp: k_def)
    then show ?thesis
      using False i shift [OF l, of k] ring_nth_store [OF W _ k(2), of d] assms(2) by (auto simp: nth_append)
  qed
qed simp

text \<open>Advancing the read position drops elements.\<close>

lemma ring_take_drop: "k \<le> n \<Longrightarrow> ring_take b ((R + k) mod length b) (n - k) = drop k (ring_take b R n)"
proof (rule nth_equalityI)
  fix i assume k: "k \<le> n" and "i < length (ring_take b ((R + k) mod length b) (n - k))"
  then have i: "i < n - k" by simp
  have "ring_nth b ((R + k) mod length b) i = ring_nth b R (k + i)"
    by (simp add: ring_nth_def mod_simps add.assoc)
  then show "ring_take b ((R + k) mod length b) (n - k) ! i = drop k (ring_take b R n) ! i" using i k by simp
qed simp

lemma take_ring_take: "k \<le> n \<Longrightarrow> take k (ring_take b R n) = ring_take b R k"
  by (simp add: ring_take_def take_map)

text \<open>The two pieces a read copies.\<close>

lemma ring_take_pieces:
  assumes "R < length b" "n \<le> length b"
  shows "ring_take b R n = (if R + n > length b then drop R b @ take (n - (length b - R)) b else take n (drop R b))"
proof (rule nth_equalityI)
  fix i assume "i < length (ring_take b R n)"
  then have i: "i < n" by simp
  have "(R + i) mod length b = (if R + i < length b then R + i else R + i - length b)"
    using assms i by (intro mod_once) simp
  then show "ring_take b R n ! i = (if R + n > length b then drop R b @ take (n - (length b - R)) b else take n (drop R b)) ! i"
    using i assms by (auto simp: ring_nth_def nth_append add.commute)
qed (use assms in auto)

section \<open>The interface of a queue of bytes\<close>

text \<open>
  What the clients of a buffer rely on: \<open>put\<close> appends when there is room, \<open>get\<close> removes from the
  front what is there. For any sequence of operations within these bounds, what was read followed by
  what is still there is what was there followed by what was written.
\<close>

datatype 'a fifo_op = Put "'a list" | Get nat

locale byte_fifo =
  fixes inv :: "'s \<Rightarrow> bool" and contents :: "'s \<Rightarrow> 'a list" and room :: "'s \<Rightarrow> nat"
    and put :: "'s \<Rightarrow> 'a list \<Rightarrow> 's" and get :: "'s \<Rightarrow> nat \<Rightarrow> 's \<times> 'a list"
  assumes inv_put: "inv s \<Longrightarrow> length d \<le> room s \<Longrightarrow> inv (put s d)"
    and contents_put: "inv s \<Longrightarrow> length d \<le> room s \<Longrightarrow> contents (put s d) = contents s @ d"
    and inv_get: "inv s \<Longrightarrow> n \<le> length (contents s) \<Longrightarrow> inv (fst (get s n))"
    and contents_get: "inv s \<Longrightarrow> n \<le> length (contents s) \<Longrightarrow>
      snd (get s n) = take n (contents s) \<and> contents (fst (get s n)) = drop n (contents s)"
begin

fun enabled :: "'s \<Rightarrow> 'a fifo_op list \<Rightarrow> bool" where
  "enabled s [] = True"
| "enabled s (Put d # ops) = (length d \<le> room s \<and> enabled (put s d) ops)"
| "enabled s (Get n # ops) = (n \<le> length (contents s) \<and> enabled (fst (get s n)) ops)"

fun outputs :: "'s \<Rightarrow> 'a fifo_op list \<Rightarrow> 'a list" where
  "outputs s [] = []"
| "outputs s (Put d # ops) = outputs (put s d) ops"
| "outputs s (Get n # ops) = snd (get s n) @ outputs (fst (get s n)) ops"

fun final :: "'s \<Rightarrow> 'a fifo_op list \<Rightarrow> 's" where
  "final s [] = s"
| "final s (Put d # ops) = final (put s d) ops"
| "final s (Get n # ops) = final (fst (get s n)) ops"

fun inputs :: "'a fifo_op list \<Rightarrow> 'a list" where
  "inputs [] = []"
| "inputs (Put d # ops) = d @ inputs ops"
| "inputs (Get n # ops) = inputs ops"

lemma fifo_order:
  "inv s \<Longrightarrow> enabled s ops \<Longrightarrow> inv (final s ops) \<and> outputs s ops @ contents (final s ops) = contents s @ inputs ops"
proof (induction ops arbitrary: s)
  case (Cons op ops)
  show ?case
  proof (cases op)
    case (Put d)
    then show ?thesis using Cons inv_put [of s d] contents_put [of s d] by simp
  next
    case (Get n)
    then show ?thesis using Cons inv_get [of s n] contents_get [of s n] by simp
  qed
qed simp

end

section \<open>The buffer is a queue\<close>

definition ring_inv :: "srsran_ringbuffer_t \<Rightarrow> bool" where
  "ring_inv q \<longleftrightarrow> (\<exists>b. rb_buffer q = Some b \<and> int (length b) = rb_capacity q) \<and> 0 < rb_capacity q \<and> int_ok (rb_capacity q) \<and>
     0 \<le> rb_count q \<and> rb_count q \<le> rb_capacity q \<and> 0 \<le> rb_rpm q \<and> rb_rpm q < rb_capacity q \<and>
     rb_wpm q = (rb_rpm q + rb_count q) mod rb_capacity q"

definition ring_contents :: "srsran_ringbuffer_t \<Rightarrow> u8 list" where
  "ring_contents q = ring_take (the (rb_buffer q)) (nat (rb_rpm q)) (nat (rb_count q))"

definition ring_room :: "srsran_ringbuffer_t \<Rightarrow> nat" where
  "ring_room q = nat (rb_capacity q - rb_count q)"

lemma length_ring_contents: "length (ring_contents q) = nat (rb_count q)"
  by (simp add: ring_contents_def)

lemma advance_mod:
  assumes "0 \<le> pos" "pos < rb_capacity q" "0 \<le> n" "n \<le> rb_capacity q"
  shows "advance q pos n = (pos + n) mod rb_capacity q"
proof (cases "pos + n \<ge> rb_capacity q")
  case True
  then have "(pos + n - rb_capacity q) mod rb_capacity q = pos + n - rb_capacity q"
    using assms by (intro mod_pos_pos_trivial) simp_all
  then show ?thesis using True by (simp add: advance_def)
qed (use assms in \<open>simp add: advance_def mod_pos_pos_trivial\<close>)

lemma write_src_0: "\<forall>d. ptr = Some d \<longrightarrow> w \<le> int (length d) \<Longrightarrow> length (write_src ptr 0 w) = nat w"
  by (cases ptr) (auto simp: write_src_def)

text \<open>A write of \<open>w\<close> bytes is one store around the end.\<close>

lemma ringbuffer_put_store:
  assumes "ring_inv q" "0 \<le> w" "w \<le> rb_capacity q - rb_count q" "\<forall>d. ptr = Some d \<longrightarrow> w \<le> int (length d)"
  shows "ringbuffer_put q ptr w = q\<lparr>rb_buffer := Some (ring_store (the (rb_buffer q)) (nat (rb_wpm q)) (write_src ptr 0 w)),
    rb_wpm := (rb_rpm q + (rb_count q + w)) mod rb_capacity q, rb_count := rb_count q + w\<rparr>"
proof -
  obtain b where b: "rb_buffer q = Some b" "int (length b) = rb_capacity q" using assms(1) by (auto simp: ring_inv_def)
  have inv: "0 < rb_capacity q" "0 \<le> rb_count q" "rb_wpm q = (rb_rpm q + rb_count q) mod rb_capacity q"
    using assms(1) by (auto simp: ring_inv_def)
  have W: "0 \<le> rb_wpm q" "rb_wpm q < rb_capacity q" using inv by simp_all
  have pieces: "write_src ptr 0 x = take (nat x) (write_src ptr 0 w)" "write_src ptr x (w - x) = drop (nat x) (write_src ptr 0 w)"
    if "0 \<le> x" "x \<le> w" for x
    using that assms(4) by (cases ptr; auto simp: write_src_def min_absorb1 min_absorb2 drop_take nat_diff_distrib)+
  have "nat (rb_wpm q) + length (write_src ptr 0 w) > length b \<longleftrightarrow> w > rb_capacity q - rb_wpm q"
    using write_src_0 [OF assms(4)] W assms(2) b(2) by auto
  moreover have "nat (rb_capacity q - rb_wpm q) = length b - nat (rb_wpm q)" using W b(2) by (simp add: nat_diff_distrib)
  moreover have "advance q (rb_wpm q) w = (rb_rpm q + (rb_count q + w)) mod rb_capacity q"
    using W assms(2,3) inv by (simp add: advance_mod mod_simps add.assoc)
  ultimately show ?thesis
    using pieces [of "rb_capacity q - rb_wpm q"] W b(1) by (simp add: ringbuffer_put_def ring_store_def Let_def)
qed

lemma ring_put:
  assumes "ring_inv q" "0 \<le> w" "w \<le> rb_capacity q - rb_count q" "\<forall>d. ptr = Some d \<longrightarrow> w \<le> int (length d)"
  shows "ring_inv (ringbuffer_put q ptr w)"
    "ring_contents (ringbuffer_put q ptr w) = ring_contents q @ write_src ptr 0 w"
    "rb_capacity (ringbuffer_put q ptr w) = rb_capacity q" "rb_active (ringbuffer_put q ptr w) = rb_active q"
    "rb_count (ringbuffer_put q ptr w) = rb_count q + w"
proof -
  obtain b where b: "rb_buffer q = Some b" "int (length b) = rb_capacity q" using assms(1) by (auto simp: ring_inv_def)
  have inv: "0 < rb_capacity q" "0 \<le> rb_count q" "rb_wpm q = (rb_rpm q + rb_count q) mod rb_capacity q"
    "0 \<le> rb_rpm q" "rb_rpm q < rb_capacity q"
    using assms(1) by (auto simp: ring_inv_def)
  have W: "0 \<le> rb_wpm q" "rb_wpm q < rb_capacity q" using inv by simp_all
  have l: "length (write_src ptr 0 w) = nat w" by (rule write_src_0 [OF assms(4)])
  have "nat (rb_wpm q) = (nat (rb_rpm q) + nat (rb_count q)) mod length b"
    unfolding inv(3) b(2) [symmetric] using inv by (simp add: nat_mod_distrib nat_add_distrib)
  then have "ring_take (ring_store b (nat (rb_wpm q)) (write_src ptr 0 w)) (nat (rb_rpm q)) (nat (rb_count q) + nat w) =
      ring_take b (nat (rb_rpm q)) (nat (rb_count q)) @ write_src ptr 0 w"
    using ring_take_store [of "nat (rb_rpm q)" b "nat (rb_count q)" "write_src ptr 0 w" "nat (rb_wpm q)"] inv b assms(2,3) l by simp
  then show "ring_contents (ringbuffer_put q ptr w) = ring_contents q @ write_src ptr 0 w"
    unfolding ringbuffer_put_store [OF assms] using b(1) inv assms(2) by (simp add: ring_contents_def nat_add_distrib)
  show "ring_inv (ringbuffer_put q ptr w)"
  proof -
    have "length (ring_store b (nat (rb_wpm q)) (write_src ptr 0 w)) = length b"
    proof (rule length_ring_store)
      show "nat (rb_wpm q) < length b" using W b(2) by simp
      show "length (write_src ptr 0 w) \<le> length b" using l b(2) assms(2,3) inv(2) by simp
    qed
    then show ?thesis
      unfolding ringbuffer_put_store [OF assms] using b inv(1,2,4,5) assms(1-3) by (simp add: ring_inv_def)
  qed
  show "rb_capacity (ringbuffer_put q ptr w) = rb_capacity q" "rb_active (ringbuffer_put q ptr w) = rb_active q"
    "rb_count (ringbuffer_put q ptr w) = rb_count q + w"
    unfolding ringbuffer_put_store [OF assms] by simp_all
qed

lemma ring_get:
  assumes "ring_inv q" "0 \<le> n" "n \<le> rb_count q"
  shows "ring_inv (ringbuffer_drop q n)" "ring_contents (ringbuffer_drop q n) = drop (nat n) (ring_contents q)"
    "ringbuffer_peek q n = take (nat n) (ring_contents q)"
proof -
  obtain b where b: "rb_buffer q = Some b" "int (length b) = rb_capacity q" using assms(1) by (auto simp: ring_inv_def)
  have inv: "0 < rb_capacity q" "0 \<le> rb_count q" "rb_count q \<le> rb_capacity q" "rb_wpm q = (rb_rpm q + rb_count q) mod rb_capacity q"
    "0 \<le> rb_rpm q" "rb_rpm q < rb_capacity q"
    using assms(1) by (auto simp: ring_inv_def)
  have adv: "advance q (rb_rpm q) n = (rb_rpm q + n) mod rb_capacity q"
    using inv assms(2,3) by (intro advance_mod) simp_all
  show "ring_inv (ringbuffer_drop q n)"
    using b inv assms by (simp add: ring_inv_def ringbuffer_drop_def adv mod_simps)
  have "nat ((rb_rpm q + n) mod rb_capacity q) = (nat (rb_rpm q) + nat n) mod length b"
    unfolding b(2) [symmetric] using inv assms(2) by (simp add: nat_mod_distrib nat_add_distrib)
  then show "ring_contents (ringbuffer_drop q n) = drop (nat n) (ring_contents q)"
    using ring_take_drop [of "nat n" "nat (rb_count q)" b "nat (rb_rpm q)"] b(1) assms(2,3)
    by (simp add: ring_contents_def ringbuffer_drop_def adv nat_diff_distrib)
  have "n + rb_rpm q > rb_capacity q \<longleftrightarrow> nat (rb_rpm q) + nat n > length b"
    "nat (rb_capacity q - rb_rpm q) = length b - nat (rb_rpm q)"
    "nat (n - (rb_capacity q - rb_rpm q)) = nat n - (length b - nat (rb_rpm q))"
    using b(2) inv assms(2) by (auto simp: nat_diff_distrib)
  note eqs = this
  have lt: "nat (rb_rpm q) < length b" "nat n \<le> length b" using b(2) inv assms(2,3) by auto
  have "ringbuffer_peek q n = ring_take b (nat (rb_rpm q)) (nat n)"
    unfolding ringbuffer_peek_def b(1) Let_def option.sel eqs ring_take_pieces [OF lt] by simp
  then show "ringbuffer_peek q n = take (nat n) (ring_contents q)"
    using b(1) assms(3) by (simp add: ring_contents_def take_ring_take)
qed

interpretation ring: byte_fifo ring_inv ring_contents ring_room "\<lambda>q d. ringbuffer_put q (Some d) (int (length d))"
    "\<lambda>q n. (ringbuffer_drop q (int n), ringbuffer_peek q (int n))"
proof
  fix q and d :: "u8 list" assume "ring_inv q" "length d \<le> ring_room q"
  then have "int (length d) \<le> rb_capacity q - rb_count q" by (auto simp: ring_room_def ring_inv_def)
  note p = ring_put [OF \<open>ring_inv q\<close> _ this, of "Some d"]
  show "ring_inv (ringbuffer_put q (Some d) (int (length d)))" using p by simp
  show "ring_contents (ringbuffer_put q (Some d) (int (length d))) = ring_contents q @ d"
    using p by (simp add: write_src_def)
next
  fix q n assume "ring_inv q" "n \<le> length (ring_contents q)"
  then have "int n \<le> rb_count q" by (auto simp: length_ring_contents ring_inv_def)
  note g = ring_get [OF \<open>ring_inv q\<close> _ this]
  show "ring_inv (fst (ringbuffer_drop q (int n), ringbuffer_peek q (int n)))" using g by simp
  show "snd (ringbuffer_drop q (int n), ringbuffer_peek q (int n)) = take n (ring_contents q) \<and>
      ring_contents (fst (ringbuffer_drop q (int n), ringbuffer_peek q (int n))) = drop n (ring_contents q)"
    using g by simp
qed

section \<open>Threads on the buffer\<close>

text \<open>
  A step is one completed operation of some thread: a fresh call, or the code after a wait. A wait of
  a timed operation can return an error; an untimed one returns 0. What a step wrote or read is its
  label.
\<close>

datatype ring_event = Written "u8 list" | ReadOut "u8 list" | Stopped

definition ptr_ok :: "u8 list option \<Rightarrow> int \<Rightarrow> bool" where
  "ptr_ok ptr n \<longleftrightarrow> 0 \<le> n \<and> (\<forall>d. ptr = Some d \<longrightarrow> n \<le> int (length d))"

inductive ring_step :: "srsran_ringbuffer_t \<Rightarrow> ring_event \<Rightarrow> srsran_ringbuffer_t \<Rightarrow> bool" where
  write_call: "ptr_ok ptr n \<Longrightarrow> srsran_ringbuffer_write_timed_block q ptr n t = Done (q', r) \<Longrightarrow>
    ring_step q (Written (write_src ptr 0 r)) q'"
| write_woken: "ptr_ok ptr n \<Longrightarrow> t \<noteq> 0 \<Longrightarrow> wr = 0 \<or> 0 < t \<Longrightarrow> ringbuffer_write_resume q ptr n t wr = Done (q', r) \<Longrightarrow>
    ring_step q (Written (write_src ptr 0 r)) q'"
| read_call: "0 \<le> n \<Longrightarrow> srsran_ringbuffer_read_timed_block q n = Done (q', out, r) \<Longrightarrow>
    ring_step q (ReadOut (case out of None \<Rightarrow> [] | Some bs \<Rightarrow> bs)) q'"
| read_woken: "0 \<le> n \<Longrightarrow> ringbuffer_read_resume (\<lambda>q. ringbuffer_peek q n) q n wr = Done (q', out, r) \<Longrightarrow>
    ring_step q (ReadOut (case out of None \<Rightarrow> [] | Some bs \<Rightarrow> bs)) q'"
| stop: "ring_step q Stopped (srsran_ringbuffer_stop q)"

inductive ring_run :: "srsran_ringbuffer_t \<Rightarrow> ring_event list \<Rightarrow> srsran_ringbuffer_t \<Rightarrow> bool" where
  idle: "ring_run q [] q"
| step: "ring_step q e q1 \<Longrightarrow> ring_run q1 es q2 \<Longrightarrow> ring_run q (e # es) q2"

inductive_cases ring_step_StoppedE: "ring_step q Stopped q'"
inductive_simps ring_run_Nil [simp]: "ring_run q [] q'"
inductive_simps ring_run_Cons: "ring_run q (e # es) q'"

fun written :: "ring_event \<Rightarrow> u8 list" where
  "written (Written d) = d" | "written (ReadOut d) = []" | "written Stopped = []"

fun read_out :: "ring_event \<Rightarrow> u8 list" where
  "read_out (Written d) = []" | "read_out (ReadOut d) = d" | "read_out Stopped = []"

text \<open>What a write that completes does, and what a read that completes does.\<close>

lemma write_resume_Done:
  assumes "ring_inv q" "ptr_ok ptr n" "ringbuffer_write_resume q ptr n t wr = Done (q', r)"
  obtains (wrote) "0 \<le> r" "r \<le> n" "r \<le> rb_capacity q - rb_count q" "q' = ringbuffer_put q ptr r" "rb_active q"
      "r = n \<or> t = 0 \<and> r = rb_capacity q - rb_count q"
    | (nothing) "q' = q" "r = 0 \<and> \<not> rb_active q \<or> r = RB_ERROR_TIMEOUT \<and> wr = ETIMEDOUT \<or> r = RB_ERROR \<and> wr \<noteq> 0"
proof -
  have le: "rb_count q \<le> rb_capacity q" "0 \<le> n" using assms(1,2) by (auto simp: ring_inv_def ptr_ok_def)
  have "(q' = q \<and> (r = 0 \<and> \<not> rb_active q \<or> r = RB_ERROR_TIMEOUT \<and> wr = ETIMEDOUT \<or> r = RB_ERROR \<and> wr \<noteq> 0)) \<or>
      (0 \<le> r \<and> r \<le> n \<and> r \<le> rb_capacity q - rb_count q \<and> q' = ringbuffer_put q ptr r \<and> rb_active q \<and>
       (r = n \<or> t = 0 \<and> r = rb_capacity q - rb_count q))"
    using assms(3) le unfolding ringbuffer_write_resume_def Let_def by (auto split: if_splits)
  then show thesis using that by blast
qed

lemma read_resume_Done:
  assumes "ring_inv q" "0 \<le> n" "ringbuffer_read_resume f q n wr = Done (q', out, r)"
  obtains (got) "n \<le> rb_count q" "q' = ringbuffer_drop q n" "out = Some (f q)" "r = n" "rb_active q"
    | (nothing) "q' = q" "out = None"
proof -
  have "n \<le> rb_count q \<and> q' = ringbuffer_drop q n \<and> out = Some (f q) \<and> r = n \<and> rb_active q \<or> q' = q \<and> out = None"
    using assms(3) unfolding ringbuffer_read_resume_def by (auto split: if_splits)
  then show thesis using that by blast
qed

lemma write_call_resume:
  "ring_inv q \<Longrightarrow> srsran_ringbuffer_write_timed_block q ptr n t = ringbuffer_write_resume q ptr n t 0"
  by (auto simp: srsran_ringbuffer_write_timed_block_def ring_inv_def)

lemma ring_inv_stop: "ring_inv (srsran_ringbuffer_stop q) = ring_inv q"
  and ring_contents_stop: "ring_contents (srsran_ringbuffer_stop q) = ring_contents q"
  by (simp_all add: ring_inv_def ring_contents_def srsran_ringbuffer_stop_def)

lemma write_src_neg: "r \<le> 0 \<Longrightarrow> write_src ptr 0 r = []"
  by (cases ptr) (simp_all add: write_src_def)

lemma ring_step_write:
  assumes "ring_inv q" "ptr_ok ptr n" "ringbuffer_write_resume q ptr n t wr = Done (q', r)"
  shows "ring_inv q' \<and> ring_contents q' = ring_contents q @ write_src ptr 0 r \<and> rb_capacity q' = rb_capacity q \<and>
    rb_active q' = rb_active q"
  using assms
proof (cases rule: write_resume_Done)
  case wrote
  have "\<forall>d. ptr = Some d \<longrightarrow> r \<le> int (length d)" using assms(2) wrote by (auto simp: ptr_ok_def)
  then show ?thesis using ring_put [OF assms(1) wrote(1,3), of ptr] wrote(4) by simp
qed (use assms(1) in \<open>auto simp: write_src_neg\<close>)

lemma ring_step_read:
  assumes "ring_inv q" "0 \<le> n" "ringbuffer_read_resume (\<lambda>q. ringbuffer_peek q n) q n wr = Done (q', out, r)"
  shows "ring_inv q' \<and> (case out of None \<Rightarrow> [] | Some bs \<Rightarrow> bs) @ ring_contents q' = ring_contents q \<and>
    rb_capacity q' = rb_capacity q \<and> rb_active q' = rb_active q"
  using assms
proof (cases rule: read_resume_Done)
  case got
  then show ?thesis using ring_get [OF assms(1,2) got(1)] by (simp add: ringbuffer_drop_def)
qed (use assms(1) in simp)

lemma ring_step_queue:
  assumes "ring_step q e q'" "ring_inv q"
  shows "ring_inv q' \<and> read_out e @ ring_contents q' = ring_contents q @ written e \<and> rb_capacity q' = rb_capacity q \<and>
    (rb_active q' \<longrightarrow> rb_active q)"
  using assms(1)
proof (cases rule: ring_step.cases)
  case (write_call ptr n t r)
  then show ?thesis using ring_step_write [OF assms(2), of ptr n t 0 q' r] assms(2) by (simp add: write_call_resume)
next
  case (write_woken ptr n t wr r)
  then show ?thesis using ring_step_write [OF assms(2), of ptr n t wr q' r] by simp
next
  case (read_call n out r)
  then show ?thesis
    using ring_step_read [OF assms(2), of n 0 q' out r] by (simp add: srsran_ringbuffer_read_timed_block_def)
next
  case (read_woken n wr out r)
  then show ?thesis using ring_step_read [OF assms(2), of n wr q' out r] by simp
next
  case stop
  then show ?thesis using assms(2) by (simp add: ring_inv_stop ring_contents_stop) (simp add: srsran_ringbuffer_stop_def)
qed

section \<open>Properties\<close>

lemma write_resume_defined:
  assumes "ring_inv q" "rb_capacity q \<le> 2 ^ 30" "ptr_ok ptr n" "n < 2 ^ 31 - rb_capacity q"
  shows "ringbuffer_write_resume q ptr n t wr \<noteq> Undefined"
proof -
  have q: "0 \<le> rb_count q" "rb_count q \<le> rb_capacity q" "0 \<le> rb_wpm q" "rb_wpm q < rb_capacity q" "0 \<le> n"
    using assms(1,3) by (auto simp: ring_inv_def ptr_ok_def)
  have "int_ok (rb_count q + n)" using q assms(4) by (simp add: int_ok_sum)
  moreover have "int_ok (rb_wpm q + n)" using q assms(4) by (simp add: int_ok_sum)
  moreover have "int_ok (rb_wpm q + (rb_capacity q - rb_count q))" using q assms(2) by (simp add: int_ok_sum)
  ultimately show ?thesis by (simp add: ringbuffer_write_resume_def Let_def)
qed

lemma read_resume_defined:
  assumes "ring_inv q" "rb_capacity q \<le> 2 ^ 30" "0 \<le> n"
  shows "ringbuffer_read_resume f q n wr \<noteq> Undefined"
proof -
  have q: "rb_count q \<le> rb_capacity q" "0 \<le> rb_rpm q" "rb_rpm q < rb_capacity q" using assms(1) by (auto simp: ring_inv_def)
  have "n \<le> rb_count q \<Longrightarrow> int_ok (n + rb_rpm q)" using q assms(2,3) by (simp add: int_ok_sum)
  then show ?thesis by (auto simp: ringbuffer_read_resume_def)
qed

text \<open>
  C1: For any number of threads and any interleaving of their reads, writes and waits, none of whose sums leaves the
  range of an \<open>int\<close>, the buffer is a bounded queue: every reachable state satisfies the invariant, the capacity
  does not change, and the bytes read so far followed by the bytes in the buffer are the bytes that were in the
  buffer followed by the bytes written, in order, with no byte lost, duplicated or reordered. In a buffer of at
  most \<open>2 ^ 30\<close> bytes no sum overflows in any reachable state, as long as every write is shorter than \<open>2 ^ 31\<close> less
  the capacity, and whatever the reads.
\<close>

theorem ring_buffer_fifo:
  assumes "ring_run q es q'" "ring_inv q"
  shows "ring_inv q' \<and> rb_capacity q' = rb_capacity q \<and> srsran_ringbuffer_status q' = int (length (ring_contents q')) \<and>
    int (length (ring_contents q')) + srsran_ringbuffer_space q' = rb_capacity q \<and>
    concat (map read_out es) @ ring_contents q' = ring_contents q @ concat (map written es) \<and>
    (rb_capacity q \<le> 2 ^ 30 \<longrightarrow>
      (\<forall>ptr n t wr. ptr_ok ptr n \<and> n < 2 ^ 31 - rb_capacity q \<longrightarrow> ringbuffer_write_resume q' ptr n t wr \<noteq> Undefined) \<and>
      (\<forall>n wr. 0 \<le> n \<longrightarrow> ringbuffer_read_resume (\<lambda>q. ringbuffer_peek q n) q' n wr \<noteq> Undefined))"
proof -
  have run: "ring_inv q' \<and> rb_capacity q' = rb_capacity q \<and>
      concat (map read_out es) @ ring_contents q' = ring_contents q @ concat (map written es)"
    using assms
  proof (induction rule: ring_run.induct)
    case (step q e q1 es q2)
    have s: "ring_inv q1" "read_out e @ ring_contents q1 = ring_contents q @ written e" "rb_capacity q1 = rb_capacity q"
      using ring_step_queue [OF step.hyps(1) step.prems] by auto
    have "concat (map read_out es) @ ring_contents q2 = ring_contents q1 @ concat (map written es)"
      using step.IH [OF s(1)] by simp
    then have "read_out e @ concat (map read_out es) @ ring_contents q2 = ring_contents q @ written e @ concat (map written es)"
      using s(2) by (metis append.assoc)
    then show ?case using step.IH [OF s(1)] s(3) by simp
  qed simp
  moreover from this have "int (length (ring_contents q')) = rb_count q'" by (auto simp: ring_inv_def length_ring_contents)
  moreover have "ringbuffer_write_resume q' ptr n t wr \<noteq> Undefined"
    if "rb_capacity q \<le> 2 ^ 30" "ptr_ok ptr n" "n < 2 ^ 31 - rb_capacity q" for ptr n t wr
    using that run write_resume_defined [of q'] by auto
  moreover have "ringbuffer_read_resume (\<lambda>q. ringbuffer_peek q n) q' n wr \<noteq> Undefined"
    if "rb_capacity q \<le> 2 ^ 30" "0 \<le> n" for n wr
    using that run read_resume_defined [of q' n "\<lambda>q. ringbuffer_peek q n" wr] by auto
  ultimately show ?thesis by (simp add: srsran_ringbuffer_status_def srsran_ringbuffer_space_def)
qed

definition ring_example :: srsran_ringbuffer_t where
  "ring_example = \<lparr>rb_buffer = Some [0, 0, 0, 9], rb_active = True, rb_capacity = 4, rb_count = 1, rb_wpm = 0, rb_rpm = 3\<rparr>"

lemma ring_example_inv: "ring_inv ring_example" "ring_contents ring_example = [9]"
  by (simp_all add: ring_inv_def ring_example_def ring_contents_def ring_take_def ring_nth_def int_ok_def)

theorem ring_buffer_fifo_witness:
  "\<exists>q'. ring_run ring_example [Written [1, 2], ReadOut [9, 1]] q' \<and> [9, 1] @ ring_contents q' = [9, 1, 2]"
proof -
  let ?q1 = "ring_example\<lparr>rb_buffer := Some [1, 2, 0, 9], rb_wpm := 2, rb_count := 3\<rparr>"
  let ?q2 = "?q1\<lparr>rb_rpm := 1, rb_count := 1\<rparr>"
  have "srsran_ringbuffer_write_timed_block ring_example (Some [1, 2]) 2 0 = Done (?q1, 2)"
    by (simp add: srsran_ringbuffer_write_timed_block_def ringbuffer_write_resume_def ring_example_def ringbuffer_put_def
        write_src_def store_def advance_def int_ok_def Let_def)
  then have 1: "ring_step ring_example (Written [1, 2]) ?q1"
    using write_call [of "Some [1, 2]" 2 ring_example 0 ?q1 2] by (simp add: ptr_ok_def write_src_def)
  have "srsran_ringbuffer_read_timed_block ?q1 2 = Done (?q2, Some [9, 1], 2)"
    by (simp add: srsran_ringbuffer_read_timed_block_def ringbuffer_read_resume_def ring_example_def ringbuffer_drop_def
        ringbuffer_peek_def advance_def int_ok_def Let_def)
  then have 2: "ring_step ?q1 (ReadOut [9, 1]) ?q2" using read_call [of 2 ?q1 ?q2 "Some [9, 1]" 2] by simp
  have run: "ring_run ring_example [Written [1, 2], ReadOut [9, 1]] ?q2"
    using 1 2 by (auto simp: ring_run_Cons)
  then show ?thesis using ring_buffer_fifo [OF run ring_example_inv(1)] ring_example_inv(2) by auto
qed

text \<open>
  C27: The result of a call on every branch, for capacities up to \<open>2 ^ 30\<close>. A write with room appends all its bytes
  and returns their number; without room it is blocked, except with timeout 0, where it fills the buffer, drops
  the rest and returns what it wrote. A read removes the oldest bytes and returns them when enough are there and
  is blocked otherwise. After \<open>srsran_ringbuffer_stop\<close> both return 0 and change nothing. A wait that timed out
  makes both return \<open>SRSRAN_ERROR_TIMEOUT\<close>, one that failed otherwise \<open>SRSRAN_ERROR\<close>, or 0 when the buffer was
  stopped, and the buffer is unchanged. A write without a buffer is refused. A write whose length overflows the
  sum with the bytes in the buffer, which the code computes before it looks at anything else, is undefined.
\<close>

theorem ring_call_outcome:
  assumes "ring_inv q" "ptr_ok ptr n" "0 \<le> k" "rb_capacity q \<le> 2 ^ 30" "wr \<noteq> 0" "wr \<noteq> ETIMEDOUT"
  shows "let space = srsran_ringbuffer_space q; count = srsran_ringbuffer_status q in
    (rb_active q \<and> n \<le> space \<longrightarrow> (\<exists>q'. srsran_ringbuffer_write_timed_block q ptr n t = Done (q', n) \<and> ring_inv q' \<and>
      ring_contents q' = ring_contents q @ write_src ptr 0 n)) \<and>
    (rb_active q \<and> space < n \<and> count + n < 2 ^ 31 \<longrightarrow> srsran_ringbuffer_write_block q ptr n = Blocked \<and>
      (t \<noteq> 0 \<longrightarrow> srsran_ringbuffer_write_timed q ptr n t = Blocked) \<and>
      (\<exists>q'. srsran_ringbuffer_write q ptr n = Done (q', space) \<and> ring_inv q' \<and> srsran_ringbuffer_space q' = 0 \<and>
            ring_contents q' = ring_contents q @ write_src ptr 0 space)) \<and>
    (rb_active q \<and> k \<le> count \<longrightarrow> (\<exists>q'. srsran_ringbuffer_read q k = Done (q', Some (take (nat k) (ring_contents q)), k) \<and>
      ring_inv q' \<and> ring_contents q' = drop (nat k) (ring_contents q))) \<and>
    (rb_active q \<and> count < k \<longrightarrow> srsran_ringbuffer_read q k = Blocked) \<and>
    (\<not> rb_active q \<and> count + n < 2 ^ 31 \<longrightarrow> srsran_ringbuffer_write_timed_block q ptr n t = Done (q, 0)) \<and>
    (\<not> rb_active q \<longrightarrow> srsran_ringbuffer_read q k = Done (q, None, 0)) \<and>
    (count + n < 2 ^ 31 \<longrightarrow> ringbuffer_write_resume q ptr n t ETIMEDOUT = Done (q, RB_ERROR_TIMEOUT) \<and>
      ringbuffer_write_resume q ptr n t wr = Done (q, if rb_active q then RB_ERROR else 0)) \<and>
    ringbuffer_read_resume (\<lambda>q. ringbuffer_peek q k) q k ETIMEDOUT = Done (q, None, RB_ERROR_TIMEOUT) \<and>
    ringbuffer_read_resume (\<lambda>q. ringbuffer_peek q k) q k wr = Done (q, None, if rb_active q then RB_ERROR else 0) \<and>
    srsran_ringbuffer_write_timed_block (q\<lparr>rb_buffer := None\<rparr>) ptr n t = Done (q\<lparr>rb_buffer := None\<rparr>, RB_ERROR_INVALID_INPUTS) \<and>
    (2 ^ 31 \<le> count + n \<longrightarrow> srsran_ringbuffer_write_timed_block q ptr n t = Undefined)"
proof -
  define space count where "space = srsran_ringbuffer_space q" and "count = srsran_ringbuffer_status q"
  have ptr: "\<forall>d. ptr = Some d \<longrightarrow> n \<le> int (length d)" "0 \<le> n" using assms(2) by (auto simp: ptr_ok_def)
  have b: "rb_buffer q \<noteq> None" and sp: "0 \<le> space" "space = rb_capacity q - rb_count q" "count = rb_count q" "0 \<le> rb_count q"
    and pos: "0 \<le> rb_rpm q" "rb_rpm q < rb_capacity q" "0 \<le> rb_wpm q" "rb_wpm q < rb_capacity q"
    using assms(1) by (auto simp: ring_inv_def space_def count_def srsran_ringbuffer_space_def srsran_ringbuffer_status_def)
  have fits: "int_ok (rb_count q + n) \<longleftrightarrow> rb_count q + n < 2 ^ 31" using sp(4) ptr(2) by (rule int_ok_sum)
  have w_ok: "int_ok (rb_wpm q + m)" if "0 \<le> m" "m \<le> space" for m
    using that pos sp assms(4) by (simp add: int_ok_sum)
  have r_ok: "int_ok (k + rb_rpm q)" if "k \<le> count" using that pos sp assms(3,4) by (simp add: int_ok_sum)
  note w = srsran_ringbuffer_write_timed_block_def ringbuffer_write_resume_def srsran_ringbuffer_write_def
    srsran_ringbuffer_write_block_def srsran_ringbuffer_write_timed_def Let_def
  note r = srsran_ringbuffer_read_def srsran_ringbuffer_read_timed_block_def ringbuffer_read_resume_def
  have room: "rb_active q \<and> n \<le> space \<longrightarrow> (\<exists>q'. srsran_ringbuffer_write_timed_block q ptr n t = Done (q', n) \<and> ring_inv q' \<and>
      ring_contents q' = ring_contents q @ write_src ptr 0 n)"
    using b sp w_ok ptr(2) fits assms(4) ring_put [OF assms(1) ptr(2) _ ptr(1)] by (auto simp: w)
  have full: "rb_active q \<and> space < n \<and> count + n < 2 ^ 31 \<longrightarrow> srsran_ringbuffer_write_block q ptr n = Blocked \<and>
      (t \<noteq> 0 \<longrightarrow> srsran_ringbuffer_write_timed q ptr n t = Blocked) \<and>
      (\<exists>q'. srsran_ringbuffer_write q ptr n = Done (q', space) \<and> ring_inv q' \<and> srsran_ringbuffer_space q' = 0 \<and>
            ring_contents q' = ring_contents q @ write_src ptr 0 space)" (is "_ \<longrightarrow> ?full")
  proof
    assume a: "rb_active q \<and> space < n \<and> count + n < 2 ^ 31"
    then have "\<forall>d. ptr = Some d \<longrightarrow> space \<le> int (length d)" using ptr(1) by auto
    then show ?full
      using a b sp w_ok fits ring_put [OF assms(1) sp(1), of ptr] by (simp add: w srsran_ringbuffer_space_def)
  qed
  have reads: "rb_active q \<and> k \<le> count \<longrightarrow> (\<exists>q'. srsran_ringbuffer_read q k = Done (q', Some (take (nat k) (ring_contents q)), k) \<and>
      ring_inv q' \<and> ring_contents q' = drop (nat k) (ring_contents q))"
    "rb_active q \<and> count < k \<longrightarrow> srsran_ringbuffer_read q k = Blocked"
    "\<not> rb_active q \<longrightarrow> srsran_ringbuffer_read q k = Done (q, None, 0)"
    using sp(3) r_ok ring_get [OF assms(1,3)] by (simp_all add: r)
  have other: "\<not> rb_active q \<and> count + n < 2 ^ 31 \<longrightarrow> srsran_ringbuffer_write_timed_block q ptr n t = Done (q, 0)"
    "2 ^ 31 \<le> count + n \<longrightarrow> srsran_ringbuffer_write_timed_block q ptr n t = Undefined"
    "srsran_ringbuffer_write_timed_block (q\<lparr>rb_buffer := None\<rparr>) ptr n t = Done (q\<lparr>rb_buffer := None\<rparr>, RB_ERROR_INVALID_INPUTS)"
    using b sp(3) fits by (auto simp: w)
  have errors: "count + n < 2 ^ 31 \<longrightarrow> ringbuffer_write_resume q ptr n t ETIMEDOUT = Done (q, RB_ERROR_TIMEOUT) \<and>
      ringbuffer_write_resume q ptr n t wr = Done (q, if rb_active q then RB_ERROR else 0)"
    using sp(3) fits assms(5,6) by (simp add: w)
  have read_errors: "ringbuffer_read_resume (\<lambda>q. ringbuffer_peek q k) q k ETIMEDOUT = Done (q, None, RB_ERROR_TIMEOUT)"
      "ringbuffer_read_resume (\<lambda>q. ringbuffer_peek q k) q k wr = Done (q, None, if rb_active q then RB_ERROR else 0)"
    using assms(5,6) by (simp_all add: r)
  show ?thesis
    unfolding Let_def space_def [symmetric] count_def [symmetric]
    by (intro conjI room full reads other errors read_errors)
qed

theorem ring_call_outcome_witness:
  "srsran_ringbuffer_write_block ring_example (Some [1, 2, 3, 4]) 4 = Blocked \<and>
   (\<exists>q'. srsran_ringbuffer_write ring_example (Some [1, 2, 3, 4]) 4 = Done (q', 3) \<and> ring_contents q' = [9, 1, 2, 3]) \<and>
   srsran_ringbuffer_read ring_example 2 = Blocked \<and>
   ringbuffer_write_resume ring_example (Some [1, 2, 3, 4]) 4 1 EINVAL = Done (ring_example, RB_ERROR) \<and>
   srsran_ringbuffer_write_timed_block ring_example None (2 ^ 31 - 1) 0 = Undefined"
proof -
  have p: "ptr_ok (Some [1, 2, 3, 4]) 4" "ptr_ok None (2 ^ 31 - 1)" by (simp_all add: ptr_ok_def)
  have v: "rb_capacity ring_example \<le> 2 ^ 30" "srsran_ringbuffer_space ring_example = 3" "srsran_ringbuffer_status ring_example = 1"
    "rb_active ring_example"
    by (simp_all add: srsran_ringbuffer_space_def srsran_ringbuffer_status_def ring_example_def)
  note o1 = ring_call_outcome [OF ring_example_inv(1) p(1) _ v(1), of 2 EINVAL]
  note o2 = ring_call_outcome [OF ring_example_inv(1) p(2) _ v(1), of 2 EINVAL]
  show ?thesis
    using o1 [of 1] o2 [of 0] v ring_example_inv(2) by (auto simp: write_src_def Let_def)
qed

text \<open>
  the absolute deadlines of the timed operations. The deadline of a write is exactly the requested
  time away, but its nanoseconds are a legal \<open>timespec\<close> value only when the fractions of the clock and
  of the timeout do not add up to a second. The deadline of a read is always a legal value, but it counts
  the milliseconds below a second as microseconds, so it is the requested time only when the timeout is
  a whole number of seconds.
\<close>

theorem ring_deadlines:
  assumes "0 \<le> usec" "usec < 1000000" "0 \<le> nsec" "nsec < 1000000000" "0 < timeout_ms"
  shows "(let (s, ns) = write_deadline sec usec timeout_ms
      in s * 1000000000 + ns = sec * 1000000000 + usec * 1000 + timeout_ms * 1000000 \<and> 0 \<le> ns \<and>
         (ns < 1000000000 \<longleftrightarrow> usec + 1000 * (timeout_ms mod 1000) < 1000000)) \<and>
    (let (s, ns) = read_deadline sec nsec timeout_ms
      in 0 \<le> ns \<and> ns < 1000000000 \<and>
         s * 1000000000 + ns = sec * 1000000000 + nsec + (timeout_ms div 1000) * 1000000000 + (timeout_ms mod 1000) * 1000 \<and>
         (s * 1000000000 + ns = sec * 1000000000 + nsec + timeout_ms * 1000000 \<longleftrightarrow> timeout_ms mod 1000 = 0))"
proof -
  define a b where "a = timeout_ms div 1000" and "b = timeout_ms mod 1000"
  have t: "timeout_ms = 1000 * a + b" "0 \<le> b" "b < 1000" by (simp_all add: a_def b_def)
  define c d where "c = (nsec + b * 1000) div 1000000000" and "d = (nsec + b * 1000) mod 1000000000"
  have n: "nsec + b * 1000 = 1000000000 * c + d" "0 \<le> d" "d < 1000000000" by (simp_all add: c_def d_def)
  have w: "write_deadline sec usec timeout_ms = (sec + a, (usec + 1000 * b) * 1000)"
    by (simp add: write_deadline_def a_def b_def)
  have r: "read_deadline sec nsec timeout_ms = (sec + a + c, d)"
    by (simp add: read_deadline_def Let_def a_def b_def c_def d_def)
  show ?thesis
    unfolding w r Let_def prod.case a_def [symmetric] b_def [symmetric] using t n assms by auto
qed

theorem ring_deadlines_witness:
  "write_deadline 10 600000 500 = (10, 1100000000) \<and> read_deadline 10 0 500 = (10, 500000) \<and>
   \<not> snd (write_deadline 10 600000 500) < 1000000000"
  using ring_deadlines [of 600000 0 500 10] by (simp add: write_deadline_def read_deadline_def)

text \<open>\<open>n\<close> samples read from the front of an array, also when it is followed by something else.\<close>

lemma shorts_prefix: "2 * nat n \<le> length xs \<Longrightarrow> shorts (xs @ ys) n = shorts xs n"
  unfolding shorts_def by (rule map_cong) (auto simp: nth_append)

lemma shorts_append:
  assumes "length xs = 2 * nat m" "0 \<le> m" "0 \<le> k"
  shows "shorts (xs @ ys) (m + k) = shorts xs m @ shorts ys k"
proof (rule nth_equalityI)
  fix i assume "i < length (shorts (xs @ ys) (m + k))"
  then have i: "i < nat m + nat k" using assms by (simp add: shorts_def nat_add_distrib)
  then have "i < nat (m + k)" using assms by (simp add: nat_add_distrib)
  then show "shorts (xs @ ys) (m + k) ! i = (shorts xs m @ shorts ys k) ! i"
    using i assms(1) by (auto simp: shorts_def nth_append right_diff_distrib' Suc_diff_le)
qed (use assms in \<open>simp add: shorts_def nat_add_distrib\<close>)

text \<open>
  the two reads that hand out a part of the array itself. When the block size divides the capacity and
  the read position, the pointer \<open>srsran_ringbuffer_read_block\<close> returns is followed by the oldest
  \<open>n\<close> bytes without wrapping around, and the read position stays a multiple of the block size. When
  capacity and read position are even, \<open>srsran_ringbuffer_read_convert_conj\<close> converts exactly the samples
  encoded by the oldest bytes, in order, also when they wrap around.
\<close>

theorem ring_read_windows:
  assumes "ring_inv q" "rb_active q"
  shows "(0 < n \<and> n \<le> rb_count q \<and> n dvd rb_capacity q \<and> n dvd rb_rpm q \<longrightarrow>
      (\<exists>q' off. srsran_ringbuffer_read_block q n = Done (q', Some off, n) \<and> 0 \<le> off \<and> off + n \<le> rb_capacity q \<and>
         take (nat n) (drop (nat off) (the (rb_buffer q))) = take (nat n) (ring_contents q) \<and>
         ring_inv q' \<and> ring_contents q' = drop (nat n) (ring_contents q) \<and> n dvd rb_rpm q')) \<and>
    (0 \<le> s \<and> 4 * s \<le> rb_count q \<and> even (rb_capacity q) \<and> even (rb_rpm q) \<and> rb_capacity q \<le> 2 ^ 30 \<longrightarrow>
      (\<exists>q'. srsran_ringbuffer_read_convert_conj conv cnj q s =
           Done (q', Some (cnj (map conv (shorts (take (nat (4 * s)) (ring_contents q)) (2 * s)))), s) \<and>
         ring_inv q' \<and> ring_contents q' = drop (nat (4 * s)) (ring_contents q)))"
proof -
  obtain b where b: "rb_buffer q = Some b" "int (length b) = rb_capacity q" using assms(1) by (auto simp: ring_inv_def)
  have inv: "0 < rb_capacity q" "0 \<le> rb_count q" "rb_count q \<le> rb_capacity q" "0 \<le> rb_rpm q" "rb_rpm q < rb_capacity q"
    using assms(1) by (auto simp: ring_inv_def)
  have cap_ok: "int_ok (rb_capacity q)" using assms(1) by (simp add: ring_inv_def)
  have block: "\<exists>q' off. srsran_ringbuffer_read_block q n = Done (q', Some off, n) \<and> 0 \<le> off \<and> off + n \<le> rb_capacity q \<and>
         take (nat n) (drop (nat off) (the (rb_buffer q))) = take (nat n) (ring_contents q) \<and>
         ring_inv q' \<and> ring_contents q' = drop (nat n) (ring_contents q) \<and> n dvd rb_rpm q'"
    if n: "0 < n" "n \<le> rb_count q" "n dvd rb_capacity q" "n dvd rb_rpm q"
  proof -
    obtain c r where cr: "rb_capacity q = n * c" "rb_rpm q = n * r" using n(3,4) by (auto elim!: dvdE)
    then have "r < c" using inv n(1) by simp
    then have "n * (r + 1) \<le> n * c" using n(1) by (intro mult_left_mono) auto
    then have fit: "rb_rpm q + n \<le> rb_capacity q" by (simp add: cr algebra_simps)
    have g: "ring_inv (ringbuffer_drop q n)" "ring_contents (ringbuffer_drop q n) = drop (nat n) (ring_contents q)"
      "ringbuffer_peek q n = take (nat n) (ring_contents q)" using ring_get [OF assms(1) _ n(2)] n(1) by auto
    have "take (nat n) (drop (nat (rb_rpm q)) b) = take (nat n) (ring_contents q)"
      using g(3) fit b(1) by (simp add: ringbuffer_peek_def Let_def split: if_splits)
    moreover have "n dvd rb_rpm (ringbuffer_drop q n)" using n by (simp add: ringbuffer_drop_def advance_def)
    ultimately show ?thesis
      using g(1,2) fit inv n(1,2) assms(2) b(1) int_ok_between [OF cap_ok, of "n + rb_rpm q"]
      by (simp add: srsran_ringbuffer_read_block_def ringbuffer_read_resume_def)
  qed
  have convert: "\<exists>q'. srsran_ringbuffer_read_convert_conj conv cnj q s =
           Done (q', Some (cnj (map conv (shorts (take (nat (4 * s)) (ring_contents q)) (2 * s)))), s) \<and>
         ring_inv q' \<and> ring_contents q' = drop (nat (4 * s)) (ring_contents q)"
    if s: "0 \<le> s" "4 * s \<le> rb_count q" "even (rb_capacity q)" "even (rb_rpm q)" and fits: "rb_capacity q \<le> 2 ^ 30"
  proof -
    have g: "ring_inv (ringbuffer_drop q (4 * s))" "ring_contents (ringbuffer_drop q (4 * s)) = drop (nat (4 * s)) (ring_contents q)"
      "ringbuffer_peek q (4 * s) = take (nat (4 * s)) (ring_contents q)" using ring_get [OF assms(1) _ s(2)] s(1) by auto
    define x where "x = rb_capacity q - rb_rpm q"
    let ?d = "drop (nat (rb_rpm q)) b"
    have ld: "int (length ?d) = x" using b(2) inv by (simp add: x_def of_nat_diff)
    have "even x" "0 \<le> x" using s(3,4) inv by (simp_all add: x_def)
    then obtain m where m: "x = 2 * m" "0 \<le> m" by (auto elim!: evenE)
    have "(if s * 4 + rb_rpm q > rb_capacity q then map conv (shorts ?d (x div 2)) @ map conv (shorts b (2 * s - x div 2))
        else map conv (shorts ?d (2 * s))) = map conv (shorts (ringbuffer_peek q (4 * s)) (2 * s))"
    proof (cases "s * 4 + rb_rpm q > rb_capacity q")
      case True
      then have k: "0 \<le> 2 * s - m" "2 * m < 4 * s" using m by (auto simp: x_def)
      have "ringbuffer_peek q (4 * s) = ?d @ take (nat (4 * s - x)) b"
        using True b(1) ld by (simp add: ringbuffer_peek_def Let_def x_def [symmetric])
      moreover have "length ?d = 2 * nat m" using ld m by simp
      moreover have "shorts (take (nat (4 * s - x)) b) (2 * s - m) = shorts b (2 * s - m)"
      proof -
        have "2 * nat (2 * s - m) \<le> length (take (nat (4 * s - x)) b)"
          using k m s(2) inv b(2) by (auto simp: min_def nat_le_iff)
        from shorts_prefix [OF this, of "drop (nat (4 * s - x)) b", unfolded append_take_drop_id] show ?thesis ..
      qed
      ultimately show ?thesis
        using True k m shorts_append [of ?d m "2 * s - m" "take (nat (4 * s - x)) b"] by simp
    next
      case False
      then have "ringbuffer_peek q (4 * s) = take (nat (4 * s)) ?d"
        using b(1) by (simp add: ringbuffer_peek_def Let_def)
      moreover have "2 * nat (2 * s) \<le> length (take (nat (4 * s)) ?d)"
        using False s(1) ld by (auto simp: x_def)
      from shorts_prefix [OF this, of "drop (nat (4 * s)) ?d", unfolded append_take_drop_id]
      have "shorts (take (nat (4 * s)) ?d) (2 * s) = shorts ?d (2 * s)" ..
      ultimately show ?thesis using False by simp
    qed
    note eq = this
    have c: "(rb_count q < s * 4 \<and> rb_active q) = False" "(\<not> rb_active q) = False" using s(2) assms(2) by auto
    have "s * 4 < 2 ^ 31" using s(2) inv cap_ok by (simp add: int_ok_def)
    then have ok: "s * 4 mod 2 ^ 32 = s * 4" "(\<not> int_ok (s * 4)) = False" using s(1) by (simp_all add: int_ok_def)
    have ok': "(\<not> int_ok (rb_rpm q + s * 4)) = False" using s fits inv by (simp add: int_ok_sum)
    have "srsran_ringbuffer_read_convert_conj conv cnj q s =
        Done (ringbuffer_drop q (s * 4), Some (cnj (map conv (shorts (ringbuffer_peek q (4 * s)) (2 * s)))), s)"
      unfolding srsran_ringbuffer_read_convert_conj_def Let_def b(1) option.sel ok ok' c if_False x_def [symmetric] eq ..
    then have "srsran_ringbuffer_read_convert_conj conv cnj q s =
        Done (ringbuffer_drop q (4 * s), Some (cnj (map conv (shorts (ringbuffer_peek q (4 * s)) (2 * s)))), s)"
      by (simp only: mult.commute [of s 4])
    then show ?thesis using g by auto
  qed
  show ?thesis using block convert by blast
qed

theorem ring_read_windows_witness:
  "\<exists>q' off. srsran_ringbuffer_read_block (ring_example\<lparr>rb_rpm := 2, rb_count := 2\<rparr>) 2 = Done (q', Some off, 2) \<and>
     off + 2 \<le> rb_capacity ring_example"
proof -
  have "ring_inv (ring_example\<lparr>rb_rpm := 2, rb_count := 2\<rparr>)" by (simp add: ring_inv_def ring_example_def int_ok_def)
  moreover have "rb_active (ring_example\<lparr>rb_rpm := 2, rb_count := 2\<rparr>)" by (simp add: ring_example_def)
  ultimately show ?thesis
    using ring_read_windows [of "ring_example\<lparr>rb_rpm := 2, rb_count := 2\<rparr>" 2 0 id id]
    by (auto simp: ring_example_def)
qed

text \<open>Initialisation, resizing and reset give an empty buffer.\<close>

lemma ring_init:
  assumes "int (length mem) = capacity" "0 < capacity" "int_ok capacity"
  shows "\<exists>q'. srsran_ringbuffer_init q (Some mem) capacity = (q', 0) \<and> ring_inv q' \<and> ring_contents q' = [] \<and> rb_active q'"
    "ring_inv q \<Longrightarrow> \<exists>q'. srsran_ringbuffer_resize q (Some mem) capacity = (q', 0) \<and> ring_inv q' \<and> ring_contents q' = [] \<and> rb_active q'"
    "ring_inv q \<Longrightarrow> ring_inv (srsran_ringbuffer_reset q) \<and> ring_contents (srsran_ringbuffer_reset q) = []"
  using assms by (auto simp: srsran_ringbuffer_init_def srsran_ringbuffer_resize_def srsran_ringbuffer_reset_def Let_def
      ring_inv_def ring_contents_def ring_take_def)

end
