(* ===== verification/Ring_Threads.thy ===== *)
theory Ring_Threads
  imports Ring_Buffer
begin

text \<open>
  The threads of the ring buffer and its two condition variables: who sleeps, who is woken, and that no wake-up
  is lost. A call that waits releases the mutex and sleeps on a condition variable; a call that completes
  broadcasts the other one before it releases the mutex (\<open>ringbuffer.c\<close>, lines 180, 252, 297 and 352).
\<close>

section \<open>Calls and threads\<close>

datatype ring_cvar = write_cvar | read_cvar

datatype ring_call =
  WriteCall "u8 list option" int int
| ReadCall int int
| BlockCall int int
| ConvertCall int

datatype ring_thread = Idle | Asleep ring_call | Woken ring_call int

fun call_ok :: "ring_call \<Rightarrow> bool" where
  "call_ok (WriteCall ptr n t) = ptr_ok ptr n"
| "call_ok (ReadCall n t) \<longleftrightarrow> 0 \<le> n"
| "call_ok (BlockCall n t) \<longleftrightarrow> 0 \<le> n"
| "call_ok (ConvertCall s) \<longleftrightarrow> 0 \<le> s"

text \<open>The timeout of a wait; \<open>srsran_ringbuffer_read_convert_conj\<close> waits without one.\<close>

fun call_timeout :: "ring_call \<Rightarrow> int" where
  "call_timeout (WriteCall ptr n t) = t"
| "call_timeout (ReadCall n t) = t"
| "call_timeout (BlockCall n t) = t"
| "call_timeout (ConvertCall s) = -1"

fun waits_on :: "ring_call \<Rightarrow> ring_cvar" where
  "waits_on (WriteCall ptr n t) = read_cvar"
| "waits_on (ReadCall n t) = write_cvar"
| "waits_on (BlockCall n t) = write_cvar"
| "waits_on (ConvertCall s) = write_cvar"

text \<open>What the state contributes to the condition of the waiting loop.\<close>

fun call_waits :: "srsran_ringbuffer_t \<Rightarrow> ring_call \<Rightarrow> bool" where
  "call_waits q (WriteCall ptr n t) \<longleftrightarrow> rb_count q + n > rb_capacity q \<and> rb_active q"
| "call_waits q (ReadCall n t) \<longleftrightarrow> rb_count q < n \<and> rb_active q"
| "call_waits q (BlockCall n t) \<longleftrightarrow> rb_count q < n \<and> rb_active q"
| "call_waits q (ConvertCall s) \<longleftrightarrow> rb_count q < s * 4 mod 2 ^ 32 \<and> rb_active q"

text \<open>
  A call from the moment it has the mutex until it releases it, with the condition variables it broadcasts. A
  conversion that finds the buffer stopped returns without a broadcast.
\<close>

fun ring_execute :: "srsran_ringbuffer_t \<Rightarrow> ring_call \<Rightarrow> int \<Rightarrow> (srsran_ringbuffer_t \<times> ring_cvar set) outcome" where
  "ring_execute q (WriteCall ptr n t) wait_ret =
     (case ringbuffer_write_resume q ptr n t wait_ret of
        Done (q', r) \<Rightarrow> Done (q', {write_cvar}) | Blocked \<Rightarrow> Blocked | Undefined \<Rightarrow> Undefined)"
| "ring_execute q (ReadCall n t) wait_ret =
     (case ringbuffer_read_resume (\<lambda>q. ringbuffer_peek q n) q n wait_ret of
        Done (q', out, r) \<Rightarrow> Done (q', {read_cvar}) | Blocked \<Rightarrow> Blocked | Undefined \<Rightarrow> Undefined)"
| "ring_execute q (BlockCall n t) wait_ret =
     (case ringbuffer_read_resume rb_rpm q n wait_ret of
        Done (q', out, r) \<Rightarrow> Done (q', {read_cvar}) | Blocked \<Rightarrow> Blocked | Undefined \<Rightarrow> Undefined)"
| "ring_execute q (ConvertCall s) wait_ret =
     (case srsran_ringbuffer_read_convert_conj id id q s of
        Done (q', out, r) \<Rightarrow> Done (q', if out = None then {} else {read_cvar}) | Blocked \<Rightarrow> Blocked | Undefined \<Rightarrow> Undefined)"

definition broadcast :: "ring_cvar set \<Rightarrow> (nat \<Rightarrow> ring_thread) \<Rightarrow> nat \<Rightarrow> ring_thread" where
  "broadcast cvs ts = (\<lambda>i. case ts i of Asleep c \<Rightarrow> if waits_on c \<in> cvs then Woken c 0 else Asleep c | th \<Rightarrow> th)"

text \<open>
  A step of some thread. \<open>Woken\<close> threads compete for the mutex: those that have just called, and those whose
  wait has ended, with the value it returned. A wait can end without a broadcast, and a wait with a timeout with
  an error.
\<close>

inductive ring_sys_step :: "srsran_ringbuffer_t \<times> (nat \<Rightarrow> ring_thread) \<Rightarrow> srsran_ringbuffer_t \<times> (nat \<Rightarrow> ring_thread) \<Rightarrow> bool" where
  enter: "ts i = Idle \<Longrightarrow> call_ok c \<Longrightarrow> ring_sys_step (q, ts) (q, ts(i := Woken c 0))"
| sleep: "ts i = Woken c wr \<Longrightarrow> ring_execute q c wr = Blocked \<Longrightarrow> ring_sys_step (q, ts) (q, ts(i := Asleep c))"
| finish: "ts i = Woken c wr \<Longrightarrow> ring_execute q c wr = Done (q', cvs) \<Longrightarrow>
    ring_sys_step (q, ts) (q', broadcast cvs (ts(i := Idle)))"
| timeout: "ts i = Asleep c \<Longrightarrow> 0 < call_timeout c \<Longrightarrow> ring_sys_step (q, ts) (q, ts(i := Woken c wr))"
| spurious: "ts i = Asleep c \<Longrightarrow> ring_sys_step (q, ts) (q, ts(i := Woken c 0))"
| stop: "ring_sys_step (q, ts) (srsran_ringbuffer_stop q, broadcast {write_cvar, read_cvar} ts)"

inductive_cases ring_sys_stepE: "ring_sys_step (q, ts) (q', ts')"

section \<open>The invariant\<close>

lemma execute_Blocked: "ring_execute q c wr = Blocked \<Longrightarrow> call_waits q c"
  by (cases c) (auto simp: ringbuffer_write_resume_def ringbuffer_read_resume_def srsran_ringbuffer_read_convert_conj_def Let_def
      split: outcome.splits prod.splits if_splits)

lemma drop_state:
  assumes "ring_inv q" "0 \<le> n" "n \<le> rb_count q"
  shows "ring_inv (ringbuffer_drop q n)" "rb_capacity (ringbuffer_drop q n) = rb_capacity q"
    "rb_active (ringbuffer_drop q n) = rb_active q" "rb_count (ringbuffer_drop q n) \<le> rb_count q"
  using ring_get(1) [OF assms] assms(2) by (simp_all add: ringbuffer_drop_def)

lemma read_resume_state:
  assumes "ring_inv q" "0 \<le> n" "ringbuffer_read_resume f q n wr = Done (q', out, r)"
  shows "ring_inv q'" "rb_capacity q' = rb_capacity q" "rb_active q' = rb_active q" "rb_count q' \<le> rb_count q"
  using assms by (cases rule: read_resume_Done; simp add: drop_state)+

lemma write_resume_state:
  assumes "ring_inv q" "ptr_ok ptr n" "ringbuffer_write_resume q ptr n t wr = Done (q', r)"
  shows "ring_inv q'" "rb_capacity q' = rb_capacity q" "rb_active q' = rb_active q" "rb_count q \<le> rb_count q'"
proof -
  show "ring_inv q'" "rb_capacity q' = rb_capacity q" "rb_active q' = rb_active q" using ring_step_write [OF assms] by auto
  show "rb_count q \<le> rb_count q'" using assms
    by (cases rule: write_resume_Done) (simp_all add: ringbuffer_put_def Let_def)
qed

text \<open>What a completed call does to the number of bytes, and which condition variables it broadcasts.\<close>

lemma execute_Done:
  assumes "ring_inv q" "call_ok c" "ring_execute q c wr = Done (q', cvs)"
  shows "ring_inv q' \<and> rb_capacity q' = rb_capacity q \<and> rb_active q' = rb_active q \<and>
    (write_cvar \<notin> cvs \<longrightarrow> rb_count q' \<le> rb_count q) \<and> (read_cvar \<notin> cvs \<longrightarrow> rb_count q \<le> rb_count q')"
proof (cases c)
  case (WriteCall ptr n t)
  then obtain r where "ringbuffer_write_resume q ptr n t wr = Done (q', r)" "cvs = {write_cvar}"
    using assms(3) by (auto split: outcome.splits prod.splits)
  then show ?thesis using write_resume_state [OF assms(1), of ptr n t wr q' r] assms(2) WriteCall by simp
next
  case (ReadCall n t)
  then obtain out r where "ringbuffer_read_resume (\<lambda>q. ringbuffer_peek q n) q n wr = Done (q', out, r)" "cvs = {read_cvar}"
    using assms(3) by (auto split: outcome.splits prod.splits)
  then show ?thesis using read_resume_state [OF assms(1), of n "\<lambda>q. ringbuffer_peek q n" wr q' out r] assms(2) ReadCall by simp
next
  case (BlockCall n t)
  then obtain out r where "ringbuffer_read_resume rb_rpm q n wr = Done (q', out, r)" "cvs = {read_cvar}"
    using assms(3) by (auto split: outcome.splits prod.splits)
  then show ?thesis using read_resume_state [OF assms(1), of n rb_rpm wr q' out r] assms(2) BlockCall by simp
next
  case (ConvertCall s)
  have "q' = q \<or> q' = ringbuffer_drop q (s * 4 mod 2 ^ 32) \<and> s * 4 mod 2 ^ 32 \<le> rb_count q \<and> read_cvar \<in> cvs"
    using assms(3) ConvertCall
    by (auto simp: srsran_ringbuffer_read_convert_conj_def Let_def split: outcome.splits prod.splits if_splits)
  then show ?thesis using drop_state [OF assms(1), of "s * 4 mod 2 ^ 32"] assms(1) by auto
qed

lemma call_waits_active: "call_waits q c \<Longrightarrow> rb_active q"
  by (cases c) simp_all

lemma call_waits_mono:
  assumes "call_waits q c" "rb_capacity q' = rb_capacity q" "rb_active q' = rb_active q"
    "waits_on c = read_cvar \<Longrightarrow> rb_count q \<le> rb_count q'" "waits_on c = write_cvar \<Longrightarrow> rb_count q' \<le> rb_count q"
  shows "call_waits q' c"
  using assms by (cases c) auto

fun pending :: "ring_thread \<Rightarrow> ring_call option" where
  "pending Idle = None"
| "pending (Asleep c) = Some c"
| "pending (Woken c wr) = Some c"

definition sys_inv :: "srsran_ringbuffer_t \<times> (nat \<Rightarrow> ring_thread) \<Rightarrow> bool" where
  "sys_inv s \<longleftrightarrow> ring_inv (fst s) \<and> (\<forall>i c. snd s i = Asleep c \<longrightarrow> call_waits (fst s) c) \<and>
     (\<forall>i c. pending (snd s i) = Some c \<longrightarrow> call_ok c)"

lemma broadcast_Asleep: "broadcast cvs ts i = Asleep c \<longleftrightarrow> ts i = Asleep c \<and> waits_on c \<notin> cvs"
  and pending_broadcast: "pending (broadcast cvs ts i) = pending (ts i)"
  by (auto simp: broadcast_def split: ring_thread.splits)

lemma sys_inv_step: "ring_sys_step s s' \<Longrightarrow> sys_inv s \<Longrightarrow> sys_inv s'"
proof (induction rule: ring_sys_step.induct)
  case (sleep ts i c wr q)
  then have "pending (ts i) = Some c" by simp
  then show ?case using sleep.prems execute_Blocked [OF sleep(2)] by (auto simp: sys_inv_def)
next
  case (finish ts i c wr q q' cvs)
  then have "pending (ts i) = Some c" by simp
  then have "ring_inv q" "call_ok c" using finish.prems by (auto simp: sys_inv_def)
  note d = execute_Done [OF this finish(2)]
  have "call_waits q' c'" if "ts j = Asleep c'" "waits_on c' \<notin> cvs" for j c'
    using that d finish.prems by (intro call_waits_mono [of q c' q']) (auto simp: sys_inv_def)
  then show ?case using d finish.prems by (auto simp: sys_inv_def broadcast_Asleep pending_broadcast split: if_splits)
next
  case (timeout ts i c q wr)
  then have "pending (ts i) = Some c" by simp
  then show ?case using timeout.prems by (auto simp: sys_inv_def)
next
  case (spurious ts i c q)
  then have "pending (ts i) = Some c" by simp
  then show ?case using spurious.prems by (auto simp: sys_inv_def)
next
  case (stop q ts)
  have "waits_on c \<in> {write_cvar, read_cvar}" for c by (cases c) simp_all
  then show ?case using stop by (auto simp: sys_inv_def broadcast_Asleep pending_broadcast ring_inv_stop)
qed (auto simp: sys_inv_def split: if_splits)

lemma sys_inv_reachable: "ring_sys_step\<^sup>*\<^sup>* s s' \<Longrightarrow> sys_inv s \<Longrightarrow> sys_inv s'"
  by (induction rule: rtranclp_induct) (auto intro: sys_inv_step)

section \<open>Properties\<close>

text \<open>The bytes a reading call asks for.\<close>

fun bytes_asked :: "ring_call \<Rightarrow> int" where
  "bytes_asked (WriteCall ptr n t) = 0"
| "bytes_asked (ReadCall n t) = n"
| "bytes_asked (BlockCall n t) = n"
| "bytes_asked (ConvertCall s) = s * 4 mod 2 ^ 32"

text \<open>
  C28: No wake-up is lost: whatever the threads do, a call that is asleep on a condition variable still has to wait,
  that is, there is no space for its bytes or there are not as many as it asks for. So a writer and a reader are
  asleep at the same time only when together they ask for more than the capacity and one byte; and once the
  buffer is stopped nobody is asleep.
\<close>
theorem ring_no_lost_wakeup:
  assumes "ring_sys_step\<^sup>*\<^sup>* (q0, \<lambda>_. Idle) (q, ts)" "ring_inv q0"
  shows "(\<forall>i c. ts i = Asleep c \<longrightarrow> call_waits q c) \<and>
    (\<forall>i j ptr n t c. ts i = Asleep (WriteCall ptr n t) \<and> ts j = Asleep c \<and> waits_on c = write_cvar \<longrightarrow>
       rb_capacity q + 1 < n + bytes_asked c) \<and>
    (\<not> rb_active q \<longrightarrow> (\<forall>i c. ts i \<noteq> Asleep c))"
proof -
  have inv: "sys_inv (q, ts)" using assms by (intro sys_inv_reachable [OF assms(1)]) (simp add: sys_inv_def)
  then have waits: "call_waits q c" if "ts i = Asleep c" for i c using that by (auto simp: sys_inv_def)
  moreover have "rb_capacity q + 1 < n + bytes_asked c"
    if "ts i = Asleep (WriteCall ptr n t)" "ts j = Asleep c" "waits_on c = write_cvar" for i j ptr n t c
    using waits [OF that(1)] waits [OF that(2)] that(3) by (cases c) auto
  moreover have "ts i \<noteq> Asleep c" if "\<not> rb_active q" for i c using that waits call_waits_active by blast
  ultimately show ?thesis by blast
qed

text \<open>A writer of 4 bytes that sleeps on a full buffer of 4 bytes.\<close>

definition full_buffer :: srsran_ringbuffer_t where
  "full_buffer = \<lparr>rb_buffer = Some [1, 2, 3, 4], rb_active = True, rb_capacity = 4, rb_count = 4, rb_wpm = 0, rb_rpm = 0\<rparr>"

lemma full_buffer_inv: "ring_inv full_buffer"
  by (simp add: ring_inv_def full_buffer_def int_ok_def)

lemma writer_sleeps:
  "ring_sys_step\<^sup>*\<^sup>* (full_buffer, \<lambda>_. Idle) (full_buffer, (\<lambda>_. Idle)(0 := Asleep (WriteCall None 4 (-1))))"
proof -
  let ?c = "WriteCall None 4 (-1)"
  have 1: "ring_sys_step (full_buffer, \<lambda>_. Idle) (full_buffer, (\<lambda>_. Idle)(0 := Woken ?c 0))"
    by (rule enter) (simp_all add: ptr_ok_def)
  have "ring_execute full_buffer ?c 0 = Blocked"
    by (simp add: ringbuffer_write_resume_def full_buffer_def int_ok_def)
  then have 2: "ring_sys_step (full_buffer, (\<lambda>_. Idle)(0 := Woken ?c 0)) (full_buffer, (\<lambda>_. Idle)(0 := Asleep ?c))"
    using sleep [of "(\<lambda>_. Idle)(0 := Woken ?c 0)" 0 ?c 0 full_buffer] by simp
  from 1 2 show ?thesis by (meson converse_rtranclp_into_rtranclp rtranclp.rtrancl_refl)
qed

theorem ring_no_lost_wakeup_witness:
  "call_waits full_buffer (WriteCall None 4 (-1)) \<and>
   (\<exists>q' ts'. ring_sys_step\<^sup>*\<^sup>* (full_buffer, \<lambda>_. Idle) (q', ts') \<and> \<not> rb_active q' \<and> ts' 0 = Woken (WriteCall None 4 (-1)) 0 \<and>
      (\<forall>c. ts' 0 \<noteq> Asleep c))"
proof
  show "call_waits full_buffer (WriteCall None 4 (-1))"
    using ring_no_lost_wakeup [OF writer_sleeps full_buffer_inv] by (metis fun_upd_same)
  let ?ts = "broadcast {write_cvar, read_cvar} ((\<lambda>_. Idle)(0 := Asleep (WriteCall None 4 (-1))))"
  have run: "ring_sys_step\<^sup>*\<^sup>* (full_buffer, \<lambda>_. Idle) (srsran_ringbuffer_stop full_buffer, ?ts)"
    using writer_sleeps stop by (rule rtranclp.rtrancl_into_rtrancl)
  have off: "\<not> rb_active (srsran_ringbuffer_stop full_buffer)" by (simp add: srsran_ringbuffer_stop_def)
  have "?ts 0 = Woken (WriteCall None 4 (-1)) 0" by (simp add: broadcast_def)
  then show "\<exists>q' ts'. ring_sys_step\<^sup>*\<^sup>* (full_buffer, \<lambda>_. Idle) (q', ts') \<and> \<not> rb_active q' \<and> ts' 0 = Woken (WriteCall None 4 (-1)) 0 \<and>
      (\<forall>c. ts' 0 \<noteq> Asleep c)"
    using run off ring_no_lost_wakeup [OF run full_buffer_inv] by blast
qed

text \<open>
  \<open>srsran_ringbuffer_reset\<close> empties the buffer without a broadcast: it breaks the invariant. A writer that sleeps
  because the buffer is full sleeps on in front of the empty buffer.
\<close>

lemma ring_reset_loses_wakeup:
  "ring_sys_step\<^sup>*\<^sup>* (full_buffer, \<lambda>_. Idle) (full_buffer, (\<lambda>_. Idle)(0 := Asleep (WriteCall None 4 (-1))))"
  "rb_count (srsran_ringbuffer_reset full_buffer) = 0" "\<not> call_waits (srsran_ringbuffer_reset full_buffer) (WriteCall None 4 (-1))"
  by (rule writer_sleeps) (simp_all add: srsran_ringbuffer_reset_def full_buffer_def)

end
