(* ===== verification/Interval_Codec.thy ===== *)
theory Interval_Codec
  imports Phy_Prelude
begin

text \<open>
  The interface of a start-and-length code: a contiguous interval \<open>[S, S + L)\<close> of at most \<open>N\<close>
  resources is one number below \<open>N (N + 1) / 2\<close>. Short intervals are row \<open>L - 1\<close> of a matrix with
  \<open>N\<close> columns, the long ones are stored point-reflected in the unused half of the rows. The decoder
  knows that an interval ends at \<open>lim\<close> or before and tells the halves apart by that.
\<close>

lemma row_column: "(c :: nat) < N \<Longrightarrow> (N * r + c) div N = r \<and> (N * r + c) mod N = c"
  by simp

locale interval_codec =
  fixes enc :: "nat \<Rightarrow> nat \<Rightarrow> nat \<Rightarrow> nat"
    and dec :: "nat \<Rightarrow> nat \<Rightarrow> nat \<Rightarrow> nat \<times> nat"
    and fits :: "nat \<Rightarrow> nat \<Rightarrow> bool"
  assumes lim_le: "fits N lim \<Longrightarrow> lim \<le> N"
    and enc_short: "fits N lim \<Longrightarrow> 0 < L \<Longrightarrow> S + L \<le> lim \<Longrightarrow> L - 1 \<le> N div 2 \<Longrightarrow>
      enc N S L = N * (L - 1) + S"
    and enc_long: "fits N lim \<Longrightarrow> 0 < L \<Longrightarrow> S + L \<le> lim \<Longrightarrow> N div 2 < L - 1 \<Longrightarrow>
      enc N S L = N * (N - L + 1) + (N - 1 - S)"
    and dec_eq: "fits N lim \<Longrightarrow> 0 < N \<Longrightarrow> v < N * (N + 1) div 2 \<Longrightarrow> v mod N \<le> lim \<Longrightarrow>
      dec N lim v = (if v div N + 1 + v mod N \<le> lim then (v mod N, v div N + 1)
                     else (N - 1 - v mod N, N - v div N + 1))"
begin

definition decodable :: "nat \<Rightarrow> nat \<Rightarrow> nat \<Rightarrow> nat \<Rightarrow> bool" where
  "decodable N lim S L \<longleftrightarrow> 0 < L \<and> S + L \<le> lim \<and> (L - 1 \<le> N div 2 \<or> N - 1 - S \<le> lim)"

lemma enc_bound:
  assumes fits: "fits N lim" and "0 < L" "S + L \<le> lim"
  shows "enc N S L < N * (N + 1) div 2"
proof -
  have N: "S + L \<le> N" using assms lim_le [OF fits] by simp
  obtain h r where hr: "N = 2 * h + r" "r = 0 \<or> r = 1"
    by (metis mult_div_mod_eq not_mod_2_eq_1_eq_0)
  then have half: "N div 2 = h" by auto
  have goal: "N * (N + 1) div 2 = N * h + (if r = 0 then h else N)"
    using hr(2)
  proof
    assume r: "r = 0"
    then have "N * (N + 1) = 2 * (h * (N + 1))" using hr(1) by simp
    then show ?thesis using r by simp
  next
    assume r: "r = 1"
    then have "N * (N + 1) = 2 * (N * (h + 1))" using hr(1) by simp
    then show ?thesis using r by simp
  qed
  show ?thesis
  proof (cases "L - 1 \<le> h")
    case True
    show ?thesis
    proof (cases "L - 1 = h")
      case same: True
      then have "S < (if r = 0 then h else N)" using N hr assms(2) by auto
      then show ?thesis using enc_short [OF assms] goal half same by simp
    next
      case False
      then have "L \<le> h" using True by simp
      then have "N * L \<le> N * h" by simp
      moreover have "N * L = N * (L - 1) + N" using assms(2) by (cases L) simp_all
      moreover have "S < N" using N assms(2) by simp
      ultimately have "N * (L - 1) + S < N * h" by linarith
      then show ?thesis using enc_short [OF assms] goal half True by simp
    qed
  next
    case False
    then have eq: "enc N S L = N * (N - L + 1) + (N - 1 - S)" using enc_long [OF assms] half by simp
    have "N - 1 - S < N" using N assms(2) by simp
    then have less: "enc N S L < N * (N - L + 2)" using eq by simp
    show ?thesis
    proof (cases "r = 0")
      case True
      then have "N - L + 2 \<le> h" using False hr N by simp
      then have "N * (N - L + 2) \<le> N * h" by (rule mult_le_mono2)
      then show ?thesis using less goal True by simp
    next
      case r: False
      then have "N - L + 2 \<le> h + 1" using False hr N by simp
      then have "N * (N - L + 2) \<le> N * (h + 1)" by (rule mult_le_mono2)
      then show ?thesis using less goal r by simp
    qed
  qed
qed

lemma dec_enc:
  assumes fits: "fits N lim" and "decodable N lim S L"
  shows "dec N lim (enc N S L) = (S, L)"
proof -
  have pre: "0 < L" "S + L \<le> lim" using assms(2) by (auto simp: decodable_def)
  have S: "S < N" using pre lim_le [OF fits] by simp
  then have N: "0 < N" by simp
  note bound = enc_bound [OF fits pre]
  show ?thesis
  proof (cases "L - 1 \<le> N div 2")
    case True
    have v: "enc N S L div N = L - 1" "enc N S L mod N = S"
      using enc_short [OF fits pre True] S by simp_all
    show ?thesis using dec_eq [OF fits N bound] v pre by simp
  next
    case False
    then have "N - 1 - S \<le> lim" using assms(2) by (auto simp: decodable_def)
    moreover have "enc N S L = N * (N - L + 1) + (N - 1 - S)"
      using enc_long [OF fits pre] False by (simp only: not_le)
    then have v: "enc N S L div N = N - L + 1" "enc N S L mod N = N - 1 - S"
      using row_column [of "N - 1 - S" N "N - L + 1"] S by (simp_all del: mult_Suc_right add_Suc_right)
    have mod: "enc N S L mod N \<le> lim" using \<open>N - 1 - S \<le> lim\<close> v(2) by (simp only:)
    have no: "\<not> N - L + 1 + 1 + (N - 1 - S) \<le> lim" using pre lim_le [OF fits] S by linarith
    have len: "N - (N - L + 1) + 1 = L"
    proof -
      have "2 \<le> L" "L \<le> N" using False pre lim_le [OF fits] by linarith+
      then show ?thesis by simp
    qed
    have start: "N - 1 - (N - 1 - S) = S" using S by linarith
    show ?thesis by (simp only: dec_eq [OF fits N bound mod] v no if_False len start)
  qed
qed

lemma enc_inj:
  assumes "fits N lim" "decodable N lim S L" "decodable N lim S' L'" "enc N S L = enc N S' L'"
  shows "S = S' \<and> L = L'"
  using dec_enc [OF assms(1,2)] dec_enc [OF assms(1,3)] unfolding assms(4) by simp

lemma enc_dec:
  assumes fits: "fits N N" and v: "v < N * (N + 1) div 2" and dec: "dec N N v = (S, L)"
  shows "decodable N N S L \<and> enc N S L = v"
proof -
  have N: "0 < N" using v by (cases N) auto
  define r c where rc: "r = v div N" "c = v mod N"
  have vrc: "v = N * r + c" and c: "c < N" using N by (simp_all add: rc)
  have v2: "2 * v < N * (N + 1)" using v by simp
  have r2: "2 * r < N + 1"
  proof (rule ccontr)
    assume "\<not> 2 * r < N + 1"
    then have "N * (N + 1) \<le> N * (2 * r)" by (intro mult_le_mono2) simp
    then show False using v2 vrc by simp
  qed
  have eq: "dec N N v = (if r + 1 + c \<le> N then (c, r + 1) else (N - 1 - c, N - r + 1))"
    using dec_eq [OF fits N v] c rc by simp
  show ?thesis
  proof (cases "r + 1 + c \<le> N")
    case True
    then have SL: "S = c" "L = r + 1" using dec eq by simp_all
    have "L - 1 \<le> N div 2" using r2 SL by simp
    then show ?thesis using enc_short [OF fits, of L S] True SL vrc by (simp add: decodable_def)
  next
    case False
    then have SL: "S = N - 1 - c" "L = N - r + 1" using dec eq by simp_all
    have ne: "2 * r \<noteq> N"
    proof
      assume eq: "2 * r = N"
      have "2 * v = N * (2 * r) + 2 * c" using vrc by simp
      also have "\<dots> = N * N + 2 * c" using eq by simp
      finally have "2 * c < N" using v2 by simp
      then show False using False eq by simp
    qed
    have L: "0 < L" "S + L \<le> N" "N div 2 < L - 1" using False SL c r2 ne by auto
    have "N - L + 1 = r" "N - 1 - S = c" using False SL c r2 by auto
    then show ?thesis using enc_long [OF fits L] L vrc by (auto simp: decodable_def)
  qed
qed

end

end
