(* ===== verification/Ra_Alloc.thy ===== *)
theory Ra_Alloc
  imports Ra_Tables Interval_Codec
begin

text \<open>
  Resource allocation procedures common to downlink and uplink, \<open>lib/src/phy/phch/ra.c\<close> and the start-and-length indicator of \<open>lib/src/phy/common/sliv.c\<close>: resource
  indication values, resource block groups, modulation and transport block size. The C functions
  compute on \<open>uint32_t\<close>; differences that can wrap are \<open>sub32\<close>. The float expressions of the
  source, quotients and logarithms of numbers below 128 that are rounded up, are exact.
\<close>

abbreviation (input) SRSRAN_RA_NOF_TBS_IDX :: nat where "SRSRAN_RA_NOF_TBS_IDX \<equiv> 34"
abbreviation (input) SRSRAN_MAX_PRB :: nat where "SRSRAN_MAX_PRB \<equiv> 110"

section \<open>Resource indication values\<close>

definition srsran_ra_type2_to_riv :: "nat \<Rightarrow> nat \<Rightarrow> nat \<Rightarrow> nat" where
  "srsran_ra_type2_to_riv L_crb RB_start nof_prb =
     (if sub32 L_crb 1 \<le> nof_prb div 2 then add32 (mul32 nof_prb (sub32 L_crb 1)) RB_start
      else sub32 (sub32 (add32 (mul32 nof_prb (add32 (sub32 nof_prb L_crb) 1)) nof_prb) 1) RB_start)"

definition srsran_ra_type2_from_riv :: "nat \<Rightarrow> nat \<Rightarrow> nat \<Rightarrow> nat \<times> nat" where
  "srsran_ra_type2_from_riv riv nof_prb nof_vrb =
     (let L_crb = add32 (riv div nof_prb) 1; RB_start = riv mod nof_prb in
      if L_crb > sub32 nof_vrb RB_start
      then (add32 (sub32 nof_prb (riv div nof_prb)) 1, sub32 (sub32 nof_prb (riv mod nof_prb)) 1)
      else (L_crb, RB_start))"

definition srsran_sliv_to_s_and_l :: "nat \<Rightarrow> nat \<Rightarrow> nat \<times> nat" where
  "srsran_sliv_to_s_and_l N v =
     (let low = v mod N; high = v div N in
      if add32 (add32 high 1) low \<le> N then (low, add32 high 1)
      else (sub32 (sub32 N 1) low, add32 (sub32 N high) 1))"

definition srsran_sliv_from_s_and_l :: "nat \<Rightarrow> nat \<Rightarrow> nat \<Rightarrow> nat" where
  "srsran_sliv_from_s_and_l N S L =
     (if sub32 L 1 \<le> N div 2 then add32 (mul32 N (sub32 L 1)) S
      else add32 (mul32 N (add32 (sub32 N L) 1)) (sub32 (sub32 N 1) S))"

section \<open>Groups and virtual resource blocks\<close>

definition srsran_ra_type0_P :: "nat \<Rightarrow> nat" where
  "srsran_ra_type0_P nof_prb =
     (if nof_prb \<le> 10 then 1 else if nof_prb \<le> 26 then 2 else if nof_prb \<le> 63 then 3 else 4)"

text \<open>\<open>ceilf(log2f(n))\<close>.\<close>

fun ceil_log2 :: "nat \<Rightarrow> nat" where
  "ceil_log2 n = (if n \<le> 1 then 0 else ceil_log2 ((n + 1) div 2) + 1)"

declare ceil_log2.simps [simp del]

definition srsran_ra_type1_N_rb :: "nat \<Rightarrow> nat" where
  "srsran_ra_type1_N_rb nof_prb =
     (let P = srsran_ra_type0_P nof_prb in sub32 (sub32 (ceil_div nof_prb P) (ceil_log2 P)) 1)"

definition srsran_ra_type2_ngap :: "nat \<Rightarrow> bool \<Rightarrow> nat" where
  "srsran_ra_type2_ngap nof_prb ngap_is_1 =
     (if nof_prb \<le> 10 then nof_prb div 2
      else if nof_prb = 11 then 4
      else if nof_prb \<le> 19 then 8
      else if nof_prb \<le> 26 then 12
      else if nof_prb \<le> 44 then 18
      else if nof_prb \<le> 49 then 27
      else if nof_prb \<le> 63 then (if ngap_is_1 then 27 else 9)
      else if nof_prb \<le> 79 then (if ngap_is_1 then 32 else 16)
      else (if ngap_is_1 then 48 else 16))"

definition srsran_ra_type2_n_rb_step :: "nat \<Rightarrow> nat" where
  "srsran_ra_type2_n_rb_step nof_prb = (if nof_prb < 50 then 2 else 4)"

definition srsran_ra_type2_n_vrb_dl :: "nat \<Rightarrow> bool \<Rightarrow> nat" where
  "srsran_ra_type2_n_vrb_dl nof_prb ngap_is_1 =
     (let ngap = srsran_ra_type2_ngap nof_prb ngap_is_1 in
      if ngap_is_1 then 2 * (if ngap < sub32 nof_prb ngap then ngap else sub32 nof_prb ngap)
      else (nof_prb div ngap) * 2 * ngap)"

section \<open>Modulation and transport block size\<close>

datatype srsran_mod_t =
  SRSRAN_MOD_BPSK | SRSRAN_MOD_QPSK | SRSRAN_MOD_16QAM | SRSRAN_MOD_64QAM | SRSRAN_MOD_256QAM

fun srsran_mod_bits_x_symbol :: "srsran_mod_t \<Rightarrow> nat" where
  "srsran_mod_bits_x_symbol SRSRAN_MOD_BPSK = 1"
| "srsran_mod_bits_x_symbol SRSRAN_MOD_QPSK = 2"
| "srsran_mod_bits_x_symbol SRSRAN_MOD_16QAM = 4"
| "srsran_mod_bits_x_symbol SRSRAN_MOD_64QAM = 6"
| "srsran_mod_bits_x_symbol SRSRAN_MOD_256QAM = 8"

text \<open>\<open>SRSRAN_ERROR\<close> is \<open>None\<close>.\<close>

definition srsran_ra_dl_tbs_idx_from_mcs :: "nat \<Rightarrow> bool \<Rightarrow> nat option" where
  "srsran_ra_dl_tbs_idx_from_mcs mcs use_tbs_index_alt =
     (if use_tbs_index_alt \<and> mcs < 28 then Some (dl_mcs_tbs_idx_table2 ! mcs)
      else if \<not> use_tbs_index_alt \<and> mcs < 29 then Some (dl_mcs_tbs_idx_table ! mcs)
      else None)"

definition srsran_ra_ul_tbs_idx_from_mcs :: "nat \<Rightarrow> nat option" where
  "srsran_ra_ul_tbs_idx_from_mcs mcs = (if mcs < 29 then Some (ul_mcs_tbs_idx_table ! mcs) else None)"

definition srsran_ra_tbs_idx_from_mcs :: "nat \<Rightarrow> bool \<Rightarrow> bool \<Rightarrow> nat option" where
  "srsran_ra_tbs_idx_from_mcs mcs use_tbs_index_alt is_ul =
     (if is_ul then srsran_ra_ul_tbs_idx_from_mcs mcs else srsran_ra_dl_tbs_idx_from_mcs mcs use_tbs_index_alt)"

definition srsran_ra_dl_mod_from_mcs :: "nat \<Rightarrow> bool \<Rightarrow> srsran_mod_t" where
  "srsran_ra_dl_mod_from_mcs mcs use_tbs_index_alt =
     (if use_tbs_index_alt
      then if mcs < 5 \<or> mcs = 28 then SRSRAN_MOD_QPSK
           else if mcs < 11 \<or> mcs = 29 then SRSRAN_MOD_16QAM
           else if mcs < 20 \<or> mcs = 30 then SRSRAN_MOD_64QAM
           else SRSRAN_MOD_256QAM
      else if mcs < 10 \<or> mcs = 29 then SRSRAN_MOD_QPSK
           else if mcs < 17 \<or> mcs = 30 then SRSRAN_MOD_16QAM
           else SRSRAN_MOD_64QAM)"

definition srsran_ra_ul_mod_from_mcs :: "nat \<Rightarrow> srsran_mod_t" where
  "srsran_ra_ul_mod_from_mcs mcs =
     (if mcs \<le> 10 then SRSRAN_MOD_QPSK
      else if mcs \<le> 20 then SRSRAN_MOD_16QAM
      else if mcs \<le> 28 then SRSRAN_MOD_64QAM
      else SRSRAN_MOD_BPSK)"

text \<open>The loops \<open>for (mcs = m - 1; mcs >= 0; mcs--)\<close> over a table.\<close>

fun mcs_search :: "nat list \<Rightarrow> nat \<Rightarrow> nat \<Rightarrow> nat option" where
  "mcs_search table tbs_idx 0 = None"
| "mcs_search table tbs_idx (Suc mcs) = (if tbs_idx = table ! mcs then Some mcs else mcs_search table tbs_idx mcs)"

definition srsran_ra_dl_mcs_from_tbs_idx :: "nat \<Rightarrow> bool \<Rightarrow> nat option" where
  "srsran_ra_dl_mcs_from_tbs_idx tbs_idx use_tbs_index_alt =
     (if use_tbs_index_alt then mcs_search dl_mcs_tbs_idx_table2 tbs_idx 28
      else mcs_search dl_mcs_tbs_idx_table tbs_idx 29)"

definition srsran_ra_ul_mcs_from_tbs_idx :: "nat \<Rightarrow> nat option" where
  "srsran_ra_ul_mcs_from_tbs_idx tbs_idx = mcs_search ul_mcs_tbs_idx_table tbs_idx 29"

definition srsran_ra_mcs_from_tbs_idx :: "nat \<Rightarrow> bool \<Rightarrow> bool \<Rightarrow> nat option" where
  "srsran_ra_mcs_from_tbs_idx tbs_idx use_tbs_index_alt is_ul =
     (if is_ul then srsran_ra_ul_mcs_from_tbs_idx tbs_idx else srsran_ra_dl_mcs_from_tbs_idx tbs_idx use_tbs_index_alt)"

definition srsran_ra_tbs_from_idx :: "nat \<Rightarrow> nat \<Rightarrow> nat option" where
  "srsran_ra_tbs_from_idx tbs_idx n_prb =
     (if tbs_idx < SRSRAN_RA_NOF_TBS_IDX \<and> n_prb > 0 \<and> n_prb \<le> SRSRAN_MAX_PRB
      then Some (tbs_table ! tbs_idx ! (n_prb - 1)) else None)"

fun tbs_search :: "nat \<Rightarrow> nat \<Rightarrow> nat \<Rightarrow> int" where
  "tbs_search tbs n_prb tbs_idx =
     (if tbs_table ! tbs_idx ! (n_prb - 1) \<le> tbs then int tbs_idx + 1
      else case tbs_idx of 0 \<Rightarrow> -1 | Suc k \<Rightarrow> tbs_search tbs n_prb k)"

declare tbs_search.simps [simp del]

definition srsran_ra_tbs_to_table_idx :: "nat \<Rightarrow> nat \<Rightarrow> nat \<Rightarrow> int" where
  "srsran_ra_tbs_to_table_idx tbs n_prb max_tbs_idx =
     (if n_prb = 0 \<or> n_prb > SRSRAN_MAX_PRB then -2
      else if tbs < tbs_table ! 0 ! (n_prb - 1) then 0
      else tbs_search tbs n_prb max_tbs_idx)"

section \<open>Resource indication values and start-and-length indicators are interval codes\<close>

definition codec_size :: "nat \<Rightarrow> nat \<Rightarrow> bool" where
  "codec_size N lim \<longleftrightarrow> lim \<le> N \<and> N < 2 ^ 15"

lemma size_products:
  fixes N a c :: nat
  assumes "N < 2 ^ 15" "a \<le> N + 1" "c \<le> N"
  shows "N * a < 2 ^ 31" "N * a + c < 2 ^ 31" "N * a + N + c < 2 ^ 31"
proof -
  have "N * a \<le> (2 ^ 15 - 1) * 2 ^ 15" using assms by (intro mult_le_mono) simp_all
  then show "N * a < 2 ^ 31" "N * a + c < 2 ^ 31" "N * a + N + c < 2 ^ 31" using assms by simp_all
qed

lemma code_row_le: "0 < (N :: nat) \<Longrightarrow> v < N * (N + 1) div 2 \<Longrightarrow> v div N \<le> N div 2"
proof -
  assume N: "0 < N" and v: "v < N * (N + 1) div 2"
  have "2 * (N * (v div N)) \<le> 2 * v" by simp
  also have "\<dots> < N * (N + 1)" using v by simp
  finally have "N * (2 * (v div N)) < N * (N + 1)" by (simp add: ac_simps)
  then have "2 * (v div N) < N + 1" by (simp only: mult_less_cancel1)
  then show ?thesis by linarith
qed

interpretation riv: interval_codec
  "\<lambda>N S L. srsran_ra_type2_to_riv L S N" "\<lambda>N lim v. prod.swap (srsran_ra_type2_from_riv v N lim)" codec_size
proof unfold_locales
  fix N lim L S
  assume fits: "codec_size N lim"
  then show lim: "lim \<le> N" by (simp add: codec_size_def)
  have N: "N < 2 ^ 15" using fits by (simp add: codec_size_def)
  assume L: "0 < L" "S + L \<le> lim"
  then have LN: "L \<le> N" "S < N" using lim by linarith+
  have L1: "sub32 L 1 = L - 1" using L LN N by (simp add: sub32_le)
  { assume half: "L - 1 \<le> N div 2"
    have "N * (L - 1) + S < 2 ^ 31" using N LN by (intro size_products) simp_all
    then show "srsran_ra_type2_to_riv L S N = N * (L - 1) + S"
      unfolding srsran_ra_type2_to_riv_def L1 using half by (simp add: mul32_small add32_small) }
  { assume half: "N div 2 < L - 1"
    have NL: "sub32 N L = N - L" using LN N by (simp add: sub32_le)
    have "N * (N - L + 1) + N + 0 < 2 ^ 31" using N LN by (intro size_products) simp_all
    then have big: "N * (N - L + 1) + N < 2 ^ 32" by simp
    moreover have "N - L + 1 < 2 ^ 32" using N by simp
    ultimately have "srsran_ra_type2_to_riv L S N = N * (N - L + 1) + N - 1 - S"
      using half LN unfolding srsran_ra_type2_to_riv_def L1 NL
      by (simp add: mul32_small add32_small sub32_le del: mult_Suc_right)
    then show "srsran_ra_type2_to_riv L S N = N * (N - L + 1) + (N - 1 - S)" using LN by linarith }
next
  fix N lim v
  assume fits: "codec_size N lim" and N0: "0 < N" and v: "v < N * (N + 1) div 2" and c: "v mod N \<le> lim"
  have N: "N < 2 ^ 15" and lim: "lim \<le> N" using fits by (auto simp: codec_size_def)
  have r: "v div N \<le> N div 2" by (rule code_row_le [OF N0 v])
  then have r': "v div N \<le> N" by linarith
  have "v mod N < N" using N0 by simp
  then have c1: "v mod N + 1 \<le> N" by linarith
  have eqs: "add32 (v div N) 1 = v div N + 1" "sub32 lim (v mod N) = lim - v mod N"
    "sub32 N (v div N) = N - v div N" "add32 (N - v div N) 1 = N - v div N + 1"
    "sub32 N (v mod N) = N - v mod N" "sub32 (N - v mod N) 1 = N - v mod N - 1"
    using r' c c1 N lim by (simp_all add: sub32_le add32_small)
  have "v div N + 1 > lim - v mod N \<longleftrightarrow> \<not> v div N + 1 + v mod N \<le> lim" using c by linarith
  moreover have "N - v mod N - 1 = N - 1 - v mod N" by linarith
  ultimately show "prod.swap (srsran_ra_type2_from_riv v N lim) =
      (if v div N + 1 + v mod N \<le> lim then (v mod N, v div N + 1) else (N - 1 - v mod N, N - v div N + 1))"
    unfolding srsran_ra_type2_from_riv_def Let_def eqs by (simp del: One_nat_def)
qed

interpretation sliv: interval_codec
  srsran_sliv_from_s_and_l "\<lambda>N lim v. srsran_sliv_to_s_and_l N v" "\<lambda>N lim. codec_size N lim \<and> lim = N"
proof unfold_locales
  fix N lim L S
  assume fits: "codec_size N lim \<and> lim = N"
  then show lim: "lim \<le> N" by simp
  have N: "N < 2 ^ 15" using fits by (simp add: codec_size_def)
  assume L: "0 < L" "S + L \<le> lim"
  then have LN: "L \<le> N" "S < N" using lim by linarith+
  have L1: "sub32 L 1 = L - 1" using L LN N by (simp add: sub32_le)
  { assume half: "L - 1 \<le> N div 2"
    have "N * (L - 1) + S < 2 ^ 31" using N LN by (intro size_products) simp_all
    then show "srsran_sliv_from_s_and_l N S L = N * (L - 1) + S"
      unfolding srsran_sliv_from_s_and_l_def L1 using half by (simp add: mul32_small add32_small) }
  { assume half: "N div 2 < L - 1"
    have NL: "sub32 N L = N - L" using LN N by (simp add: sub32_le)
    have NS: "sub32 (sub32 N 1) S = N - 1 - S" using LN N by (simp add: sub32_le)
    have "N * (N - L + 1) + (N - 1 - S) < 2 ^ 31" using N LN by (intro size_products) simp_all
    moreover have "N * (N - L + 1) < 2 ^ 31" using N LN by (intro size_products) simp_all
    moreover have "N - L + 1 < 2 ^ 32" using N by simp
    ultimately show "srsran_sliv_from_s_and_l N S L = N * (N - L + 1) + (N - 1 - S)"
      using half unfolding srsran_sliv_from_s_and_l_def L1 NL NS
      by (simp add: mul32_small add32_small del: mult_Suc_right) }
next
  fix N lim v
  assume fits: "codec_size N lim \<and> lim = N" and N0: "0 < N" and v: "v < N * (N + 1) div 2"
  have N: "N < 2 ^ 15" and lim: "lim = N" using fits by (auto simp: codec_size_def)
  have r: "v div N \<le> N div 2" by (rule code_row_le [OF N0 v])
  then have r': "v div N \<le> N" by linarith
  have c1: "v mod N < N" using N0 by simp
  have eqs: "add32 (v div N) 1 = v div N + 1" "add32 (v div N + 1) (v mod N) = v div N + 1 + v mod N"
    "sub32 N (v div N) = N - v div N" "add32 (N - v div N) 1 = N - v div N + 1"
    "sub32 N 1 = N - 1" "sub32 (N - 1) (v mod N) = N - 1 - v mod N"
    using r' c1 N by (simp_all add: sub32_le add32_small)
  show "srsran_sliv_to_s_and_l N v =
      (if v div N + 1 + v mod N \<le> lim then (v mod N, v div N + 1) else (N - 1 - v mod N, N - v div N + 1))"
    unfolding srsran_sliv_to_s_and_l_def Let_def eqs lim ..
qed

section \<open>Searches\<close>

lemma mcs_search_Some:
  "mcs_search t x n = Some k \<longleftrightarrow> k < n \<and> t ! k = x \<and> (\<forall>j. k < j \<and> j < n \<longrightarrow> t ! j \<noteq> x)"
  by (induction n) (auto simp: less_Suc_eq)

lemma mcs_search_None: "mcs_search t x n = None \<longleftrightarrow> (\<forall>j < n. t ! j \<noteq> x)"
  by (induction n) (auto simp: less_Suc_eq)

lemma mcs_search_back:
  assumes "m < n"
  shows "\<exists>k \<ge> m. mcs_search t (t ! m) n = Some k \<and> k < n \<and> t ! k = t ! m"
proof (cases "mcs_search t (t ! m) n")
  case None
  then show ?thesis using assms by (auto simp: mcs_search_None)
next
  case (Some k)
  then have "k < n" "t ! k = t ! m" "\<not> (k < m \<and> m < n)" unfolding mcs_search_Some by auto
  then show ?thesis using Some assms by auto
qed

lemma tbs_search_spec:
  assumes "tbs_table ! 0 ! (n - 1) \<le> tbs"
  shows "\<exists>i \<le> m. tbs_search tbs n m = int i + 1 \<and> tbs_table ! i ! (n - 1) \<le> tbs \<and>
    (\<forall>j. i < j \<and> j \<le> m \<longrightarrow> tbs < tbs_table ! j ! (n - 1))"
proof (induction m)
  case 0
  then show ?case using assms by (simp add: tbs_search.simps)
next
  case (Suc m)
  show ?case
  proof (cases "tbs_table ! Suc m ! (n - 1) \<le> tbs")
    case True
    then show ?thesis by (intro exI [of _ "Suc m"]) (simp add: tbs_search.simps)
  next
    case False
    obtain i where i: "i \<le> m" "tbs_search tbs n m = int i + 1" "tbs_table ! i ! (n - 1) \<le> tbs"
      "\<forall>j. i < j \<and> j \<le> m \<longrightarrow> tbs < tbs_table ! j ! (n - 1)"
      using Suc.IH by blast
    have "tbs_search tbs n (Suc m) = int i + 1"
      using False i(2) by (subst tbs_search.simps) simp
    moreover have "tbs < tbs_table ! j ! (n - 1)" if "i < j" "j \<le> Suc m" for j
      using that i(4) False by (cases "j = Suc m") auto
    ultimately show ?thesis using i(1,3) by (intro exI [of _ i]) simp
  qed
qed

lemma tbs_table_shape: "length tbs_table = 34 \<and> (\<forall>r \<in> set tbs_table. length r = 110)"
  by (simp add: tbs_table_def)

lemma tbs_table_column_min:
  assumes "j < 34" "i < 110"
  shows "tbs_table ! 0 ! i \<le> tbs_table ! j ! i"
proof -
  have "list_all (list_all2 (\<le>) (hd tbs_table)) tbs_table" by (simp add: tbs_table_def)
  moreover have "tbs_table ! j \<in> set tbs_table" using assms tbs_table_shape by simp
  ultimately have "list_all2 (\<le>) (hd tbs_table) (tbs_table ! j)" by (simp add: list_all_iff)
  moreover have "hd tbs_table = tbs_table ! 0" using tbs_table_shape by (intro hd_conv_nth) auto
  moreover have "length (tbs_table ! 0) = 110" using tbs_table_shape by simp
  ultimately show ?thesis using assms(2) by (simp add: list_all2_nthD)
qed

lemma ngap_bounds:
  assumes "2 \<le> n"
  shows "0 < srsran_ra_type2_ngap n g" "srsran_ra_type2_ngap n g \<le> n"
  using assms by (auto simp: srsran_ra_type2_ngap_def)

section \<open>Properties\<close>

text \<open>
  C15: An allocation of \<open>L\<close> resource blocks from \<open>S\<close> on is recovered from its resource indication value, and the
  value fits the \<open>nof_prb (nof_prb + 1) / 2\<close> values the field of a DCI is sized for. When the number of
  virtual blocks is smaller than the number of physical blocks this holds for the values whose
  remainder does not exceed the number of virtual blocks, in particular for all localized allocations.
\<close>
theorem riv_roundtrip:
  assumes "0 < L" "S + L \<le> nof_vrb" "nof_vrb \<le> nof_prb" "nof_prb < 2 ^ 15"
    and "L - 1 \<le> nof_prb div 2 \<or> nof_prb - 1 - S \<le> nof_vrb"
  shows "srsran_ra_type2_from_riv (srsran_ra_type2_to_riv L S nof_prb) nof_prb nof_vrb = (L, S) \<and>
    srsran_ra_type2_to_riv L S nof_prb < nof_prb * (nof_prb + 1) div 2"
proof -
  have fits: "codec_size nof_prb nof_vrb" using assms by (simp add: codec_size_def)
  have "riv.decodable nof_prb nof_vrb S L" using assms by (simp add: riv.decodable_def)
  from riv.dec_enc [OF fits this] riv.enc_bound [OF fits assms(1,2)] show ?thesis
    by (cases "srsran_ra_type2_from_riv (srsran_ra_type2_to_riv L S nof_prb) nof_prb nof_vrb") simp
qed

theorem riv_roundtrip_witness:
  "srsran_ra_type2_from_riv (srsran_ra_type2_to_riv 40 7 50) 50 50 = (40, 7) \<and> srsran_ra_type2_to_riv 40 7 50 < 50 * (50 + 1) div 2"
  by (rule riv_roundtrip) simp_all

text \<open>
  The remaining distributed allocations are decoded wrongly: when a long allocation starts so low
  that its reflected start lies beyond the virtual blocks, \<open>nof_vrb - RB_start\<close> wraps to a huge
  number, the reflection is not undone, and the start that comes out lies outside the virtual blocks.
\<close>
theorem riv_distributed_wrong:
  assumes "0 < L" "S + L \<le> nof_vrb" "nof_vrb \<le> nof_prb" "nof_prb < 2 ^ 15"
    and long: "nof_prb div 2 < L - 1" and beyond: "nof_vrb < nof_prb - 1 - S"
  shows "srsran_ra_type2_from_riv (srsran_ra_type2_to_riv L S nof_prb) nof_prb nof_vrb = (nof_prb - L + 2, nof_prb - 1 - S)"
proof -
  have fits: "codec_size nof_prb nof_vrb" using assms by (simp add: codec_size_def)
  have S: "nof_prb - 1 - S < nof_prb" and LN: "L \<le> nof_prb" using assms by linarith+
  have v: "srsran_ra_type2_to_riv L S nof_prb = nof_prb * (nof_prb - L + 1) + (nof_prb - 1 - S)"
    using riv.enc_long [OF fits assms(1,2) long] .
  have rc: "srsran_ra_type2_to_riv L S nof_prb div nof_prb = nof_prb - L + 1"
    "srsran_ra_type2_to_riv L S nof_prb mod nof_prb = nof_prb - 1 - S"
    using row_column [OF S, of "nof_prb - L + 1"] unfolding v by simp_all
  have "add32 (nof_prb - L + 1) 1 = nof_prb - L + 2" using assms(4) by (simp add: add32_small)
  moreover have "sub32 nof_vrb (nof_prb - 1 - S) = nof_vrb + 2 ^ 32 - (nof_prb - 1 - S)"
    using beyond S assms(4) by (intro sub32_underflow) simp_all
  moreover have "\<not> nof_prb - L + 2 > nof_vrb + 2 ^ 32 - (nof_prb - 1 - S)" using assms(4) by simp
  ultimately show ?thesis
    unfolding srsran_ra_type2_from_riv_def Let_def rc by (simp only: if_False)
qed

theorem riv_distributed_wrong_witness:
  "srsran_ra_type2_from_riv (srsran_ra_type2_to_riv 30 0 50) 50 46 = (22, 49)"
  using riv_distributed_wrong [of 30 0 46 50] by simp

text \<open>
  The start-and-length indicator is a bijection between the non-empty intervals of \<open>N\<close> resources and
  the numbers below \<open>N (N + 1) / 2\<close>, with the two functions inverse to each other.
\<close>
theorem sliv_bijection:
  assumes "N < 2 ^ 15"
  shows "(\<forall>S L. 0 < L \<and> S + L \<le> N \<longrightarrow> srsran_sliv_from_s_and_l N S L < N * (N + 1) div 2 \<and>
      srsran_sliv_to_s_and_l N (srsran_sliv_from_s_and_l N S L) = (S, L)) \<and>
    (\<forall>v < N * (N + 1) div 2. \<exists>S L. srsran_sliv_to_s_and_l N v = (S, L) \<and> 0 < L \<and> S + L \<le> N \<and>
      srsran_sliv_from_s_and_l N S L = v)"
proof -
  have fits: "codec_size N N \<and> N = N" using assms by (simp add: codec_size_def)
  have dec: "sliv.decodable N N S L \<longleftrightarrow> 0 < L \<and> S + L \<le> N" for S L
    by (auto simp: sliv.decodable_def)
  show ?thesis
    using sliv.enc_bound [OF fits] sliv.dec_enc [OF fits] sliv.enc_dec [OF fits] unfolding dec
    by (metis surj_pair)
qed

theorem sliv_bijection_witness:
  "srsran_sliv_to_s_and_l 14 (srsran_sliv_from_s_and_l 14 2 12) = (2, 12) \<and> srsran_sliv_from_s_and_l 14 2 12 = 53"
proof -
  have "srsran_sliv_to_s_and_l 14 (srsran_sliv_from_s_and_l 14 2 12) = (2, 12)"
    using sliv_bijection [of 14, THEN conjunct1, rule_format, of 12 2] by simp
  moreover have "srsran_sliv_from_s_and_l 14 2 12 = 53"
    by (simp add: srsran_sliv_from_s_and_l_def sub32_def add32_def mul32_def)
  ultimately show ?thesis by simp
qed

text \<open>
  The number of virtual blocks of a distributed allocation: with the first gap it is even and does not
  exceed the bandwidth, while with the second gap, which exists from 50 blocks on, the code
  multiplies \<open>nof_prb / ngap\<close> where TS 36.211 6.2.3.2 has \<open>nof_prb / (2 ngap)\<close>, so that the number always
  exceeds the bandwidth and the number of the standard.
\<close>
theorem type2_n_vrb_bounds:
  assumes "6 \<le> nof_prb" "nof_prb \<le> 110"
  shows "even (srsran_ra_type2_n_vrb_dl nof_prb True) \<and> srsran_ra_type2_n_vrb_dl nof_prb True \<le> nof_prb \<and>
    (50 \<le> nof_prb \<longrightarrow> srsran_ra_type2_n_vrb_dl nof_prb False > nof_prb \<and>
      nof_prb div (2 * srsran_ra_type2_ngap nof_prb False) * (2 * srsran_ra_type2_ngap nof_prb False) \<le> nof_prb)"
proof -
  define g where "g = srsran_ra_type2_ngap nof_prb True"
  define h where "h = srsran_ra_type2_ngap nof_prb False"
  have g: "g \<le> nof_prb" and h: "0 < h" "h \<le> nof_prb"
    using ngap_bounds [of nof_prb] assms by (auto simp: g_def h_def)
  have "srsran_ra_type2_n_vrb_dl nof_prb True = 2 * min g (nof_prb - g)"
    using g assms(2) by (auto simp: srsran_ra_type2_n_vrb_dl_def Let_def g_def [symmetric] sub32_le)
  moreover have "srsran_ra_type2_n_vrb_dl nof_prb False > nof_prb"
  proof -
    have eq: "nof_prb div h * h + nof_prb mod h = nof_prb" by simp
    have "nof_prb mod h < h" using h by simp
    moreover have "1 \<le> nof_prb div h" using h by (simp add: div_greater_zero_iff Suc_le_eq)
    then have "1 * h \<le> nof_prb div h * h" by (rule mult_le_mono1)
    ultimately have "nof_prb < 2 * (nof_prb div h * h)" using eq by linarith
    then show ?thesis by (simp add: srsran_ra_type2_n_vrb_dl_def Let_def h_def [symmetric] ac_simps)
  qed
  ultimately show ?thesis using h_def by (auto simp: mult.commute [of _ "2 * h"])
qed

theorem type2_n_vrb_bounds_witness:
  "srsran_ra_type2_n_vrb_dl 50 True = 46 \<and> srsran_ra_type2_n_vrb_dl 50 False > 50"
  using type2_n_vrb_bounds [of 50] by (simp add: srsran_ra_type2_n_vrb_dl_def srsran_ra_type2_ngap_def sub32_def)

text \<open>
  A valid modulation and coding scheme gives an index of the transport block table, and going back
  from the index finds the largest scheme with that index; a scheme outside the table is an error.
\<close>
theorem mcs_tbs_idx_inverse:
  assumes "mcs < (if is_ul \<or> \<not> alt then 29 else 28)"
  shows "\<exists>idx m. srsran_ra_tbs_idx_from_mcs mcs alt is_ul = Some idx \<and> idx < SRSRAN_RA_NOF_TBS_IDX \<and>
    srsran_ra_mcs_from_tbs_idx idx alt is_ul = Some m \<and> mcs \<le> m \<and>
    srsran_ra_tbs_idx_from_mcs m alt is_ul = Some idx \<and>
    (\<forall>m' > m. srsran_ra_tbs_idx_from_mcs m' alt is_ul \<noteq> Some idx)"
proof -
  define t where "t = (if is_ul then ul_mcs_tbs_idx_table else if alt then dl_mcs_tbs_idx_table2 else dl_mcs_tbs_idx_table)"
  define n :: nat where "n = (if is_ul \<or> \<not> alt then 29 else 28)"
  have fwd: "srsran_ra_tbs_idx_from_mcs k alt is_ul = (if k < n then Some (t ! k) else None)" for k
    by (auto simp: srsran_ra_tbs_idx_from_mcs_def srsran_ra_dl_tbs_idx_from_mcs_def
        srsran_ra_ul_tbs_idx_from_mcs_def t_def n_def)
  have bwd: "srsran_ra_mcs_from_tbs_idx idx alt is_ul = mcs_search t idx n" for idx
    by (auto simp: srsran_ra_mcs_from_tbs_idx_def srsran_ra_dl_mcs_from_tbs_idx_def
        srsran_ra_ul_mcs_from_tbs_idx_def t_def n_def)
  have "length t = n" "\<forall>x \<in> set t. x < 34"
    by (auto simp: t_def n_def ul_mcs_tbs_idx_table_def dl_mcs_tbs_idx_table_def dl_mcs_tbs_idx_table2_def)
  moreover have mn: "mcs < n" using assms by (simp add: n_def)
  ultimately have "t ! mcs < 34" by simp
  moreover obtain m where m: "mcs \<le> m" "mcs_search t (t ! mcs) n = Some m" "m < n" "t ! m = t ! mcs"
    using mcs_search_back [OF mn] by blast
  moreover from m(2) have "\<forall>j. m < j \<and> j < n \<longrightarrow> t ! j \<noteq> t ! mcs" by (simp add: mcs_search_Some)
  ultimately show ?thesis unfolding fwd bwd using mn by (intro exI [of _ "t ! mcs"] exI [of _ m]) auto
qed

theorem mcs_tbs_idx_inverse_witness:
  "\<exists>idx m. srsran_ra_tbs_idx_from_mcs 9 False False = Some idx \<and> srsran_ra_mcs_from_tbs_idx idx False False = Some m \<and> 9 \<le> m"
  using mcs_tbs_idx_inverse [of 9 False False] by auto

text \<open>
  \<open>srsran_ra_tbs_to_table_idx\<close> always finds the exclusive upper bound its comment promises: the entry below
  the bound is no larger than the given size and every entry from the bound to \<open>max_tbs_idx\<close> is
  larger. It never fails on a valid number of blocks, and recovers the index of a table entry.
\<close>
theorem tbs_to_table_idx_correct:
  assumes "0 < n_prb" "n_prb \<le> SRSRAN_MAX_PRB" "max_idx < SRSRAN_RA_NOF_TBS_IDX"
  shows "\<exists>u. srsran_ra_tbs_to_table_idx tbs n_prb max_idx = int u \<and> u \<le> max_idx + 1 \<and>
    (0 < u \<longrightarrow> (\<exists>t. srsran_ra_tbs_from_idx (u - 1) n_prb = Some t \<and> t \<le> tbs)) \<and>
    (\<forall>j t. u \<le> j \<and> j \<le> max_idx \<and> srsran_ra_tbs_from_idx j n_prb = Some t \<longrightarrow> tbs < t) \<and>
    (\<forall>idx \<le> max_idx. srsran_ra_tbs_from_idx idx n_prb = Some tbs \<longrightarrow> idx < u)"
proof -
  have fwd: "srsran_ra_tbs_from_idx j n_prb = (if j < 34 then Some (tbs_table ! j ! (n_prb - 1)) else None)" for j
    using assms(1,2) by (simp add: srsran_ra_tbs_from_idx_def)
  show ?thesis
  proof (cases "tbs < tbs_table ! 0 ! (n_prb - 1)")
    case True
    then have "srsran_ra_tbs_to_table_idx tbs n_prb max_idx = int 0"
      using assms by (simp add: srsran_ra_tbs_to_table_idx_def)
    moreover have "tbs < tbs_table ! j ! (n_prb - 1)" if "j < 34" for j
      using True tbs_table_column_min [OF that, of "n_prb - 1"] assms(1,2) by fastforce
    then have "tbs < t" if "srsran_ra_tbs_from_idx j n_prb = Some t" for j t
      using that by (auto simp: fwd split: if_splits)
    ultimately show ?thesis by (intro exI [of _ 0]) auto
  next
    case False
    then obtain i where i: "i \<le> max_idx" "tbs_search tbs n_prb max_idx = int i + 1"
      "tbs_table ! i ! (n_prb - 1) \<le> tbs" "\<forall>j. i < j \<and> j \<le> max_idx \<longrightarrow> tbs < tbs_table ! j ! (n_prb - 1)"
      using tbs_search_spec [of n_prb tbs max_idx] by (auto simp: not_less)
    have "srsran_ra_tbs_to_table_idx tbs n_prb max_idx = int (Suc i)"
      using False assms i(2) by (simp add: srsran_ra_tbs_to_table_idx_def)
    moreover have "idx < Suc i" if "idx \<le> max_idx" "tbs_table ! idx ! (n_prb - 1) = tbs" for idx
      using that i(4) by (metis less_irrefl not_less_eq)
    ultimately show ?thesis using i assms(3) fwd
      by (intro exI [of _ "Suc i"]) (auto simp: less_Suc_eq_le Suc_le_eq split: if_splits)
  qed
qed

theorem tbs_to_table_idx_correct_witness:
  "\<exists>u \<le> 34. srsran_ra_tbs_to_table_idx 5000 50 33 = int u"
  using tbs_to_table_idx_correct [of 50 33 5000] by auto

end
