(* ===== verification/Phy_Types.thy ===== *)
theory Phy_Types
  imports Phy_Prelude Ra_Alloc
begin

text \<open>
  The types the allocation and control components share: the enumerations, the cell and subframe
  configurations and the TDD tables of \<open>lib/include/srsran/phy/common/phy_common.h\<close> and
  \<open>lib/src/phy/common/phy_common.c\<close>, the allocation types of \<open>phch/ra.h\<close> and the DCI structures of
  \<open>phch/dci.h\<close>. Fields two structures share carry a prefix (\<open>dl_\<close>, \<open>ul_\<close>, \<open>cell_\<close>). The union of the
  three allocation types in \<open>srsran_dci_dl_t\<close> is a record with the three members: the code reads the
  member it wrote. \<open>outcome\<close> is the result of C code that writes into arrays and returns from loops.
\<close>

section \<open>Control flow\<close>

text \<open>
  A statement ends normally, returns from the function, or has written outside an array, which is
  undefined behaviour. \<open>c_for f is s\<close> is a loop over the indices \<open>is\<close> with body \<open>f\<close>.
\<close>

datatype 's outcome = Running 's | Returned int 's | Out_of_bounds

fun c_for :: "('i \<Rightarrow> 's \<Rightarrow> 's outcome) \<Rightarrow> 'i list \<Rightarrow> 's \<Rightarrow> 's outcome" where
  "c_for f [] s = Running s"
| "c_for f (i # is) s =
     (case f i s of Running s' \<Rightarrow> c_for f is s' | Returned r s' \<Rightarrow> Returned r s' | Out_of_bounds \<Rightarrow> Out_of_bounds)"

fun and_then :: "'s outcome \<Rightarrow> ('s \<Rightarrow> 's outcome) \<Rightarrow> 's outcome" where
  "and_then (Running s) f = f s"
| "and_then (Returned r s) f = Returned r s"
| "and_then Out_of_bounds f = Out_of_bounds"

text \<open>A loop whose body keeps an invariant and never leaves the arrays: the invariant after the loop.\<close>

lemma c_for_Running_induct:
  assumes "P 0 s"
    and "\<And>k s. k < length is \<Longrightarrow> P k s \<Longrightarrow> \<exists>s'. f (is ! k) s = Running s' \<and> P (Suc k) s'"
  shows "\<exists>s'. c_for f is s = Running s' \<and> P (length is) s'"
  using assms
proof (induction "is" arbitrary: s P)
  case Nil
  then show ?case by simp
next
  case (Cons i "is")
  obtain s1 where s1: "f i s = Running s1" "P (Suc 0) s1" using Cons.prems(2) [of 0 s] Cons.prems(1) by auto
  have "\<exists>s'. c_for f is s1 = Running s' \<and> P (Suc (length is)) s'"
    using s1(2) Cons.prems(2) [of "Suc _"] by (intro Cons.IH [of "\<lambda>k. P (Suc k)"]) auto
  then show ?case using s1(1) by simp
qed

text \<open>The same for a body that may return early with the error code.\<close>

lemma c_for_error_induct:
  assumes "P 0 s"
    and "\<And>k s. k < length is \<Longrightarrow> P k s \<Longrightarrow>
      (\<exists>s'. f (is ! k) s = Running s' \<and> P (Suc k) s') \<or> (\<exists>s'. f (is ! k) s = Returned r s' \<and> Q s')"
  shows "(\<exists>s'. c_for f is s = Running s' \<and> P (length is) s') \<or> (\<exists>s'. c_for f is s = Returned r s' \<and> Q s')"
  using assms
proof (induction "is" arbitrary: s P)
  case Nil
  then show ?case by simp
next
  case (Cons i "is")
  have "(\<exists>s'. f i s = Running s' \<and> P (Suc 0) s') \<or> (\<exists>s'. f i s = Returned r s' \<and> Q s')"
    using Cons.prems(2) [of 0 s] Cons.prems(1) by simp
  then show ?case
  proof
    assume "\<exists>s'. f i s = Running s' \<and> P (Suc 0) s'"
    then obtain s1 where s1: "f i s = Running s1" "P (Suc 0) s1" by blast
    have "(\<exists>s'. c_for f is s1 = Running s' \<and> P (Suc (length is)) s') \<or> (\<exists>s'. c_for f is s1 = Returned r s' \<and> Q s')"
      using s1(2) Cons.prems(2) [of "Suc _"] by (intro Cons.IH [of "\<lambda>k. P (Suc k)"]) auto
    then show ?thesis using s1(1) by simp
  next
    assume "\<exists>s'. f i s = Returned r s' \<and> Q s'"
    then show ?thesis by auto
  qed
qed

text \<open>A predicate that every state a statement can end in satisfies.\<close>

fun outcome_all :: "('s \<Rightarrow> bool) \<Rightarrow> 's outcome \<Rightarrow> bool" where
  "outcome_all P (Running s) = P s"
| "outcome_all P (Returned r s) = P s"
| "outcome_all P Out_of_bounds = True"

named_theorems outcome_intros \<open>predicates kept by statements\<close>

lemma outcome_all_c_for [outcome_intros]:
  "P s \<Longrightarrow> (\<And>i s. P s \<Longrightarrow> outcome_all P (f i s)) \<Longrightarrow> outcome_all P (c_for f is s)"
proof (induction "is" arbitrary: s)
  case (Cons i "is")
  then have "outcome_all P (f i s)" by simp
  then show ?case using Cons by (cases "f i s") simp_all
qed simp

lemma outcome_all_and_then [outcome_intros]:
  "outcome_all P x \<Longrightarrow> (\<And>s. P s \<Longrightarrow> outcome_all P (f s)) \<Longrightarrow> outcome_all P (and_then x f)"
  by (cases x) simp_all

lemma outcome_all_if [outcome_intros]:
  "(b \<Longrightarrow> outcome_all P x) \<Longrightarrow> (\<not> b \<Longrightarrow> outcome_all P y) \<Longrightarrow> outcome_all P (if b then x else y)"
  by simp

text \<open>An \<open>int\<close> converted to \<open>uint32_t\<close>.\<close>

definition u32_of_int :: "int \<Rightarrow> nat" where
  "u32_of_int x = nat (x mod 2 ^ 32)"

lemma u32_of_int_less: "0 \<le> x \<Longrightarrow> n < 2 ^ 31 \<Longrightarrow> x < 2 ^ 31 \<Longrightarrow> u32_of_int x < n \<longleftrightarrow> x < int n"
  by (simp add: u32_of_int_def nat_less_iff)

section \<open>Cells and subframes\<close>

datatype srsran_cp_t = SRSRAN_CP_NORM | SRSRAN_CP_EXT
datatype srsran_sf_t = SRSRAN_SF_NORM | SRSRAN_SF_MBSFN
datatype srsran_frame_type_t = SRSRAN_FDD | SRSRAN_TDD
datatype srsran_tdd_sf_t = SRSRAN_TDD_SF_D | SRSRAN_TDD_SF_U | SRSRAN_TDD_SF_S
datatype srsran_tm_t =
  SRSRAN_TM1 | SRSRAN_TM2 | SRSRAN_TM3 | SRSRAN_TM4 | SRSRAN_TM5 | SRSRAN_TM6 | SRSRAN_TM7 | SRSRAN_TM8 | SRSRAN_TMINV
datatype srsran_tx_scheme_t =
  SRSRAN_TXSCHEME_PORT0 | SRSRAN_TXSCHEME_DIVERSITY | SRSRAN_TXSCHEME_SPATIALMUX | SRSRAN_TXSCHEME_CDD

record srsran_tdd_config_t =
  sf_config :: nat
  ss_config :: nat
  configured :: bool

text \<open>The PHICH fields of the cell are not read by the code modelled here.\<close>

record srsran_cell_t =
  nof_prb :: nat
  nof_ports :: nat
  cell_id :: nat
  cell_cp :: srsran_cp_t
  frame_type :: srsran_frame_type_t

record srsran_dl_sf_cfg_t =
  tdd_config :: srsran_tdd_config_t
  tti :: nat
  cfi :: nat
  sf_type :: srsran_sf_t
  non_mbsfn_region :: nat

record srsran_ul_sf_cfg_t =
  ul_tdd_config :: srsran_tdd_config_t
  ul_tti :: nat
  shortened :: bool

definition SRSRAN_CP_NSYMB :: "srsran_cp_t \<Rightarrow> nat" where
  "SRSRAN_CP_NSYMB cp = (if cp = SRSRAN_CP_NORM then 7 else 6)"

abbreviation (input) SRSRAN_NRE :: nat where "SRSRAN_NRE \<equiv> 12"

definition SRSRAN_NOF_CTRL_SYMBOLS :: "srsran_cell_t \<Rightarrow> nat \<Rightarrow> nat" where
  "SRSRAN_NOF_CTRL_SYMBOLS cell n = add32 n (if nof_prb cell < 10 then 1 else 0)"

definition tdd_sf :: "srsran_tdd_sf_t list list" where
  "tdd_sf =
    (let D = SRSRAN_TDD_SF_D; U = SRSRAN_TDD_SF_U; S = SRSRAN_TDD_SF_S in
     [[D, S, U, U, U, D, S, U, U, U],
      [D, S, U, U, D, D, S, U, U, D],
      [D, S, U, D, D, D, S, U, D, D],
      [D, S, U, U, U, D, D, D, D, D],
      [D, S, U, U, D, D, D, D, D, D],
      [D, S, U, D, D, D, D, D, D, D],
      [D, S, U, U, U, D, S, U, U, D]])"

definition srsran_sfidx_tdd_type :: "srsran_tdd_config_t \<Rightarrow> nat \<Rightarrow> srsran_tdd_sf_t" where
  "srsran_sfidx_tdd_type tdd sf_idx =
     (if sf_config tdd < 7 \<and> sf_idx < 10 \<and> configured tdd then tdd_sf ! sf_config tdd ! sf_idx
      else SRSRAN_TDD_SF_D)"

definition tdd_nof_sf_symbols :: "nat list list" where
  "tdd_nof_sf_symbols =
    [[3, 10, 1], [9, 4, 1], [10, 3, 1], [11, 2, 1], [12, 1, 1], [3, 9, 2], [9, 3, 2], [10, 2, 2], [11, 1, 1], [6, 6, 2]]"

definition srsran_sfidx_tdd_nof_dw :: "srsran_tdd_config_t \<Rightarrow> nat" where
  "srsran_sfidx_tdd_nof_dw tdd = (if ss_config tdd < 10 then tdd_nof_sf_symbols ! ss_config tdd ! 0 else 0)"

definition srsran_sfidx_tdd_nof_gp :: "srsran_tdd_config_t \<Rightarrow> nat" where
  "srsran_sfidx_tdd_nof_gp tdd = (if ss_config tdd < 10 then tdd_nof_sf_symbols ! ss_config tdd ! 1 else 0)"

definition srsran_sfidx_tdd_nof_up :: "srsran_tdd_config_t \<Rightarrow> nat" where
  "srsran_sfidx_tdd_nof_up tdd = (if ss_config tdd < 10 then tdd_nof_sf_symbols ! ss_config tdd ! 2 else 0)"

definition srsran_sfidx_tdd_nof_dw_slot :: "srsran_tdd_config_t \<Rightarrow> nat \<Rightarrow> srsran_cp_t \<Rightarrow> nat" where
  "srsran_sfidx_tdd_nof_dw_slot tdd slot cp =
     (let n = srsran_sfidx_tdd_nof_dw tdd in
      if n < SRSRAN_CP_NSYMB cp then if slot = 1 then 0 else n
      else if slot = 1 then sub32 n (SRSRAN_CP_NSYMB cp) else SRSRAN_CP_NSYMB cp)"

text \<open>Every special subframe configuration but the ninth fills the 14 symbols of a subframe.\<close>

lemma tdd_special_symbols:
  "ss_config tdd < 10 \<Longrightarrow>
   srsran_sfidx_tdd_nof_dw tdd + srsran_sfidx_tdd_nof_gp tdd + srsran_sfidx_tdd_nof_up tdd =
     (if ss_config tdd = 8 then 13 else 14)"
proof -
  assume "ss_config tdd < 10"
  moreover have "\<forall>i < 10. tdd_nof_sf_symbols ! i ! 0 + tdd_nof_sf_symbols ! i ! 1 + tdd_nof_sf_symbols ! i ! 2 =
      (if i = 8 then 13 else (14 :: nat))"
    by code_simp
  ultimately show ?thesis
    by (simp add: srsran_sfidx_tdd_nof_dw_def srsran_sfidx_tdd_nof_gp_def srsran_sfidx_tdd_nof_up_def)
qed

section \<open>Radio network identifiers\<close>

definition SRSRAN_RNTI_ISRAR :: "nat \<Rightarrow> bool" where
  "SRSRAN_RNTI_ISRAR rnti \<longleftrightarrow> 0x0001 \<le> rnti \<and> rnti \<le> 0x000A"

definition SRSRAN_RNTI_ISUSER :: "nat \<Rightarrow> bool" where
  "SRSRAN_RNTI_ISUSER rnti \<longleftrightarrow> 0x000B \<le> rnti \<and> rnti \<le> 0xFFF3"

abbreviation (input) SRSRAN_SIRNTI :: nat where "SRSRAN_SIRNTI \<equiv> 0xFFFF"
abbreviation (input) SRSRAN_PRNTI :: nat where "SRSRAN_PRNTI \<equiv> 0xFFFE"
abbreviation (input) SRSRAN_MRNTI :: nat where "SRSRAN_MRNTI \<equiv> 0xFFFD"

definition SRSRAN_RNTI_ISSI :: "nat \<Rightarrow> bool" where
  "SRSRAN_RNTI_ISSI rnti \<longleftrightarrow> rnti = SRSRAN_SIRNTI"

definition SRSRAN_RNTI_ISPA :: "nat \<Rightarrow> bool" where
  "SRSRAN_RNTI_ISPA rnti \<longleftrightarrow> rnti = SRSRAN_PRNTI"

definition SRSRAN_RNTI_ISMBSFN :: "nat \<Rightarrow> bool" where
  "SRSRAN_RNTI_ISMBSFN rnti \<longleftrightarrow> rnti = SRSRAN_MRNTI"

definition SRSRAN_RNTI_ISSIRAPA :: "nat \<Rightarrow> bool" where
  "SRSRAN_RNTI_ISSIRAPA rnti \<longleftrightarrow> SRSRAN_RNTI_ISSI rnti \<or> SRSRAN_RNTI_ISRAR rnti \<or> SRSRAN_RNTI_ISPA rnti"

section \<open>Allocation types and DCI structures\<close>

abbreviation (input) SRSRAN_MAX_CODEWORDS :: nat where "SRSRAN_MAX_CODEWORDS \<equiv> 2"

datatype srsran_ra_type_t = SRSRAN_RA_ALLOC_TYPE0 | SRSRAN_RA_ALLOC_TYPE1 | SRSRAN_RA_ALLOC_TYPE2
datatype n_prb1a_t = SRSRAN_RA_TYPE2_NPRB1A_2 | SRSRAN_RA_TYPE2_NPRB1A_3
datatype n_gap_t = SRSRAN_RA_TYPE2_NG1 | SRSRAN_RA_TYPE2_NG2
datatype mode_t = SRSRAN_RA_TYPE2_LOC | SRSRAN_RA_TYPE2_DIST

record srsran_ra_type0_t =
  rbg_bitmask :: nat

record srsran_ra_type1_t =
  vrb_bitmask :: nat
  rbg_subset :: nat
  shift :: bool

record srsran_ra_type2_t =
  riv :: nat
  n_prb1a :: n_prb1a_t
  n_gap :: n_gap_t
  mode :: mode_t

record srsran_ra_tb_t =
  mod_order :: srsran_mod_t
  tbs :: int
  rv :: int
  nof_bits :: nat
  cw_idx :: nat
  enabled :: bool
  mcs_idx :: nat

record srsran_dci_tb_t =
  dci_mcs_idx :: nat
  dci_rv :: int
  ndi :: bool
  dci_cw_idx :: nat

definition SRSRAN_DCI_IS_TB_EN :: "srsran_dci_tb_t \<Rightarrow> bool" where
  "SRSRAN_DCI_IS_TB_EN tb \<longleftrightarrow> \<not> (dci_mcs_idx tb = 0 \<and> dci_rv tb = 1)"

definition SRSRAN_DCI_TB_DISABLE :: "srsran_dci_tb_t \<Rightarrow> srsran_dci_tb_t" where
  "SRSRAN_DCI_TB_DISABLE tb = tb\<lparr>dci_mcs_idx := 0, dci_rv := 1\<rparr>"

datatype srsran_dci_format_t =
  SRSRAN_DCI_FORMAT0 | SRSRAN_DCI_FORMAT1 | SRSRAN_DCI_FORMAT1A | SRSRAN_DCI_FORMAT1B | SRSRAN_DCI_FORMAT1C
| SRSRAN_DCI_FORMAT1D | SRSRAN_DCI_FORMAT2 | SRSRAN_DCI_FORMAT2A | SRSRAN_DCI_FORMAT2B
| SRSRAN_DCI_FORMATN0 | SRSRAN_DCI_FORMATN1 | SRSRAN_DCI_FORMATN2 | SRSRAN_DCI_FORMAT_RAR | SRSRAN_DCI_NOF_FORMATS

text \<open>The order of the enumerators, which the code compares.\<close>

fun dci_format_number :: "srsran_dci_format_t \<Rightarrow> nat" where
  "dci_format_number SRSRAN_DCI_FORMAT0 = 0"
| "dci_format_number SRSRAN_DCI_FORMAT1 = 1"
| "dci_format_number SRSRAN_DCI_FORMAT1A = 2"
| "dci_format_number SRSRAN_DCI_FORMAT1B = 3"
| "dci_format_number SRSRAN_DCI_FORMAT1C = 4"
| "dci_format_number SRSRAN_DCI_FORMAT1D = 5"
| "dci_format_number SRSRAN_DCI_FORMAT2 = 6"
| "dci_format_number SRSRAN_DCI_FORMAT2A = 7"
| "dci_format_number SRSRAN_DCI_FORMAT2B = 8"
| "dci_format_number SRSRAN_DCI_FORMATN0 = 9"
| "dci_format_number SRSRAN_DCI_FORMATN1 = 10"
| "dci_format_number SRSRAN_DCI_FORMATN2 = 11"
| "dci_format_number SRSRAN_DCI_FORMAT_RAR = 12"
| "dci_format_number SRSRAN_DCI_NOF_FORMATS = 13"

lemma dci_format_number_inj: "dci_format_number a = dci_format_number b \<longleftrightarrow> a = b"
  by (cases a; cases b) simp_all

instantiation srsran_dci_format_t :: linorder
begin

definition less_eq_srsran_dci_format_t :: "srsran_dci_format_t \<Rightarrow> srsran_dci_format_t \<Rightarrow> bool" where
  "a \<le> b \<longleftrightarrow> dci_format_number a \<le> dci_format_number b"

definition less_srsran_dci_format_t :: "srsran_dci_format_t \<Rightarrow> srsran_dci_format_t \<Rightarrow> bool" where
  "a < b \<longleftrightarrow> dci_format_number a < dci_format_number b"

instance
  by standard (auto simp: less_eq_srsran_dci_format_t_def less_srsran_dci_format_t_def dci_format_number_inj)

end

lemmas dci_format_order = less_eq_srsran_dci_format_t_def less_srsran_dci_format_t_def

record srsran_dci_location_t =
  loc_L :: nat
  loc_ncce :: nat

record srsran_dci_dl_t =
  dl_rnti :: nat
  dl_format :: srsran_dci_format_t
  dl_location :: srsran_dci_location_t
  dl_ue_cc_idx :: nat
  alloc_type :: srsran_ra_type_t
  type0_alloc :: srsran_ra_type0_t
  type1_alloc :: srsran_ra_type1_t
  type2_alloc :: srsran_ra_type2_t
  dl_tb :: "srsran_dci_tb_t list"
  tb_cw_swap :: bool
  pinfo :: nat
  pconf :: bool
  power_offset :: bool
  tpc_pucch :: nat
  is_ra_order :: bool
  ra_preamble :: nat
  ra_mask_idx :: nat
  dl_cif :: nat
  dl_cif_present :: bool
  dl_srs_request :: bool
  dl_srs_request_present :: bool
  pid :: nat
  dl_dai :: nat
  dl_is_tdd :: bool
  is_dwpts :: bool
  sram_id :: bool

datatype freq_hop_fl_t =
  SRSRAN_RA_PUSCH_HOP_DISABLED | SRSRAN_RA_PUSCH_HOP_QUART | SRSRAN_RA_PUSCH_HOP_QUART_NEG
| SRSRAN_RA_PUSCH_HOP_HALF | SRSRAN_RA_PUSCH_HOP_TYPE2

record srsran_dci_ul_t =
  ul_rnti :: nat
  ul_format :: srsran_dci_format_t
  ul_location :: srsran_dci_location_t
  ul_ue_cc_idx :: nat
  ul_type2_alloc :: srsran_ra_type2_t
  freq_hop_fl :: freq_hop_fl_t
  ul_tb :: srsran_dci_tb_t
  n_dmrs :: nat
  cqi_request :: bool
  ul_dai :: nat
  ul_idx :: nat
  ul_is_tdd :: bool
  tpc_pusch :: nat
  ul_cif :: nat
  ul_cif_present :: bool
  multiple_csi_request :: nat
  multiple_csi_request_present :: bool
  ul_srs_request :: bool
  ul_srs_request_present :: bool
  ul_ra_type :: srsran_ra_type_t
  ra_type_present :: bool

text \<open>\<open>bzero\<close> of the two structures; \<open>freq_hop_fl\<close> zero is the first hopping type.\<close>

definition zero_type2 :: srsran_ra_type2_t where
  "zero_type2 = \<lparr>riv = 0, n_prb1a = SRSRAN_RA_TYPE2_NPRB1A_2, n_gap = SRSRAN_RA_TYPE2_NG1, mode = SRSRAN_RA_TYPE2_LOC\<rparr>"

definition zero_dci_tb :: srsran_dci_tb_t where
  "zero_dci_tb = \<lparr>dci_mcs_idx = 0, dci_rv = 0, ndi = False, dci_cw_idx = 0\<rparr>"

definition zero_dci_dl :: srsran_dci_dl_t where
  "zero_dci_dl = \<lparr>dl_rnti = 0, dl_format = SRSRAN_DCI_FORMAT0, dl_location = \<lparr>loc_L = 0, loc_ncce = 0\<rparr>, dl_ue_cc_idx = 0,
     alloc_type = SRSRAN_RA_ALLOC_TYPE0, type0_alloc = \<lparr>rbg_bitmask = 0\<rparr>,
     type1_alloc = \<lparr>vrb_bitmask = 0, rbg_subset = 0, shift = False\<rparr>, type2_alloc = zero_type2,
     dl_tb = [zero_dci_tb, zero_dci_tb], tb_cw_swap = False, pinfo = 0, pconf = False, power_offset = False,
     tpc_pucch = 0, is_ra_order = False, ra_preamble = 0, ra_mask_idx = 0, dl_cif = 0, dl_cif_present = False,
     dl_srs_request = False, dl_srs_request_present = False, pid = 0, dl_dai = 0, dl_is_tdd = False,
     is_dwpts = False, sram_id = False\<rparr>"

definition zero_dci_ul :: srsran_dci_ul_t where
  "zero_dci_ul = \<lparr>ul_rnti = 0, ul_format = SRSRAN_DCI_FORMAT0, ul_location = \<lparr>loc_L = 0, loc_ncce = 0\<rparr>, ul_ue_cc_idx = 0,
     ul_type2_alloc = zero_type2, freq_hop_fl = SRSRAN_RA_PUSCH_HOP_QUART, ul_tb = zero_dci_tb, n_dmrs = 0,
     cqi_request = False, ul_dai = 0, ul_idx = 0, ul_is_tdd = False, tpc_pusch = 0, ul_cif = 0, ul_cif_present = False,
     multiple_csi_request = 0, multiple_csi_request_present = False, ul_srs_request = False,
     ul_srs_request_present = False, ul_ra_type = SRSRAN_RA_ALLOC_TYPE0, ra_type_present = False\<rparr>"

end
