(* ===== verification/Ra_Dl.thy ===== *)
theory Ra_Dl
  imports Phy_Types "HOL-Library.Signed_Division"
begin

text \<open>
  Downlink resource allocation, \<open>lib/src/phy/phch/ra_dl.c\<close>: from a DCI to the physical resource blocks, the
  transport blocks, the number of resource elements and the precoding of a PDSCH grant. Values of type
  \<open>uint32_t\<close> are natural numbers with the wrap-around of \<open>add32\<close>, \<open>sub32\<close> and \<open>mul32\<close> where an
  expression can leave the range, values of type \<open>int\<close> are integers. Functions that modify the grant
  through a pointer return it; the allocation is an \<open>outcome\<close>, since it writes into the arrays \<open>prb_idx\<close>.
  The text output functions at the end of the file are not modelled.
\<close>

section \<open>The grant\<close>

record srsran_pdsch_grant_t =
  tx_scheme :: srsran_tx_scheme_t
  pmi :: nat
  prb_idx :: "bool list list"
  grant_nof_prb :: nat
  nof_re :: nat
  nof_symb_slot :: "nat list"
  tb :: "srsran_ra_tb_t list"
  last_tbs :: "int list"
  nof_tb :: nat
  nof_layers :: nat

text \<open>\<open>bzero\<close>.\<close>

definition zero_tb :: srsran_ra_tb_t where
  "zero_tb = \<lparr>mod_order = SRSRAN_MOD_BPSK, tbs = 0, rv = 0, nof_bits = 0, cw_idx = 0, enabled = False, mcs_idx = 0\<rparr>"

definition zero_grant :: srsran_pdsch_grant_t where
  "zero_grant = \<lparr>tx_scheme = SRSRAN_TXSCHEME_PORT0, pmi = 0,
     prb_idx = [replicate SRSRAN_MAX_PRB False, replicate SRSRAN_MAX_PRB False],
     grant_nof_prb = 0, nof_re = 0, nof_symb_slot = [0, 0], tb = [zero_tb, zero_tb], last_tbs = [0, 0],
     nof_tb = 0, nof_layers = 0\<rparr>"

definition bzero_grant :: "srsran_pdsch_grant_t \<Rightarrow> srsran_pdsch_grant_t" where
  "bzero_grant g = zero_grant"

section \<open>Resource elements of a resource block\<close>

text \<open>The symbols of the slot, shorter in the downlink part of a special subframe.\<close>

definition dl_nof_symbols :: "srsran_cell_t \<Rightarrow> srsran_dl_sf_cfg_t \<Rightarrow> nat \<Rightarrow> srsran_cp_t \<Rightarrow> nat" where
  "dl_nof_symbols cell sf slot cp =
     (if frame_type cell = SRSRAN_TDD \<and> srsran_sfidx_tdd_type (tdd_config sf) (tti sf mod 10) = SRSRAN_TDD_SF_S
      then srsran_sfidx_tdd_nof_dw_slot (tdd_config sf) slot cp else SRSRAN_CP_NSYMB cp)"

text \<open>The resource block lies in the six in the middle, or half of it does.\<close>

definition in_centre :: "nat \<Rightarrow> nat \<Rightarrow> bool" where
  "in_centre n prb \<longleftrightarrow> prb \<ge> sub32 (n div 2) 3 \<and> prb < n div 2 + 3 + n mod 2"

definition at_centre_edge :: "nat \<Rightarrow> nat \<Rightarrow> bool" where
  "at_centre_edge n prb \<longleftrightarrow> n mod 2 \<noteq> 0 \<and> (prb = sub32 (n div 2) 3 \<or> prb = n div 2 + 3)"

definition pbch_edge :: "srsran_cell_t \<Rightarrow> srsran_cp_t \<Rightarrow> nat \<Rightarrow> nat" where
  "pbch_edge cell cp re =
     (let re = add32 re (sub32 24 (nof_ports cell)) in
      if cp = SRSRAN_CP_EXT then sub32 re (if nof_ports cell > 2 then 2 else nof_ports cell) else re)"

definition re_sync_fdd ::
  "srsran_cell_t \<Rightarrow> srsran_cp_t \<Rightarrow> nat \<Rightarrow> nat \<Rightarrow> nat \<Rightarrow> nat \<Rightarrow> nat \<Rightarrow> nat \<Rightarrow> nat \<times> bool" where
  "re_sync_fdd cell cp nof_symbols nof_ctrl subframe slot prb re =
     (if (subframe = 0 \<or> subframe = 5) \<and> in_centre (nof_prb cell) prb then
        let (re, skip_refs) =
          (if subframe = 0 then
             if slot = 0 then (mul32 (sub32 (sub32 nof_symbols nof_ctrl) 2) SRSRAN_NRE, True)
             else if cp = SRSRAN_CP_EXT then (mul32 (sub32 nof_symbols 4) SRSRAN_NRE, False)
             else (add32 (mul32 (sub32 nof_symbols 4) SRSRAN_NRE) (mul32 2 (nof_ports cell)), True)
           else if slot = 0 then (mul32 (sub32 (sub32 nof_symbols nof_ctrl) 2) SRSRAN_NRE, True)
           else (re, True)) in
        if at_centre_edge (nof_prb cell) prb then
          if slot = 0 then (add32 re 12, skip_refs)
          else if subframe = 0 then (pbch_edge cell cp re, skip_refs)
          else (re, skip_refs)
        else (re, skip_refs)
      else (re, True))"

definition re_sync_tdd ::
  "srsran_cell_t \<Rightarrow> srsran_cp_t \<Rightarrow> nat \<Rightarrow> nat \<Rightarrow> nat \<Rightarrow> nat \<Rightarrow> nat \<Rightarrow> nat \<Rightarrow> nat \<times> bool" where
  "re_sync_tdd cell cp nof_symbols nof_ctrl subframe slot prb re =
     (if ((subframe = 0 \<or> subframe = 5) \<and> slot = 1 \<or> (subframe = 1 \<or> subframe = 6) \<and> slot = 0) \<and>
         in_centre (nof_prb cell) prb then
        let (re, skip_refs) =
          (if subframe = 0 then
             if cp = SRSRAN_CP_EXT then (mul32 (sub32 nof_symbols 5) SRSRAN_NRE, False)
             else (add32 (mul32 (sub32 nof_symbols 5) SRSRAN_NRE) (mul32 2 (nof_ports cell)), True)
           else if subframe = 5 then (mul32 (sub32 nof_symbols 1) SRSRAN_NRE, True)
           else (mul32 (sub32 (sub32 nof_symbols nof_ctrl) 1) SRSRAN_NRE, True)) in
        if at_centre_edge (nof_prb cell) prb then
          let re = add32 re (SRSRAN_NRE div 2) in
          (if subframe = 0 then pbch_edge cell cp re else re, skip_refs)
        else (re, skip_refs)
      else (re, True))"

definition full_slot :: "srsran_cp_t \<Rightarrow> nat \<Rightarrow> bool" where
  "full_slot cp nof_symbols \<longleftrightarrow> cp = SRSRAN_CP_NORM \<and> nof_symbols \<ge> 5 \<or> cp = SRSRAN_CP_EXT \<and> nof_symbols \<ge> 4"

definition re_sub_refs :: "srsran_cell_t \<Rightarrow> srsran_sf_t \<Rightarrow> srsran_cp_t \<Rightarrow> nat \<Rightarrow> nat \<Rightarrow> nat \<Rightarrow> nat \<Rightarrow> nat" where
  "re_sub_refs cell typ cp nof_symbols nof_ctrl slot re =
     (let re =
        (if typ = SRSRAN_SF_NORM then
           if nof_ports cell = 1 \<or> nof_ports cell = 2 then
             if full_slot cp nof_symbols then sub32 re (mul32 (2 * (slot + 1)) (nof_ports cell))
             else if slot = 1 then if nof_symbols \<ge> 1 then sub32 re (2 * nof_ports cell) else re
             else re
           else if nof_ports cell = 4 then
             if slot = 1 then
               if full_slot cp nof_symbols then sub32 re 12
               else if nof_symbols \<ge> 2 then sub32 re 8 else re
             else if full_slot cp nof_symbols then
               let re = sub32 re 4 in if nof_ctrl = 1 then sub32 re 4 else re
             else re
           else re
         else re) in
      if typ = SRSRAN_SF_MBSFN then sub32 re (6 * (slot + 1)) else re)"

definition ra_re_x_prb :: "srsran_cell_t \<Rightarrow> srsran_dl_sf_cfg_t \<Rightarrow> nat \<Rightarrow> nat \<Rightarrow> nat" where
  "ra_re_x_prb cell sf slot prb =
     (let subframe = tti sf mod 10;
          nof_ctrl = SRSRAN_NOF_CTRL_SYMBOLS cell (cfi sf);
          cp = (if sf_type sf = SRSRAN_SF_MBSFN then SRSRAN_CP_EXT else cell_cp cell);
          nof_symbols = dl_nof_symbols cell sf slot cp;
          re = (if slot = 0 then mul32 (sub32 nof_symbols nof_ctrl) SRSRAN_NRE else mul32 nof_symbols SRSRAN_NRE);
          (re, skip_refs) =
            (if frame_type cell = SRSRAN_FDD then re_sync_fdd cell cp nof_symbols nof_ctrl subframe slot prb re
             else re_sync_tdd cell cp nof_symbols nof_ctrl subframe slot prb re) in
      if skip_refs then re_sub_refs cell (sf_type sf) cp nof_symbols nof_ctrl slot re else re)"

section \<open>Resource block allocation\<close>

text \<open>\<open>grant->prb_idx[s][i] = true\<close>, \<open>grant->nof_prb++\<close>, and the copy of the first slot to the second.\<close>

definition mark_prb :: "nat \<Rightarrow> nat \<Rightarrow> srsran_pdsch_grant_t \<Rightarrow> srsran_pdsch_grant_t outcome" where
  "mark_prb s i g =
     (if i < SRSRAN_MAX_PRB then Running (g\<lparr>prb_idx := (prb_idx g)[s := (prb_idx g ! s)[i := True]]\<rparr>) else Out_of_bounds)"

definition count_prb :: "srsran_pdsch_grant_t \<Rightarrow> srsran_pdsch_grant_t" where
  "count_prb g = g\<lparr>grant_nof_prb := grant_nof_prb g + 1\<rparr>"

definition mark_count :: "nat \<Rightarrow> srsran_pdsch_grant_t \<Rightarrow> srsran_pdsch_grant_t outcome" where
  "mark_count i g = and_then (mark_prb 0 i g) (\<lambda>g. Running (count_prb g))"

definition copy_slot :: "srsran_pdsch_grant_t \<Rightarrow> srsran_pdsch_grant_t" where
  "copy_slot g = g\<lparr>prb_idx := (prb_idx g)[1 := prb_idx g ! 0]\<rparr>"

definition prb_allocation_type0 ::
  "srsran_dci_dl_t \<Rightarrow> nat \<Rightarrow> srsran_pdsch_grant_t \<Rightarrow> srsran_pdsch_grant_t outcome" where
  "prb_allocation_type0 dci n g =
     (let P = srsran_ra_type0_P n; nb = ceil_div n P in
      and_then
        (c_for (\<lambda>i g.
           if bit (rbg_bitmask (type0_alloc dci)) (nb - i - 1) then
             c_for (\<lambda>j g. if i * P + j < n then mark_count (i * P + j) g else Running g) [0..<P] g
           else Running g) [0..<nb] g)
        (\<lambda>g. Running (copy_slot g)))"

definition n_rb_rbg_subset :: "nat \<Rightarrow> nat \<Rightarrow> nat \<Rightarrow> nat" where
  "n_rb_rbg_subset sel n P =
     (let temp = (sub32 n 1 div P) mod P; rows = sub32 n 1 div (P * P) * P in
      if sel < temp then rows + P
      else if sel = temp then rows + sub32 n 1 mod P + 1
      else rows)"

definition type1_idx :: "nat \<Rightarrow> nat \<Rightarrow> nat \<Rightarrow> nat" where
  "type1_idx P sel k =
     add32 (add32 (mul32 (mul32 (k div P) P) P) (mul32 sel P)) (k mod P)"

definition prb_allocation_type1 ::
  "srsran_dci_dl_t \<Rightarrow> nat \<Rightarrow> srsran_pdsch_grant_t \<Rightarrow> srsran_pdsch_grant_t outcome" where
  "prb_allocation_type1 dci n g =
     (let P = srsran_ra_type0_P n; sel = rbg_subset (type1_alloc dci) in
      if sel \<ge> P then Returned (-1) g
      else
        let n_rb_type1 = srsran_ra_type1_N_rb n;
            sh = (if shift (type1_alloc dci) then sub32 (n_rb_rbg_subset sel n P) n_rb_type1 else 0) in
        and_then
          (c_for (\<lambda>i g.
             if bit (vrb_bitmask (type1_alloc dci)) (n_rb_type1 - i - 1) then
               let idx = type1_idx P sel (add32 i sh) in
               if idx < n then mark_count idx g else Returned (-1) g
             else Running g) [0..<n_rb_type1] g)
          (\<lambda>g. Running (copy_slot g)))"

text \<open>
  The interleaving of distributed virtual resource blocks (TS 36.211 6.2.3.2): the block in the first slot,
  \<open>n_tilde_prb_odd\<close>, and the one in the second, half the range further.
\<close>

definition dist_N_row :: "int \<Rightarrow> nat \<Rightarrow> int" where
  "dist_N_row N_tilde_vrb P = int (ceil_div (nat N_tilde_vrb) (4 * P) * P)"

definition n_tilde_prb_odd :: "int \<Rightarrow> int \<Rightarrow> int \<Rightarrow> int" where
  "n_tilde_prb_odd N_tilde_vrb N_row n_vrb =
     (let N_null = 4 * N_row - N_tilde_vrb;
          n_tilde_vrb = n_vrb mod N_tilde_vrb;
          n_tilde_prb = 2 * N_row * (n_tilde_vrb mod 2) + n_tilde_vrb div 2 + N_tilde_vrb * (n_vrb div N_tilde_vrb);
          n_tilde2_prb = N_row * (n_tilde_vrb mod 4) + n_tilde_vrb div 4 + N_tilde_vrb * (n_vrb div N_tilde_vrb) in
      if N_null \<noteq> 0 \<and> n_tilde_vrb \<ge> N_tilde_vrb - N_null \<and> n_tilde_vrb mod 2 = 1 then n_tilde_prb - N_row
      else if N_null \<noteq> 0 \<and> n_tilde_vrb \<ge> N_tilde_vrb - N_null \<and> n_tilde_vrb mod 2 = 0 then n_tilde_prb - N_row + N_null div 2
      else if N_null \<noteq> 0 \<and> n_tilde_vrb < N_tilde_vrb - N_null \<and> n_tilde_vrb mod 4 \<ge> 2 then n_tilde2_prb - N_null div 2
      else n_tilde2_prb)"

definition n_tilde_prb_even :: "int \<Rightarrow> int \<Rightarrow> int \<Rightarrow> int" where
  "n_tilde_prb_even N_tilde_vrb N_row n_vrb =
     (n_tilde_prb_odd N_tilde_vrb N_row n_vrb + N_tilde_vrb div 2) smod N_tilde_vrb + N_tilde_vrb * (n_vrb div N_tilde_vrb)"

definition dist_prb :: "int \<Rightarrow> int \<Rightarrow> int \<Rightarrow> int" where
  "dist_prb N_tilde_vrb N_gap n = (if n < N_tilde_vrb div 2 then n else n + N_gap - N_tilde_vrb div 2)"

definition mark_dist :: "nat \<Rightarrow> nat \<Rightarrow> int \<Rightarrow> srsran_pdsch_grant_t \<Rightarrow> srsran_pdsch_grant_t outcome" where
  "mark_dist s n m g = (if u32_of_int m < n then mark_prb s (nat m) g else Returned (-1) g)"

definition dist_parameters :: "nat \<Rightarrow> n_gap_t \<Rightarrow> int \<times> int" where
  "dist_parameters n gap =
     (if gap = SRSRAN_RA_TYPE2_NG1
      then (int (srsran_ra_type2_n_vrb_dl n True), int (srsran_ra_type2_ngap n True))
      else (2 * int (srsran_ra_type2_n_vrb_dl n True), int (srsran_ra_type2_ngap n False)))"

definition prb_allocation_dist ::
  "n_gap_t \<Rightarrow> nat \<Rightarrow> nat \<Rightarrow> nat \<Rightarrow> srsran_pdsch_grant_t \<Rightarrow> srsran_pdsch_grant_t outcome" where
  "prb_allocation_dist gap L_crb RB_start n g =
     (let (N_tilde_vrb, N_gap) = dist_parameters n gap; N_row = dist_N_row N_tilde_vrb (srsran_ra_type0_P n) in
      c_for (\<lambda>i g.
        let n_vrb = int i + int RB_start in
        and_then (mark_dist 0 n (dist_prb N_tilde_vrb N_gap (n_tilde_prb_odd N_tilde_vrb N_row n_vrb)) g)
          (\<lambda>g. mark_dist 1 n (dist_prb N_tilde_vrb N_gap (n_tilde_prb_even N_tilde_vrb N_row n_vrb)) (count_prb g)))
        [0..<L_crb] g)"

definition type2_blocks :: "srsran_dci_dl_t \<Rightarrow> nat \<Rightarrow> nat \<times> nat" where
  "type2_blocks dci n =
     (let loc = mode (type2_alloc dci) = SRSRAN_RA_TYPE2_LOC;
          format1c = dl_format dci = SRSRAN_DCI_FORMAT1C;
          nof_vrb = (if loc then n else srsran_ra_type2_n_vrb_dl n (n_gap (type2_alloc dci) = SRSRAN_RA_TYPE2_NG1));
          n_step = (if format1c then srsran_ra_type2_n_rb_step n else 0);
          nof_vrb' = (if format1c then nof_vrb div n_step else nof_vrb);
          (L_crb, RB_start) = srsran_ra_type2_from_riv (riv (type2_alloc dci)) (if format1c then nof_vrb' else n) nof_vrb' in
      if format1c then (mul32 L_crb n_step, mul32 RB_start n_step) else (L_crb, RB_start))"

definition prb_allocation_type2 ::
  "srsran_dci_dl_t \<Rightarrow> nat \<Rightarrow> srsran_pdsch_grant_t \<Rightarrow> srsran_pdsch_grant_t outcome" where
  "prb_allocation_type2 dci n g =
     (let (L_crb, RB_start) = type2_blocks dci n in
      if mode (type2_alloc dci) = SRSRAN_RA_TYPE2_LOC then
        and_then (c_for (\<lambda>i g. mark_count (add32 i RB_start) g) [0..<L_crb] g) (\<lambda>g. Running (copy_slot g))
      else prb_allocation_dist (n_gap (type2_alloc dci)) L_crb RB_start n g)"

definition srsran_ra_dl_grant_to_grant_prb_allocation ::
  "srsran_dci_dl_t \<Rightarrow> srsran_pdsch_grant_t \<Rightarrow> nat \<Rightarrow> srsran_pdsch_grant_t outcome" where
  "srsran_ra_dl_grant_to_grant_prb_allocation dci g n =
     and_then
       (case alloc_type dci of
          SRSRAN_RA_ALLOC_TYPE0 \<Rightarrow> prb_allocation_type0 dci n g
        | SRSRAN_RA_ALLOC_TYPE1 \<Rightarrow> prb_allocation_type1 dci n g
        | SRSRAN_RA_ALLOC_TYPE2 \<Rightarrow> prb_allocation_type2 dci n g)
       (\<lambda>g. Returned 0 g)"

section \<open>Modulation and transport block size\<close>

definition tbs_format1c_table :: "nat list" where
  "tbs_format1c_table =
     [40, 56, 72, 120, 136, 144, 176, 208, 224, 256, 280, 296, 328, 336, 392, 488, 552, 600, 632, 696, 776, 840,
      904, 1000, 1064, 1128, 1224, 1288, 1384, 1480, 1608, 1736]"

text \<open>\<open>SRSRAN_ERROR\<close> as a value of type \<open>int\<close>.\<close>

definition int_or_error :: "nat option \<Rightarrow> int" where
  "int_or_error x = (case x of Some t \<Rightarrow> int t | None \<Rightarrow> -1)"

definition srsran_dl_fill_ra_mcs :: "srsran_ra_tb_t \<Rightarrow> int \<Rightarrow> nat \<Rightarrow> bool \<Rightarrow> int \<times> srsran_ra_tb_t" where
  "srsran_dl_fill_ra_mcs t prev nprb use_tbs_index_alt =
     (let t = t\<lparr>mod_order := srsran_ra_dl_mod_from_mcs (mcs_idx t) use_tbs_index_alt\<rparr> in
      case srsran_ra_tbs_idx_from_mcs (mcs_idx t) use_tbs_index_alt False of
        Some i_tbs \<Rightarrow> let size = int_or_error (srsran_ra_tbs_from_idx i_tbs nprb) in (size, t\<lparr>tbs := size\<rparr>)
      | None \<Rightarrow> (0, t\<lparr>tbs := prev\<rparr>))"

definition copy_tb :: "srsran_dci_dl_t \<Rightarrow> nat \<Rightarrow> srsran_pdsch_grant_t \<Rightarrow> srsran_pdsch_grant_t" where
  "copy_tb dci i g =
     (let d = dl_tb dci ! i; t = (tb g ! i)\<lparr>mcs_idx := dci_mcs_idx d, rv := dci_rv d, cw_idx := dci_cw_idx d\<rparr> in
      if SRSRAN_DCI_IS_TB_EN d \<and> dl_format dci \<ge> SRSRAN_DCI_FORMAT2 \<or> dl_format dci < SRSRAN_DCI_FORMAT2 \<and> i = 0
      then g\<lparr>tb := (tb g)[i := t\<lparr>enabled := True\<rparr>], nof_tb := nof_tb g + 1\<rparr>
      else g\<lparr>tb := (tb g)[i := t\<lparr>enabled := False\<rparr>]\<rparr>)"

text \<open>The transport block of a broadcast, paging or random access message.\<close>

definition common_tbs :: "srsran_dci_dl_t \<Rightarrow> int" where
  "common_tbs dci =
     (let m = dci_mcs_idx (dl_tb dci ! 0) in
      if dl_format dci = SRSRAN_DCI_FORMAT1A then
        int_or_error (srsran_ra_tbs_from_idx m (if n_prb1a (type2_alloc dci) = SRSRAN_RA_TYPE2_NPRB1A_2 then 2 else 3))
      else if dl_format dci = SRSRAN_DCI_FORMAT1C then if m < 32 then int (tbs_format1c_table ! m) else -1
      else -1)"

definition fill_tb :: "bool \<Rightarrow> nat \<Rightarrow> nat \<Rightarrow> srsran_pdsch_grant_t \<Rightarrow> srsran_pdsch_grant_t outcome" where
  "fill_tb use_tbs_index_alt n_prb i g =
     (if enabled (tb g ! i) then
        let (size, t) = srsran_dl_fill_ra_mcs (tb g ! i) (last_tbs g ! i) n_prb use_tbs_index_alt;
            g = g\<lparr>tb := (tb g)[i := t\<lparr>tbs := size\<rparr>]\<rparr> in
        if size < 0 then Returned (-1) g else Running g
      else Running (g\<lparr>tb := (tb g)[i := (tb g ! i)\<lparr>tbs := 0\<rparr>]\<rparr>))"

definition dl_dci_compute_tb ::
  "bool \<Rightarrow> srsran_dci_dl_t \<Rightarrow> srsran_pdsch_grant_t \<Rightarrow> srsran_pdsch_grant_t outcome" where
  "dl_dci_compute_tb alt dci g =
     (let g = copy_tb dci 1 (copy_tb dci 0 g);
          rnti = dl_rnti dci;
          alt = (if dl_format dci = SRSRAN_DCI_FORMAT1A \<or> \<not> SRSRAN_RNTI_ISUSER rnti then False else alt) in
      and_then
        (if \<not> SRSRAN_RNTI_ISUSER rnti \<and> \<not> SRSRAN_RNTI_ISMBSFN rnti then
           if common_tbs dci < 0 then Returned (-1) g
           else Running (g\<lparr>tb := (tb g)[0 := (tb g ! 0)\<lparr>mod_order := SRSRAN_MOD_QPSK, tbs := common_tbs dci\<rparr>]\<rparr>)
         else
           let n_prb = (if is_dwpts dci then max 1 (3 * grant_nof_prb g div 4) else grant_nof_prb g) in
           c_for (fill_tb alt n_prb) [0, 1] g)
        (\<lambda>g. Returned 0 g))"

section \<open>Number of resource elements\<close>

definition srsran_ra_dl_grant_nof_re :: "srsran_cell_t \<Rightarrow> srsran_dl_sf_cfg_t \<Rightarrow> srsran_pdsch_grant_t \<Rightarrow> nat" where
  "srsran_ra_dl_grant_nof_re cell sf g =
     foldl (\<lambda>n s. foldl (\<lambda>n j. if prb_idx g ! s ! j then add32 n (ra_re_x_prb cell sf s j) else n) n [0..<nof_prb cell])
       0 [0..<2]"

definition srsran_ra_dl_compute_nof_re ::
  "srsran_cell_t \<Rightarrow> srsran_dl_sf_cfg_t \<Rightarrow> srsran_pdsch_grant_t \<Rightarrow> srsran_pdsch_grant_t" where
  "srsran_ra_dl_compute_nof_re cell sf g =
     (let n = srsran_ra_dl_grant_nof_re cell sf g;
          cp = (if sf_type sf = SRSRAN_SF_NORM then cell_cp cell else SRSRAN_CP_EXT) in
      g\<lparr>nof_re := n,
        nof_symb_slot := [dl_nof_symbols cell sf 0 cp, dl_nof_symbols cell sf 1 cp],
        tb := map (\<lambda>t. if enabled t then t\<lparr>nof_bits := mul32 n (srsran_mod_bits_x_symbol (mod_order t))\<rparr> else t) (tb g)\<rparr>)"

definition srsran_ra_dl_approx_nof_re :: "srsran_cell_t \<Rightarrow> nat \<Rightarrow> nat \<Rightarrow> nat" where
  "srsran_ra_dl_approx_nof_re cell n nof_ctrl_symbols =
     (let nof_symb = sub32 (2 * SRSRAN_CP_NSYMB (cell_cp cell)) nof_ctrl_symbols;
          nof_refs = (if nof_ports cell = 1 then 2 * 3 else if nof_ports cell = 2 then 4 * 3
                      else if nof_ports cell = 4 then 4 * 4 else 0) in
      mul32 n (sub32 (mul32 nof_symb SRSRAN_NRE) nof_refs))"

section \<open>Precoding\<close>

text \<open>The functions return the error code and the grant. \<open>valid_config\<close> stays true for the modes that are not implemented.\<close>

definition config_mimo_type ::
  "srsran_cell_t \<Rightarrow> srsran_tm_t \<Rightarrow> srsran_dci_dl_t \<Rightarrow> srsran_pdsch_grant_t \<Rightarrow> int \<times> srsran_pdsch_grant_t" where
  "config_mimo_type cell tm dci g =
     (let g = g\<lparr>tx_scheme := SRSRAN_TXSCHEME_PORT0\<rparr>; n = nof_tb g;
          result = (\<lambda>valid g. (if valid then 0 else -1, g)) in
      if tm = SRSRAN_TM1 \<or> tm = SRSRAN_TM2 then
        result (n = 1) (g\<lparr>tx_scheme := if nof_ports cell > 1 then SRSRAN_TXSCHEME_DIVERSITY else SRSRAN_TXSCHEME_PORT0\<rparr>)
      else if tm = SRSRAN_TM3 then
        if n = 1 then result True (g\<lparr>tx_scheme := SRSRAN_TXSCHEME_DIVERSITY\<rparr>)
        else if n = 2 then result True (g\<lparr>tx_scheme := SRSRAN_TXSCHEME_CDD\<rparr>)
        else result False g
      else if tm = SRSRAN_TM4 then
        if n = 1 then
          result True (g\<lparr>tx_scheme := if pinfo dci = 0 then SRSRAN_TXSCHEME_DIVERSITY else SRSRAN_TXSCHEME_SPATIALMUX\<rparr>)
        else if n = 2 then result True (g\<lparr>tx_scheme := SRSRAN_TXSCHEME_SPATIALMUX\<rparr>)
        else result False g
      else result True g)"

definition config_mimo_pmi :: "srsran_dci_dl_t \<Rightarrow> srsran_pdsch_grant_t \<Rightarrow> int \<times> srsran_pdsch_grant_t" where
  "config_mimo_pmi dci g =
     (if tx_scheme g = SRSRAN_TXSCHEME_SPATIALMUX then
        if nof_tb g = 1 then
          if pinfo dci > 0 \<and> pinfo dci < 5 then (0, g\<lparr>pmi := pinfo dci - 1\<rparr>) else (-1, g)
        else if pinfo dci = 2 then (-1, g)
        else if pinfo dci > 2 then (-1, g)
        else (0, g\<lparr>pmi := pinfo dci mod 2\<rparr>)
      else (0, g))"

definition config_mimo_layers :: "srsran_cell_t \<Rightarrow> srsran_pdsch_grant_t \<Rightarrow> int \<times> srsran_pdsch_grant_t" where
  "config_mimo_layers cell g =
     (case tx_scheme g of
        SRSRAN_TXSCHEME_PORT0 \<Rightarrow> if nof_tb g \<noteq> 1 then (-1, g) else (0, g\<lparr>nof_layers := 1\<rparr>)
      | SRSRAN_TXSCHEME_DIVERSITY \<Rightarrow> if nof_tb g \<noteq> 1 then (-1, g) else (0, g\<lparr>nof_layers := nof_ports cell\<rparr>)
      | SRSRAN_TXSCHEME_SPATIALMUX \<Rightarrow>
          if nof_tb g = 1 then (0, g\<lparr>nof_layers := 1\<rparr>)
          else if nof_tb g = 2 then (0, g\<lparr>nof_layers := 2\<rparr>) else (-1, g)
      | SRSRAN_TXSCHEME_CDD \<Rightarrow> if nof_tb g \<noteq> 2 then (-1, g) else (0, g\<lparr>nof_layers := 2\<rparr>))"

definition config_mimo ::
  "srsran_cell_t \<Rightarrow> srsran_tm_t \<Rightarrow> srsran_dci_dl_t \<Rightarrow> srsran_pdsch_grant_t \<Rightarrow> int \<times> srsran_pdsch_grant_t" where
  "config_mimo cell tm dci g =
     (let (r, g) = config_mimo_type cell tm dci g in
      if r \<noteq> 0 then (-1, g)
      else let (r, g) = config_mimo_pmi dci g in
      if r \<noteq> 0 then (-1, g)
      else let (r, g) = config_mimo_layers cell g in
      if r \<noteq> 0 then (-1, g) else (0, g))"

section \<open>From DCI to grant\<close>

definition srsran_ra_dl_dci_to_grant ::
  "srsran_cell_t \<Rightarrow> srsran_dl_sf_cfg_t \<Rightarrow> srsran_tm_t \<Rightarrow> bool \<Rightarrow> srsran_dci_dl_t \<Rightarrow> srsran_pdsch_grant_t \<Rightarrow>
   srsran_pdsch_grant_t outcome" where
  "srsran_ra_dl_dci_to_grant cell sf tm use_tbs_index_alt dci grant =
     (case srsran_ra_dl_grant_to_grant_prb_allocation dci (bzero_grant grant) (nof_prb cell) of
        Returned r g \<Rightarrow>
          if r \<noteq> 0 then Returned (-1) g
          else (case dl_dci_compute_tb use_tbs_index_alt dci g of
            Returned r g \<Rightarrow>
              if r \<noteq> 0 then Returned (-1) g
              else
                let g = srsran_ra_dl_compute_nof_re cell sf g;
                    g = (if dl_format dci = SRSRAN_DCI_FORMAT1C \<and>
                            (SRSRAN_RNTI_ISRAR (dl_rnti dci) \<or> dl_rnti dci = SRSRAN_PRNTI)
                         then g\<lparr>tb := map (\<lambda>t. t\<lparr>rv := 0\<rparr>) (tb g)\<rparr> else g);
                    (r, g) = config_mimo cell tm dci g in
                Returned r g
          | x \<Rightarrow> x)
      | x \<Rightarrow> x)"

text \<open>A cell and a subframe for concrete runs.\<close>

definition example_cell :: srsran_cell_t where
  "example_cell = \<lparr>nof_prb = 25, nof_ports = 2, cell_id = 1, cell_cp = SRSRAN_CP_NORM, frame_type = SRSRAN_FDD\<rparr>"

definition example_sf :: srsran_dl_sf_cfg_t where
  "example_sf = \<lparr>tdd_config = \<lparr>sf_config = 0, ss_config = 0, configured = False\<rparr>, tti = 10, cfi = 2,
     sf_type = SRSRAN_SF_NORM, non_mbsfn_region = 0\<rparr>"

end
