(* ===== verification/Ra_Dl_Count.thy ===== *)
theory Ra_Dl_Count
  imports Ra_Dl
begin

text \<open>
  A reference for the number of resource elements \<open>ra_re_x_prb\<close> of \<open>lib/src/phy/phch/ra_dl.c\<close> computes by case
  distinction: the resource grid of TS 36.211, in which the elements the PDSCH can use are counted.
\<close>

section \<open>Reference: counting the resource elements\<close>

text \<open>
  The resource grid of TS 36.211: a resource element of the PDSCH lies in symbol \<open>l\<close> of the slot and subcarrier
  \<open>k\<close> of the cell, outside the control region, the cell-specific reference signals of 6.10.1.2, and the
  synchronisation signals and the broadcast channel in the 72 subcarriers in the middle (6.6.4, 6.11).
\<close>

definition ref_nof_symbols :: "srsran_cell_t \<Rightarrow> srsran_dl_sf_cfg_t \<Rightarrow> nat \<Rightarrow> nat" where
  "ref_nof_symbols cell sf slot =
     (let n = SRSRAN_CP_NSYMB (cell_cp cell) in
      if frame_type cell = SRSRAN_TDD \<and> srsran_sfidx_tdd_type (tdd_config sf) (tti sf mod 10) = SRSRAN_TDD_SF_S
      then min n (srsran_sfidx_tdd_nof_dw (tdd_config sf) - slot * n) else n)"

definition is_crs :: "srsran_cell_t \<Rightarrow> nat \<Rightarrow> nat \<Rightarrow> bool" where
  "is_crs cell l k \<longleftrightarrow>
     (let n = SRSRAN_CP_NSYMB (cell_cp cell); at = (\<lambda>v. k mod 6 = (v + cell_id cell) mod 6) in
      l = 0 \<and> (at 0 \<or> 2 \<le> nof_ports cell \<and> at 3) \<or>
      l = n - 3 \<and> (at 3 \<or> 2 \<le> nof_ports cell \<and> at 0) \<or>
      l = 1 \<and> nof_ports cell = 4 \<and> (at 0 \<or> at 3))"

definition sync_symbol :: "srsran_cell_t \<Rightarrow> nat \<Rightarrow> nat \<Rightarrow> nat \<Rightarrow> bool" where
  "sync_symbol cell subframe slot l \<longleftrightarrow>
     (let n = SRSRAN_CP_NSYMB (cell_cp cell) in
      subframe = 0 \<and> slot = 1 \<and> l < 4 \<or>
      (if frame_type cell = SRSRAN_FDD then subframe \<in> {0, 5} \<and> slot = 0 \<and> (l = n - 1 \<or> l = n - 2)
       else subframe \<in> {0, 5} \<and> slot = 1 \<and> l = n - 1 \<or> subframe \<in> {1, 6} \<and> slot = 0 \<and> l = 2))"

definition in_middle :: "nat \<Rightarrow> nat \<Rightarrow> bool" where
  "in_middle n k \<longleftrightarrow> 6 * n \<le> k + 36 \<and> k < 6 * n + 36"

definition free_re :: "srsran_cell_t \<Rightarrow> srsran_dl_sf_cfg_t \<Rightarrow> nat \<Rightarrow> nat \<Rightarrow> nat \<Rightarrow> bool" where
  "free_re cell sf slot l k \<longleftrightarrow>
     (slot = 0 \<longrightarrow> SRSRAN_NOF_CTRL_SYMBOLS cell (cfi sf) \<le> l) \<and> \<not> is_crs cell l k \<and>
     \<not> (in_middle (nof_prb cell) k \<and> sync_symbol cell (tti sf mod 10) slot l)"

definition prb_free_re :: "srsran_cell_t \<Rightarrow> srsran_dl_sf_cfg_t \<Rightarrow> nat \<Rightarrow> nat \<Rightarrow> nat" where
  "prb_free_re cell sf slot prb =
     (\<Sum>l \<leftarrow> [0..<ref_nof_symbols cell sf slot]. length (filter (free_re cell sf slot l) [12 * prb..<12 * prb + 12]))"

text \<open>The number of halves of a resource block in the middle, and of reference signals per half in a symbol.\<close>

definition middle_halves :: "nat \<Rightarrow> nat \<Rightarrow> nat" where
  "middle_halves n prb = (if in_middle n (12 * prb) then 1 else 0) + (if in_middle n (12 * prb + 6) then 1 else 0)"

definition crs_per_half :: "srsran_cell_t \<Rightarrow> nat \<Rightarrow> nat" where
  "crs_per_half cell l =
     (if l = 0 \<or> l = SRSRAN_CP_NSYMB (cell_cp cell) - 3 then if 2 \<le> nof_ports cell then 2 else 1
      else if l = 1 \<and> nof_ports cell = 4 then 2 else 0)"

lemma le_multiples: "j < (6 :: nat) \<Longrightarrow> 6 * a \<le> 6 * b + j \<longleftrightarrow> a \<le> b" "j < 6 \<Longrightarrow> 6 * b + j < 6 * a \<longleftrightarrow> b < a"
  by linarith+

lemma in_middle_half:
  assumes "j < 6"
  shows "in_middle n (6 * m + j) = in_middle n (6 * m)"
proof -
  have "in_middle n (6 * m + j) \<longleftrightarrow> n \<le> m + 6 \<and> m < n + 6" if "j < 6" for j
    using le_multiples(1) [OF that, of n "m + 6"] le_multiples(2) [OF that, of m "n + 6"]
    by (simp add: in_middle_def add_ac)
  from this [OF assms] this [of 0] show ?thesis by simp
qed

lemma upt_6: "[0..<6] = [0, 1, 2, 3, 4, 5 :: nat]"
  by (simp add: upt_rec)

lemma count_free_residues:
  assumes "r < 6"
  shows "length (filter (\<lambda>j. j mod 6 \<noteq> r) [0..<6]) = 5"
    and "length (filter (\<lambda>j. j mod 6 \<noteq> r \<and> j mod 6 \<noteq> (r + 3) mod 6) [0..<6]) = 4"
proof -
  have "r \<in> {0, 1, 2, 3, 4, 5}" using assms by auto
  then show "length (filter (\<lambda>j. j mod 6 \<noteq> r) [0..<6]) = 5"
    and "length (filter (\<lambda>j. j mod 6 \<noteq> r \<and> j mod 6 \<noteq> (r + 3) mod 6) [0..<6]) = 4"
    unfolding upt_6 by (elim insertE; simp)+
qed

text \<open>One half of a resource block in one symbol.\<close>

lemma count_half:
  "length (filter (\<lambda>j. \<not> is_crs cell l (6 * m + j)) [0..<6]) = 6 - crs_per_half cell l"
proof -
  define r where "r = cell_id cell mod 6"
  have r: "r < 6" "(r + 3) mod 6 < 6" by (simp_all add: r_def)
  have r3: "((r + 3) mod 6 + 3) mod 6 = r" using r(1) by presburger
  have at: "(6 * m + j) mod 6 = j mod 6" "(0 + cell_id cell) mod 6 = r" "(3 + cell_id cell) mod 6 = (r + 3) mod 6" for j
    by (simp_all add: r_def mod_simps add.commute)
  note c = count_free_residues [OF r(1)] count_free_residues [OF r(2), unfolded r3]
  have c': "length (filter (\<lambda>j. j mod 6 \<noteq> (r + 3) mod 6 \<and> j mod 6 \<noteq> r) [0..<6]) = 4"
    using c(4) .
  show ?thesis
    unfolding is_crs_def crs_per_half_def Let_def at
    using c c' by (auto simp: SRSRAN_CP_NSYMB_def)
qed

lemma count_half_free:
  "length (filter (free_re cell sf slot l) (map (\<lambda>j. 6 * m + j) [0..<6])) =
   (if slot = 0 \<and> l < SRSRAN_NOF_CTRL_SYMBOLS cell (cfi sf) then 0
    else if in_middle (nof_prb cell) (6 * m) \<and> sync_symbol cell (tti sf mod 10) slot l then 0
    else 6 - crs_per_half cell l)"
proof -
  let ?ctrl = "slot = 0 \<and> l < SRSRAN_NOF_CTRL_SYMBOLS cell (cfi sf)"
  let ?sync = "in_middle (nof_prb cell) (6 * m) \<and> sync_symbol cell (tti sf mod 10) slot l"
  have "filter (\<lambda>j. free_re cell sf slot l (6 * m + j)) [0..<6] =
      filter (\<lambda>j. \<not> ?ctrl \<and> \<not> ?sync \<and> \<not> is_crs cell l (6 * m + j)) [0..<6]"
    using in_middle_half by (intro filter_cong) (auto simp: free_re_def)
  then show ?thesis
    using count_half [of cell l m] by (auto simp: filter_map o_def)
qed

lemma count_symbol_free:
  "length (filter (free_re cell sf slot l) [12 * prb..<12 * prb + 12]) =
   (if slot = 0 \<and> l < SRSRAN_NOF_CTRL_SYMBOLS cell (cfi sf) then 0
    else (if sync_symbol cell (tti sf mod 10) slot l then 2 - middle_halves (nof_prb cell) prb else 2) *
      (6 - crs_per_half cell l))"
proof -
  have "[12 * prb..<12 * prb + 12] = [12 * prb..<12 * prb + 6] @ [12 * prb + 6..<12 * prb + 12]"
    using upt_add_eq_append [of "12 * prb" "12 * prb + 6" 6] by (simp add: add.commute)
  also have "\<dots> = map (\<lambda>j. 6 * (2 * prb) + j) [0..<6] @ map (\<lambda>j. 6 * (2 * prb + 1) + j) [0..<6]"
    using map_add_upt [of "12 * prb" 6] map_add_upt [of "12 * prb + 6" 6] by (simp add: add.commute)
  finally show ?thesis
    by (simp only: filter_append length_append count_half_free) (simp add: middle_halves_def add.commute [of 6])
qed




lemma prb_free_re_eq:
  "prb_free_re cell sf slot prb =
   (\<Sum>l \<leftarrow> [0..<ref_nof_symbols cell sf slot].
      if slot = 0 \<and> l < SRSRAN_NOF_CTRL_SYMBOLS cell (cfi sf) then 0
      else (if sync_symbol cell (tti sf mod 10) slot l then 2 - middle_halves (nof_prb cell) prb else 2) *
        (6 - crs_per_half cell l))"
  by (simp only: prb_free_re_def count_symbol_free)

lemmas re_count_defs = ra_re_x_prb_def dl_nof_symbols_def re_sync_fdd_def re_sync_tdd_def re_sub_refs_def full_slot_def
  pbch_edge_def prb_free_re_eq ref_nof_symbols_def sync_symbol_def crs_per_half_def SRSRAN_CP_NSYMB_def
  sub32_def add32_def mul32_def Let_def















section \<open>Properties\<close>



end
