(* ===== verification/Ra_Dl_Alloc.thy ===== *)
theory Ra_Dl_Alloc
  imports Ra_Dl
begin

text \<open>
  What the downlink allocation of \<open>lib/src/phy/phch/ra_dl.c\<close> computes: the resource blocks each allocation
  type marks, without a write outside the arrays, and the interleaving of distributed blocks.
\<close>

section \<open>Loops\<close>

lemma c_for_append: "c_for f (xs @ ys) s = and_then (c_for f xs s) (c_for f ys)"
  by (induction xs arbitrary: s) (auto split: outcome.splits)

lemma c_for_map: "c_for f (map h xs) s = c_for (\<lambda>i. f (h i)) xs s"
  by (induction xs arbitrary: s) (auto split: outcome.splits)

lemma c_for_filter: "c_for (\<lambda>i s. if p i then f i s else Running s) xs s = c_for f (filter p xs) s"
  by (induction xs arbitrary: s) (auto split: outcome.splits)

lemma c_for_nested: "c_for (\<lambda>i. c_for f (ys i)) xs s = c_for f (concat (map ys xs)) s"
  by (induction xs arbitrary: s) (auto simp: c_for_append split: outcome.splits)

lemma c_for_cong: "(\<And>i s. i \<in> set xs \<Longrightarrow> f i s = g i s) \<Longrightarrow> c_for f xs s = c_for g xs s"
  by (induction xs arbitrary: s) (auto split: outcome.splits)

lemma concat_blocks: "concat (map (\<lambda>i. map (\<lambda>j. i * P + j) [0..<P]) [0..<m]) = [0..<m * P]"
proof (induction m)
  case 0
  then show ?case by simp
next
  case (Suc m)
  have "map (\<lambda>j. m * P + j) [0..<P] = [m * P..<m * P + P]"
    using map_add_upt [of "m * P" P] by (simp add: add.commute)
  then show ?case using Suc upt_add_eq_append [of 0 "m * P" P] by (simp add: add.commute)
qed

section \<open>Marked blocks\<close>

text \<open>The grant after the blocks of a list have been marked in the first slot.\<close>

definition mark_all :: "nat list \<Rightarrow> srsran_pdsch_grant_t \<Rightarrow> srsran_pdsch_grant_t" where
  "mark_all xs g = g\<lparr>prb_idx := (prb_idx g)[0 := foldl (\<lambda>m i. m[i := True]) (prb_idx g ! 0) xs],
                     grant_nof_prb := grant_nof_prb g + length xs\<rparr>"

definition grant_shape :: "srsran_pdsch_grant_t \<Rightarrow> bool" where
  "grant_shape g \<longleftrightarrow> (\<exists>a b. prb_idx g = [a, b] \<and> length a = 110 \<and> length b = 110) \<and> length (tb g) = 2 \<and>
     length (last_tbs g) = 2 \<and> length (nof_symb_slot g) = 2"

lemma zero_grant_shape: "grant_shape zero_grant"
  by (simp add: grant_shape_def zero_grant_def)

lemma nth_foldl_mark: "i < length m \<Longrightarrow> foldl (\<lambda>m i. m[i := True]) m xs ! i \<longleftrightarrow> m ! i \<or> i \<in> set xs"
proof (induction xs arbitrary: m)
  case (Cons x xs)
  then show ?case by (cases "x = i") simp_all
qed simp

lemma c_for_mark_count:
  assumes "grant_shape g" "\<forall>x \<in> set xs. x < 110"
  shows "c_for mark_count xs g = Running (mark_all xs g)"
  using assms
proof (induction xs arbitrary: g)
  case Nil
  then show ?case by (simp add: mark_all_def grant_shape_def)
next
  case (Cons x xs)
  obtain a b where ab: "prb_idx g = [a, b]" "length a = 110" "length b = 110" using Cons.prems(1) by (auto simp: grant_shape_def)
  let ?g = "g\<lparr>prb_idx := [a[x := True], b], grant_nof_prb := grant_nof_prb g + 1\<rparr>"
  have "mark_count x g = Running ?g"
    using Cons.prems(2) ab by (simp add: mark_count_def mark_prb_def count_prb_def)
  moreover have "grant_shape ?g" using Cons.prems(1) ab by (simp add: grant_shape_def)
  then have "c_for mark_count xs ?g = Running (mark_all xs ?g)" using Cons.prems(2) by (intro Cons.IH) auto
  moreover have "mark_all xs ?g = mark_all (x # xs) g" using ab by (simp add: mark_all_def)
  ultimately show ?case by simp
qed

text \<open>The grant in which exactly the blocks of a list are marked, in both slots.\<close>

definition alloc_of :: "nat list \<Rightarrow> srsran_pdsch_grant_t" where
  "alloc_of xs = zero_grant\<lparr>prb_idx := replicate 2 (map (\<lambda>i. i \<in> set xs) [0..<110]), grant_nof_prb := length xs\<rparr>"

lemma foldl_mark_replicate:
  "foldl (\<lambda>m i. m[i := True]) (replicate n False) xs = map (\<lambda>i. i \<in> set xs) [0..<n]"
proof (rule nth_equalityI)
  have len: "length (foldl (\<lambda>m i. m[i := True]) m xs) = length m" for m
    by (induction xs arbitrary: m) simp_all
  then show "length (foldl (\<lambda>m i. m[i := True]) (replicate n False) xs) = length (map (\<lambda>i. i \<in> set xs) [0..<n])" by simp
  fix i
  assume "i < length (foldl (\<lambda>m i. m[i := True]) (replicate n False) xs)"
  then have "i < n" using len by simp
  then show "foldl (\<lambda>m i. m[i := True]) (replicate n False) xs ! i = map (\<lambda>i. i \<in> set xs) [0..<n] ! i"
    by (simp add: nth_foldl_mark)
qed

lemma copy_slot_mark_all: "copy_slot (mark_all xs zero_grant) = alloc_of xs"
  by (simp add: copy_slot_def mark_all_def alloc_of_def zero_grant_def foldl_mark_replicate numeral_2_eq_2)

lemma alloc_of_nth: "s < 2 \<Longrightarrow> i < 110 \<Longrightarrow> prb_idx (alloc_of xs) ! s ! i \<longleftrightarrow> i \<in> set xs"
  by (simp add: alloc_of_def)

section \<open>The blocks of each allocation type\<close>

definition type0_blocks :: "nat \<Rightarrow> nat \<Rightarrow> nat list" where
  "type0_blocks n bm =
     (let P = srsran_ra_type0_P n in filter (\<lambda>i. bit bm (ceil_div n P - i div P - 1)) [0..<n])"

lemma P_pos: "0 < srsran_ra_type0_P n"
  by (simp add: srsran_ra_type0_P_def)

lemma prb_allocation_type0_eq:
  assumes "n \<le> 110"
  shows "prb_allocation_type0 dci n zero_grant = Running (alloc_of (type0_blocks n (rbg_bitmask (type0_alloc dci))))"
proof -
  define P where "P = srsran_ra_type0_P n"
  define nb where "nb = ceil_div n P"
  define bm where "bm = rbg_bitmask (type0_alloc dci)"
  have P: "0 < P" using P_pos by (simp add: P_def)
  let ?sel = "\<lambda>k. k < n \<and> bit bm (nb - k div P - 1)"
  have inner: "(if bit bm (nb - i - 1) then c_for (\<lambda>j g. if i * P + j < n then mark_count (i * P + j) g else Running g) [0..<P] g else Running g)
      = c_for mark_count (filter ?sel (map (\<lambda>j. i * P + j) [0..<P])) g" for i g
  proof -
    have "filter ?sel (map (\<lambda>j. i * P + j) [0..<P]) =
        (if bit bm (nb - i - 1) then filter (\<lambda>k. k < n) (map (\<lambda>j. i * P + j) [0..<P]) else [])"
      by (auto simp: filter_map o_def intro!: filter_cong arg_cong [of _ _ "map _"])
    then show ?thesis
      using c_for_filter [of "\<lambda>k. k < n" mark_count "map (\<lambda>j. i * P + j) [0..<P]" g] by (simp add: c_for_map)
  qed
  have "filter ?sel [0..<nb * P] = filter ?sel [0..<n]"
  proof -
    have "n \<le> nb * P" unfolding nb_def using P by (rule ceil_div_mult_ge)
    then have "[0..<nb * P] = [0..<n] @ [n..<nb * P]" by (metis le_Suc_ex upt_add_eq_append zero_le)
    moreover have "filter ?sel [n..<nb * P] = []" by (auto simp: filter_empty_conv)
    ultimately show ?thesis by simp
  qed
  also have "\<dots> = type0_blocks n bm"
    by (auto simp: type0_blocks_def Let_def P_def nb_def intro!: filter_cong)
  finally have sel: "filter ?sel [0..<nb * P] = type0_blocks n bm" .
  have "prb_allocation_type0 dci n zero_grant =
      and_then (c_for (\<lambda>i g. c_for mark_count (filter ?sel (map (\<lambda>j. i * P + j) [0..<P])) g) [0..<nb] zero_grant)
        (\<lambda>g. Running (copy_slot g))"
    unfolding prb_allocation_type0_def Let_def P_def [symmetric] nb_def [symmetric] bm_def [symmetric] inner ..
  also have "c_for (\<lambda>i g. c_for mark_count (filter ?sel (map (\<lambda>j. i * P + j) [0..<P])) g) [0..<nb] zero_grant =
      c_for mark_count (type0_blocks n bm) zero_grant"
    using c_for_nested [of mark_count "\<lambda>i. filter ?sel (map (\<lambda>j. i * P + j) [0..<P])" "[0..<nb]" zero_grant]
    by (simp add: sel [symmetric] concat_blocks [symmetric] filter_concat o_def del: sel)
  also have "\<dots> = Running (mark_all (type0_blocks n bm) zero_grant)"
    using assms by (intro c_for_mark_count zero_grant_shape) (auto simp: type0_blocks_def Let_def)
  finally show ?thesis by (simp add: copy_slot_mark_all bm_def)
qed

text \<open>Type 1: the selected blocks of a subset, or an error when one of them lies beyond the bandwidth.\<close>

definition type1_blocks :: "nat \<Rightarrow> nat \<Rightarrow> nat \<Rightarrow> bool \<Rightarrow> nat list" where
  "type1_blocks n bm sel sh =
     (let P = srsran_ra_type0_P n; m = srsran_ra_type1_N_rb n;
          k0 = (if sh then sub32 (n_rb_rbg_subset sel n P) m else 0) in
      map (\<lambda>i. type1_idx P sel (add32 i k0)) (filter (\<lambda>i. bit bm (m - i - 1)) [0..<m]))"

lemma c_for_mark_or_error:
  assumes "grant_shape g" "n \<le> 110"
  shows "c_for (\<lambda>i g. if i < n then mark_count i g else Returned (-1) g) xs g =
    (if \<forall>x \<in> set xs. x < n then Running (mark_all xs g) else Returned (-1) (mark_all (takeWhile (\<lambda>x. x < n) xs) g))"
  using assms(1)
proof (induction xs arbitrary: g)
  case Nil
  then show ?case by (simp add: mark_all_def grant_shape_def)
next
  case (Cons x xs)
  obtain a b where ab: "prb_idx g = [a, b]" "length a = 110" "length b = 110" using Cons.prems by (auto simp: grant_shape_def)
  let ?g = "g\<lparr>prb_idx := [a[x := True], b], grant_nof_prb := grant_nof_prb g + 1\<rparr>"
  show ?case
  proof (cases "x < n")
    case True
    have "mark_count x g = Running ?g"
      using True assms(2) ab by (simp add: mark_count_def mark_prb_def count_prb_def)
    moreover have "grant_shape ?g" using Cons.prems ab by (simp add: grant_shape_def)
    moreover have "mark_all ys ?g = mark_all (x # ys) g" for ys using ab by (simp add: mark_all_def)
    ultimately show ?thesis using Cons.IH [of ?g] True by simp
  next
    case False
    then show ?thesis using ab by (simp add: mark_all_def)
  qed
qed

lemma prb_allocation_type1_eq:
  assumes "n \<le> 110" and t1: "type1_alloc dci = \<lparr>vrb_bitmask = bm, rbg_subset = sel, shift = sh\<rparr>"
  shows "prb_allocation_type1 dci n zero_grant =
    (if srsran_ra_type0_P n \<le> sel then Returned (-1) zero_grant
     else if \<forall>x \<in> set (type1_blocks n bm sel sh). x < n then Running (alloc_of (type1_blocks n bm sel sh))
     else Returned (-1) (mark_all (takeWhile (\<lambda>x. x < n) (type1_blocks n bm sel sh)) zero_grant))"
proof -
  define P where "P = srsran_ra_type0_P n"
  define m where "m = srsran_ra_type1_N_rb n"
  define k0 where "k0 = (if sh then sub32 (n_rb_rbg_subset sel n P) m else 0)"
  have blocks: "type1_blocks n bm sel sh = map (\<lambda>i. type1_idx P sel (add32 i k0)) (filter (\<lambda>i. bit bm (m - i - 1)) [0..<m])"
    by (simp add: type1_blocks_def Let_def P_def m_def k0_def)
  have "c_for (\<lambda>i g. if bit bm (m - i - 1) then
      let idx = type1_idx P sel (add32 i k0) in if idx < n then mark_count idx g else Returned (-1) g else Running g)
      [0..<m] zero_grant =
    c_for (\<lambda>i g. if i < n then mark_count i g else Returned (-1) g) (type1_blocks n bm sel sh) zero_grant"
    by (simp only: blocks c_for_map c_for_filter Let_def)
  then show ?thesis
    using c_for_mark_or_error [OF zero_grant_shape assms(1), of "type1_blocks n bm sel sh"]
    unfolding prb_allocation_type1_def t1 srsran_ra_type1_t.simps Let_def P_def [symmetric] m_def [symmetric] k0_def [symmetric]
    by (auto simp: copy_slot_mark_all)
qed

text \<open>Type 2, localized: the interval of the resource indication value.\<close>

lemma from_riv_in_range:
  assumes "0 < n" "n \<le> 110" "v < n * (n + 1)"
  shows "snd (srsran_ra_type2_from_riv v n n) + fst (srsran_ra_type2_from_riv v n n) \<le> n"
    and "0 < fst (srsran_ra_type2_from_riv v n n)"
proof -
  have c: "v mod n < n" using assms(1) by simp
  have r: "v div n \<le> n" using assms(3) less_mult_imp_div_less [of v "n + 1" n] by (simp add: mult.commute)
  have eqs: "add32 (v div n) 1 = v div n + 1" "sub32 n (v mod n) = n - v mod n"
    "sub32 n (v div n) = n - v div n" "add32 (n - v div n) 1 = n - v div n + 1"
    "sub32 (n - v mod n) 1 = n - v mod n - 1"
    using r c assms(2) by (simp_all add: sub32_le add32_small)
  have "v div n + 1 > n - v mod n \<Longrightarrow> (n - v mod n - 1) + (n - v div n + 1) \<le> n" using c r by linarith
  moreover have "\<not> v div n + 1 > n - v mod n \<Longrightarrow> v mod n + (v div n + 1) \<le> n" using c by linarith
  ultimately show "snd (srsran_ra_type2_from_riv v n n) + fst (srsran_ra_type2_from_riv v n n) \<le> n"
    and "0 < fst (srsran_ra_type2_from_riv v n n)"
    unfolding srsran_ra_type2_from_riv_def Let_def eqs by simp_all
qed

lemma prb_allocation_local_eq:
  assumes "n \<le> 110" "mode (type2_alloc dci) = SRSRAN_RA_TYPE2_LOC"
    and blocks: "type2_blocks dci n = (len, start)" and range: "start + len \<le> n"
  shows "prb_allocation_type2 dci n zero_grant = Running (alloc_of [start..<start + len])"
proof -
  have "c_for (\<lambda>i g. mark_count (add32 i start) g) [0..<len] zero_grant = c_for mark_count (map (\<lambda>i. add32 i start) [0..<len]) zero_grant"
    by (simp add: c_for_map)
  also have "map (\<lambda>i. add32 i start) [0..<len] = map (\<lambda>i. i + start) [0..<len]"
    using range assms(1) by (intro map_cong) (simp_all add: add32_small)
  also have "\<dots> = [start..<start + len]" using map_add_upt [of start len] by (simp add: add.commute)
  also have "c_for mark_count [start..<start + len] zero_grant = Running (mark_all [start..<start + len] zero_grant)"
    using range assms(1) by (intro c_for_mark_count zero_grant_shape) auto
  finally show "prb_allocation_type2 dci n zero_grant = Running (alloc_of [start..<start + len])"
    using assms(2) by (simp add: prb_allocation_type2_def blocks copy_slot_mark_all)
qed

text \<open>Distributed: every write is guarded.\<close>

definition in_band :: "nat \<Rightarrow> srsran_pdsch_grant_t \<Rightarrow> bool" where
  "in_band n g \<longleftrightarrow> grant_shape g \<and> (\<forall>m \<in> set (prb_idx g). \<forall>i < 110. m ! i \<longrightarrow> i < n)"

lemma u32_of_int_nat_less:
  assumes "u32_of_int m < n" "- (2 ^ 31) \<le> m" "m < 2 ^ 32" "n \<le> 110"
  shows "0 \<le> m \<and> nat m < n"
proof (cases "0 \<le> m")
  case True
  then show ?thesis using assms by (simp add: u32_of_int_def)
next
  case False
  have "m mod 2 ^ 32 = (m + 2 ^ 32) mod 2 ^ 32" by simp
  also have "\<dots> = m + 2 ^ 32" using False assms(2) by (intro mod_pos_pos_trivial) simp_all
  finally show ?thesis using assms(1,2,4) by (simp add: u32_of_int_def)
qed

lemma mark_dist_in_band:
  assumes "in_band n g" "n \<le> 110" "- (2 ^ 31) \<le> m" "m < 2 ^ 32" "s < 2"
  shows "(\<exists>g'. mark_dist s n m g = Running g' \<and> in_band n g') \<or> mark_dist s n m g = Returned (-1) g"
proof (cases "u32_of_int m < n")
  case True
  obtain a b where ab: "prb_idx g = [a, b]" "length a = 110" "length b = 110"
    using assms(1) by (auto simp: in_band_def grant_shape_def)
  have i: "nat m < n" "nat m < 110" using u32_of_int_nat_less [OF True assms(3,4,2)] assms(2) by simp_all
  then have "mark_dist s n m g = Running (g\<lparr>prb_idx := (prb_idx g)[s := (prb_idx g ! s)[nat m := True]]\<rparr>)"
    using True assms(2) by (simp add: mark_dist_def mark_prb_def)
  moreover have "in_band n (g\<lparr>prb_idx := (prb_idx g)[s := (prb_idx g ! s)[nat m := True]]\<rparr>)"
    using assms(1) i ab less_2_cases [OF assms(5)]
    by (elim disjE) (auto simp: in_band_def grant_shape_def nth_list_update split: if_splits)
  ultimately show ?thesis by blast
next
  case False
  then show ?thesis by (simp add: mark_dist_def)
qed

lemma count_prb_in_band: "in_band n (count_prb g) \<longleftrightarrow> in_band n g"
  by (simp add: in_band_def grant_shape_def count_prb_def)

text \<open>The indices of the interleaver fit an \<open>int\<close> by far.\<close>

lemma n_tilde_prb_odd_bounds:
  assumes "0 < N" "N \<le> 220" "0 \<le> R" "R \<le> 300" "0 \<le> v" "v \<le> 100000"
  shows "- 1000 \<le> n_tilde_prb_odd N R v" "n_tilde_prb_odd N R v \<le> 200000"
proof -
  define t where "t = v mod N"
  define q where "q = N * (v div N)"
  have t: "0 \<le> t" "t < N" using assms(1) by (simp_all add: t_def)
  have q: "0 \<le> q" "q \<le> v"
    using assms(1,5) zmod_le_nonneg_dividend [of v N] t by (simp_all add: q_def t_def flip: minus_mod_eq_mult_div)
  have m2: "0 \<le> R * (t mod 2)" "R * (t mod 2) \<le> 300"
  proof -
    have "t mod 2 = 0 \<or> t mod 2 = 1" by presburger
    then show "0 \<le> R * (t mod 2)" "R * (t mod 2) \<le> 300" using assms(3,4) by auto
  qed
  have m4: "0 \<le> R * (t mod 4)" "R * (t mod 4) \<le> 900"
  proof -
    have "t mod 4 = 0 \<or> t mod 4 = 1 \<or> t mod 4 = 2 \<or> t mod 4 = 3" by presburger
    then show "0 \<le> R * (t mod 4)" "R * (t mod 4) \<le> 900" using assms(3,4) by auto
  qed
  have d: "0 \<le> t div 2" "t div 2 \<le> t" "0 \<le> t div 4" "t div 4 \<le> t" using t by auto
  have null: "- 220 \<le> 4 * R - N" "4 * R - N \<le> 1200" using assms(1-4) by linarith+
  have nd: "- 110 \<le> (4 * R - N) div 2" "(4 * R - N) div 2 \<le> 600" using null by linarith+
  have "n_tilde_prb_odd N R v \<in> {2 * R * (t mod 2) + t div 2 + q - R, 2 * R * (t mod 2) + t div 2 + q - R + (4 * R - N) div 2,
      R * (t mod 4) + t div 4 + q - (4 * R - N) div 2, R * (t mod 4) + t div 4 + q}"
    unfolding n_tilde_prb_odd_def Let_def t_def [symmetric] q_def [symmetric] by simp
  moreover have "2 * R * (t mod 2) = 2 * (R * (t mod 2))" by simp
  ultimately show "- 1000 \<le> n_tilde_prb_odd N R v" "n_tilde_prb_odd N R v \<le> 200000"
    using t q m2 m4 d nd assms by (auto simp only: insert_iff empty_iff)
qed

lemma n_tilde_prb_even_bounds:
  assumes "0 < N" "N \<le> 220" "0 \<le> R" "R \<le> 300" "0 \<le> v" "v \<le> 100000"
  shows "- 1000 \<le> n_tilde_prb_even N R v" "n_tilde_prb_even N R v \<le> 200000"
proof -
  let ?m = "(n_tilde_prb_odd N R v + N div 2) smod N"
  have "?m \<le> 220" "- 220 \<le> ?m"
    using smod_int_range [of N "n_tilde_prb_odd N R v + N div 2"] assms(1,2) by auto
  moreover have "0 \<le> N * (v div N)" "N * (v div N) \<le> v"
    using assms(1,5) zmod_le_nonneg_dividend [of v N] by (simp_all flip: minus_mod_eq_mult_div)
  ultimately show "- 1000 \<le> n_tilde_prb_even N R v" "n_tilde_prb_even N R v \<le> 200000"
    unfolding n_tilde_prb_even_def using assms by linarith+
qed

lemma from_riv_bounds:
  assumes "0 < M" "M \<le> 220" "v < M * (M + 1)"
  shows "fst (srsran_ra_type2_from_riv v M V) \<le> M + 1" "snd (srsran_ra_type2_from_riv v M V) < M"
proof -
  have c: "v mod M < M" using assms(1) by simp
  have r: "v div M \<le> M" using assms(3) less_mult_imp_div_less [of v "M + 1" M] by (simp add: mult.commute)
  have eqs: "add32 (v div M) 1 = v div M + 1" "sub32 M (v div M) = M - v div M" "add32 (M - v div M) 1 = M - v div M + 1"
    "sub32 M (v mod M) = M - v mod M" "sub32 (M - v mod M) 1 = M - v mod M - 1"
    using r c assms(2) by (simp_all add: sub32_le add32_small)
  have "v div M + 1 \<le> M + 1" "M - v div M + 1 \<le> M + 1" "M - v mod M - 1 < M" using r assms(1) by linarith+
  then show "fst (srsran_ra_type2_from_riv v M V) \<le> M + 1" "snd (srsran_ra_type2_from_riv v M V) < M"
    using c unfolding srsran_ra_type2_from_riv_def Let_def eqs by (simp_all del: add_Suc_right)
qed

text \<open>The number of rows of the resource indication value of a DCI, and its virtual blocks.\<close>

definition riv_rows :: "srsran_dci_dl_t \<Rightarrow> nat \<Rightarrow> nat" where
  "riv_rows dci n =
     (if dl_format dci = SRSRAN_DCI_FORMAT1C then
        (if mode (type2_alloc dci) = SRSRAN_RA_TYPE2_LOC then n
         else srsran_ra_type2_n_vrb_dl n (n_gap (type2_alloc dci) = SRSRAN_RA_TYPE2_NG1)) div srsran_ra_type2_n_rb_step n
      else n)"

lemma n_vrb_dl_bounds:
  assumes "6 \<le> n" "n \<le> 110"
  shows "6 \<le> srsran_ra_type2_n_vrb_dl n g" "srsran_ra_type2_n_vrb_dl n g \<le> 220" "50 \<le> n \<Longrightarrow> 20 \<le> srsran_ra_type2_n_vrb_dl n g"
proof -
  define h where "h = srsran_ra_type2_ngap n g"
  have h: "0 < h" "h \<le> n" using ngap_bounds [of n g] assms by (auto simp: h_def)
  show "6 \<le> srsran_ra_type2_n_vrb_dl n g" "srsran_ra_type2_n_vrb_dl n g \<le> 220" "50 \<le> n \<Longrightarrow> 20 \<le> srsran_ra_type2_n_vrb_dl n g"
  proof (atomize (full), cases g)
    case True
    have hT: "srsran_ra_type2_ngap n True = h" using True by (simp add: h_def)
    have "srsran_ra_type2_n_vrb_dl n g = 2 * min h (n - h)"
      using h assms True by (auto simp: srsran_ra_type2_n_vrb_dl_def Let_def hT sub32_le min_def)
    moreover have "3 \<le> h" "3 \<le> n - h" "50 \<le> n \<Longrightarrow> 10 \<le> h" "50 \<le> n \<Longrightarrow> 10 \<le> n - h"
      using assms True by (auto simp: h_def srsran_ra_type2_ngap_def)
    ultimately show "6 \<le> srsran_ra_type2_n_vrb_dl n g \<and> srsran_ra_type2_n_vrb_dl n g \<le> 220 \<and>
        (50 \<le> n \<longrightarrow> 20 \<le> srsran_ra_type2_n_vrb_dl n g)"
      using assms by (auto simp: min_def)
  next
    case False
    have hF: "srsran_ra_type2_ngap n False = h" using False by (simp add: h_def)
    have eq: "n div h * h + n mod h = n" by simp
    moreover have "n mod h < h" using h by simp
    moreover have "1 \<le> n div h" using h by (simp add: div_greater_zero_iff Suc_le_eq)
    then have "1 * h \<le> n div h * h" by (rule mult_le_mono1)
    ultimately have "n < 2 * (n div h * h)" "2 * (n div h * h) \<le> 2 * n" by linarith+
    moreover have "srsran_ra_type2_n_vrb_dl n g = 2 * (n div h * h)"
      using False by (simp add: srsran_ra_type2_n_vrb_dl_def Let_def hF)
    ultimately show "6 \<le> srsran_ra_type2_n_vrb_dl n g \<and> srsran_ra_type2_n_vrb_dl n g \<le> 220 \<and>
        (50 \<le> n \<longrightarrow> 20 \<le> srsran_ra_type2_n_vrb_dl n g)"
      using assms by linarith
  qed
qed

lemma riv_rows_bounds:
  assumes "6 \<le> n" "n \<le> 110"
  shows "0 < riv_rows dci n" "riv_rows dci n \<le> 110"
proof -
  define m where "m = (if mode (type2_alloc dci) = SRSRAN_RA_TYPE2_LOC then n
      else srsran_ra_type2_n_vrb_dl n (n_gap (type2_alloc dci) = SRSRAN_RA_TYPE2_NG1))"
  have m: "6 \<le> m" "m \<le> 220" "50 \<le> n \<Longrightarrow> 20 \<le> m"
    using n_vrb_dl_bounds [OF assms] assms by (auto simp: m_def)
  have "0 < m div srsran_ra_type2_n_rb_step n" "m div srsran_ra_type2_n_rb_step n \<le> 110"
    using m by (auto simp: srsran_ra_type2_n_rb_step_def div_greater_zero_iff)
  then show "0 < riv_rows dci n" "riv_rows dci n \<le> 110"
    using assms by (auto simp: riv_rows_def m_def)
qed

lemma type2_blocks_bounds:
  assumes "6 \<le> n" "n \<le> 110" "riv (type2_alloc dci) < riv_rows dci n * (riv_rows dci n + 1)"
  shows "fst (type2_blocks dci n) \<le> 444" "snd (type2_blocks dci n) \<le> 440"
proof -
  note rows = riv_rows_bounds [OF assms(1,2), of dci]
  define V where "V = (if mode (type2_alloc dci) = SRSRAN_RA_TYPE2_LOC then n
      else srsran_ra_type2_n_vrb_dl n (n_gap (type2_alloc dci) = SRSRAN_RA_TYPE2_NG1))"
  define W where "W = (if dl_format dci = SRSRAN_DCI_FORMAT1C then V div srsran_ra_type2_n_rb_step n else V)"
  obtain len start where LS: "srsran_ra_type2_from_riv (riv (type2_alloc dci)) (riv_rows dci n) W = (len, start)" by fastforce
  have b: "len \<le> 111" "start < 110"
    using from_riv_bounds [OF rows(1) _ assms(3), of W] rows LS by simp_all
  have step: "srsran_ra_type2_n_rb_step n = 2 \<or> srsran_ra_type2_n_rb_step n = 4" by (simp add: srsran_ra_type2_n_rb_step_def)
  have "type2_blocks dci n =
      (if dl_format dci = SRSRAN_DCI_FORMAT1C
       then (mul32 len (srsran_ra_type2_n_rb_step n), mul32 start (srsran_ra_type2_n_rb_step n)) else (len, start))"
    using LS unfolding type2_blocks_def riv_rows_def W_def V_def by (auto simp: Let_def)
  then show "fst (type2_blocks dci n) \<le> 444" "snd (type2_blocks dci n) \<le> 440"
    using b step by (auto simp: mul32_small)
qed

lemma local_blocks_in_range:
  assumes "6 \<le> n" "n \<le> 110" "riv (type2_alloc dci) < riv_rows dci n * (riv_rows dci n + 1)"
    and loc: "mode (type2_alloc dci) = SRSRAN_RA_TYPE2_LOC"
  shows "snd (type2_blocks dci n) + fst (type2_blocks dci n) \<le> n" "0 < fst (type2_blocks dci n)"
proof -
  note rows = riv_rows_bounds [OF assms(1,2), of dci]
  obtain len start where LS: "srsran_ra_type2_from_riv (riv (type2_alloc dci)) (riv_rows dci n) (riv_rows dci n) = (len, start)"
    by fastforce
  have b: "start + len \<le> riv_rows dci n" "0 < len" using from_riv_in_range [OF rows assms(3)] LS by simp_all
  define st where "st = srsran_ra_type2_n_rb_step n"
  have st: "0 < st" "st \<le> 4" by (simp_all add: st_def srsran_ra_type2_n_rb_step_def)
  have "type2_blocks dci n = (if dl_format dci = SRSRAN_DCI_FORMAT1C then (mul32 len st, mul32 start st) else (len, start))"
    using LS loc unfolding type2_blocks_def riv_rows_def st_def by (auto simp: Let_def)
  moreover have "mul32 len st = len * st" "mul32 start st = start * st"
    using b rows st mult_le_mono [of len 110 st 4] mult_le_mono [of start 110 st 4] by (auto intro!: mul32_small)
  moreover have "start * st + len * st \<le> n" if "dl_format dci = SRSRAN_DCI_FORMAT1C"
  proof -
    have "(start + len) * st \<le> n div st * st"
      using b(1) that loc by (intro mult_le_mono1) (simp add: riv_rows_def st_def)
    also have "\<dots> \<le> n" by simp
    finally show ?thesis by (simp add: distrib_right)
  qed
  moreover have "start + len \<le> n" if "dl_format dci \<noteq> SRSRAN_DCI_FORMAT1C" using b(1) that by (simp add: riv_rows_def)
  ultimately show "snd (type2_blocks dci n) + fst (type2_blocks dci n) \<le> n" "0 < fst (type2_blocks dci n)"
    using b(2) st(1) by auto
qed

lemma prb_allocation_dist_in_band:
  assumes "6 \<le> n" "n \<le> 110" "len \<le> 444" "start \<le> 440" "in_band n g"
  shows "(\<exists>g'. prb_allocation_dist gap len start n g = Running g' \<and> in_band n g') \<or>
    (\<exists>g'. prb_allocation_dist gap len start n g = Returned (-1) g' \<and> in_band n g')"
proof -
  obtain N h where par: "dist_parameters n gap = (N, h)" by fastforce
  have NH: "0 < N" "N \<le> 220" "0 \<le> h" "h \<le> 110"
  proof -
    have "2 * srsran_ra_type2_n_vrb_dl n True \<le> 220"
    proof -
      have "srsran_ra_type2_n_vrb_dl n True \<le> n"
        using ngap_bounds [of n True] assms(1,2) by (auto simp: srsran_ra_type2_n_vrb_dl_def Let_def sub32_le)
      then show ?thesis using assms(2) by simp
    qed
    moreover have "srsran_ra_type2_ngap n g \<le> 110" for g using ngap_bounds(2) [of n g] assms(1,2) by simp
    ultimately show "0 < N" "N \<le> 220" "0 \<le> h" "h \<le> 110"
      using par n_vrb_dl_bounds(1) [OF assms(1,2), of True] by (auto simp: dist_parameters_def split: if_splits)
  qed
  define R where "R = dist_N_row N (srsran_ra_type0_P n)"
  have R: "0 \<le> R" "R \<le> 300"
  proof -
    let ?P = "srsran_ra_type0_P n"
    have "ceil_div (nat N) (4 * ?P) \<le> 56" "?P \<le> 4"
      using P_pos [of n] NH(2) by (auto simp: ceil_div_le_iff srsran_ra_type0_P_def)
    then have "ceil_div (nat N) (4 * ?P) * ?P \<le> 56 * 4" by (rule mult_le_mono)
    then show "0 \<le> R" "R \<le> 300" unfolding R_def dist_N_row_def by linarith+
  qed
  have body: "(\<exists>g'. and_then (mark_dist 0 n (dist_prb N h (n_tilde_prb_odd N R v)) g)
        (\<lambda>g. mark_dist 1 n (dist_prb N h (n_tilde_prb_even N R v)) (count_prb g)) = Running g' \<and> in_band n g') \<or>
      (\<exists>g'. and_then (mark_dist 0 n (dist_prb N h (n_tilde_prb_odd N R v)) g)
        (\<lambda>g. mark_dist 1 n (dist_prb N h (n_tilde_prb_even N R v)) (count_prb g)) = Returned (-1) g' \<and> in_band n g')"
    if g: "in_band n g" and v: "0 \<le> v" "v \<le> 100000" for g v
  proof -
    have 1: "- (2 ^ 31) \<le> dist_prb N h (n_tilde_prb_odd N R v)" "dist_prb N h (n_tilde_prb_odd N R v) < 2 ^ 32"
      using n_tilde_prb_odd_bounds [OF NH(1,2) R v] NH by (auto simp: dist_prb_def)
    have 2: "- (2 ^ 31) \<le> dist_prb N h (n_tilde_prb_even N R v)" "dist_prb N h (n_tilde_prb_even N R v) < 2 ^ 32"
      using n_tilde_prb_even_bounds [OF NH(1,2) R v] NH by (auto simp: dist_prb_def)
    from mark_dist_in_band [OF g assms(2) 1, of 0] show ?thesis
    proof
      assume "\<exists>g'. mark_dist 0 n (dist_prb N h (n_tilde_prb_odd N R v)) g = Running g' \<and> in_band n g'"
      then obtain g1 where g1: "mark_dist 0 n (dist_prb N h (n_tilde_prb_odd N R v)) g = Running g1" "in_band n (count_prb g1)"
        by (auto simp: count_prb_in_band)
      show ?thesis using mark_dist_in_band [OF g1(2) assms(2) 2, of 1] g1 by auto
    qed (use g in auto)
  qed
  let ?f = "\<lambda>i g. let n_vrb = int i + int start in
        and_then (mark_dist 0 n (dist_prb N h (n_tilde_prb_odd N R n_vrb)) g)
          (\<lambda>g. mark_dist 1 n (dist_prb N h (n_tilde_prb_even N R n_vrb)) (count_prb g))"
  have "(\<exists>g'. c_for ?f [0..<len] g = Running g' \<and> in_band n g') \<or> (\<exists>g'. c_for ?f [0..<len] g = Returned (-1) g' \<and> in_band n g')"
  proof (rule c_for_error_induct [where P = "\<lambda>_. in_band n"])
    show "in_band n g" by (rule assms(5))
    fix k g
    assume "k < length [0..<len]" and g: "in_band n g"
    then have k: "[0..<len] ! k = k" "k < len" by simp_all
    show "(\<exists>g'. ?f ([0..<len] ! k) g = Running g' \<and> in_band n g') \<or> (\<exists>g'. ?f ([0..<len] ! k) g = Returned (-1) g' \<and> in_band n g')"
      unfolding k(1) Let_def by (rule body [OF g]) (use k(2) assms(3,4) in simp_all)
  qed
  then show ?thesis by (simp add: prb_allocation_dist_def par R_def Let_def)
qed

lemma mark_all_in_band:
  assumes "n \<le> 110" "\<forall>x \<in> set xs. x < n"
  shows "in_band n (mark_all xs zero_grant)" "in_band n (alloc_of xs)"
  using assms by (auto simp: in_band_def grant_shape_def mark_all_def alloc_of_def zero_grant_def foldl_mark_replicate numeral_2_eq_2)

lemma set_takeWhile_less: "\<forall>x \<in> set (takeWhile (\<lambda>x. x < n) xs). x < n"
  by (auto dest: set_takeWhileD)

lemma zero_in_band: "in_band n zero_grant"
  by (auto simp: in_band_def grant_shape_def zero_grant_def)

text \<open>The interleaver of a bandwidth, as a table of the blocks in the two slots.\<close>

definition dist_slots :: "int \<Rightarrow> int \<Rightarrow> int \<Rightarrow> (int \<times> int) list" where
  "dist_slots N gap R = map (\<lambda>v. (dist_prb N gap (n_tilde_prb_odd N R v), dist_prb N gap (n_tilde_prb_even N R v))) [0..N - 1]"

definition slots_ok :: "int \<Rightarrow> (int \<times> int) list \<Rightarrow> bool" where
  "slots_ok n xs \<longleftrightarrow> distinct (map fst xs) \<and> distinct (map snd xs) \<and>
     list_all (\<lambda>(a, b). 0 \<le> a \<and> a < n \<and> 0 \<le> b \<and> b < n \<and> a \<noteq> b) xs"

lemma slots_ok_tables:
  "slots_ok 6 (dist_slots 6 3 2)" "slots_ok 15 (dist_slots 14 8 4)" "slots_ok 25 (dist_slots 24 12 6)"
  "slots_ok 50 (dist_slots 46 27 12)" "slots_ok 75 (dist_slots 64 32 16)" "slots_ok 100 (dist_slots 96 48 24)"
  by code_simp+

lemma dist_slots_ok:
  assumes "n \<in> {6, 15, 25, 50, 75, 100}" "dist_parameters n SRSRAN_RA_TYPE2_NG1 = (N, gap)"
    and "R = dist_N_row N (srsran_ra_type0_P n)"
  shows "slots_ok (int n) (dist_slots N gap R)"
  using assms slots_ok_tables
  by (elim insertE) (auto simp: dist_parameters_def srsran_ra_type2_n_vrb_dl_def srsran_ra_type2_ngap_def sub32_def
      dist_N_row_def ceil_div_def srsran_ra_type0_P_def)

lemma slots_ok_injective:
  assumes ok: "slots_ok n (dist_slots N gap R)" and v: "0 \<le> v" "v < N"
  shows "0 \<le> dist_prb N gap (n_tilde_prb_odd N R v) \<and> dist_prb N gap (n_tilde_prb_odd N R v) < n \<and>
    0 \<le> dist_prb N gap (n_tilde_prb_even N R v) \<and> dist_prb N gap (n_tilde_prb_even N R v) < n \<and>
    dist_prb N gap (n_tilde_prb_odd N R v) \<noteq> dist_prb N gap (n_tilde_prb_even N R v) \<and>
    (\<forall>w. 0 \<le> w \<and> w < N \<and> w \<noteq> v \<longrightarrow>
      dist_prb N gap (n_tilde_prb_odd N R w) \<noteq> dist_prb N gap (n_tilde_prb_odd N R v) \<and>
      dist_prb N gap (n_tilde_prb_even N R w) \<noteq> dist_prb N gap (n_tilde_prb_even N R v))"
proof -
  let ?f = "\<lambda>v. dist_prb N gap (n_tilde_prb_odd N R v)"
  let ?g = "\<lambda>v. dist_prb N gap (n_tilde_prb_even N R v)"
  have "map fst (dist_slots N gap R) = map ?f [0..N - 1]" "map snd (dist_slots N gap R) = map ?g [0..N - 1]"
    by (simp_all add: dist_slots_def)
  then have "inj_on ?f {0..N - 1}" "inj_on ?g {0..N - 1}"
    using ok by (simp_all only: slots_ok_def distinct_map set_upto)
  then have "w \<noteq> v \<Longrightarrow> 0 \<le> w \<and> w < N \<Longrightarrow> ?f w \<noteq> ?f v \<and> ?g w \<noteq> ?g v" for w
    using v by (auto dest: inj_onD)
  moreover have "(?f v, ?g v) \<in> set (dist_slots N gap R)" using v by (auto simp: dist_slots_def)
  then have "0 \<le> ?f v \<and> ?f v < n \<and> 0 \<le> ?g v \<and> ?g v < n \<and> ?f v \<noteq> ?g v"
    using ok by (auto simp: slots_ok_def list_all_iff)
  ultimately show ?thesis by blast
qed

section \<open>Properties of the allocation\<close>

text \<open>
  C6: The allocation of resource blocks is safe for every bandwidth of 6 to 110 blocks and every content of the
  allocation fields of a DCI (a resource indication value has to fit its field): it always returns
  success or an error, never writes outside the arrays of the grant, and marks only blocks of the cell.
\<close>
theorem dl_allocation_safe:
  assumes "6 \<le> n" "n \<le> 110" "riv (type2_alloc dci) < riv_rows dci n * (riv_rows dci n + 1)"
  shows "\<exists>r g. srsran_ra_dl_grant_to_grant_prb_allocation dci zero_grant n = Returned r g \<and> (r = 0 \<or> r = -1) \<and>
    length (prb_idx g) = 2 \<and> (\<forall>s < 2. length (prb_idx g ! s) = 110 \<and> (\<forall>i < 110. prb_idx g ! s ! i \<longrightarrow> i < n))"
proof -
  have shape: "length (prb_idx g) = 2 \<and> (\<forall>s < 2. length (prb_idx g ! s) = 110 \<and> (\<forall>i < 110. prb_idx g ! s ! i \<longrightarrow> i < n))"
    if "in_band n g" for g
    using that by (auto simp: in_band_def grant_shape_def less_2_cases_iff)
  have "\<exists>g. in_band n g \<and> ((case alloc_type dci of
          SRSRAN_RA_ALLOC_TYPE0 \<Rightarrow> prb_allocation_type0 dci n zero_grant
        | SRSRAN_RA_ALLOC_TYPE1 \<Rightarrow> prb_allocation_type1 dci n zero_grant
        | SRSRAN_RA_ALLOC_TYPE2 \<Rightarrow> prb_allocation_type2 dci n zero_grant) \<in> {Running g, Returned (-1) g})"
  proof (cases "alloc_type dci")
    case SRSRAN_RA_ALLOC_TYPE0
    then show ?thesis
      using mark_all_in_band(2) [OF assms(2), of "type0_blocks n (rbg_bitmask (type0_alloc dci))"] assms(2)
      by (auto simp: prb_allocation_type0_eq type0_blocks_def Let_def)
  next
    case SRSRAN_RA_ALLOC_TYPE1
    obtain bm sel sh where t1: "type1_alloc dci = \<lparr>vrb_bitmask = bm, rbg_subset = sel, shift = sh\<rparr>"
      by (cases "type1_alloc dci") auto
    note eq = prb_allocation_type1_eq [OF assms(2) t1]
    consider "srsran_ra_type0_P n \<le> sel" | "\<not> srsran_ra_type0_P n \<le> sel" "\<forall>x \<in> set (type1_blocks n bm sel sh). x < n"
      | "\<not> srsran_ra_type0_P n \<le> sel" "\<not> (\<forall>x \<in> set (type1_blocks n bm sel sh). x < n)" by blast
    then show ?thesis
    proof cases
      case 1
      then have "prb_allocation_type1 dci n zero_grant = Returned (-1) zero_grant" unfolding eq if_P [OF 1] by simp
      then show ?thesis using SRSRAN_RA_ALLOC_TYPE1 zero_in_band by fastforce
    next
      case 2
      have "prb_allocation_type1 dci n zero_grant = Running (alloc_of (type1_blocks n bm sel sh))"
        unfolding eq if_not_P [OF 2(1)] if_P [OF 2(2)] ..
      then show ?thesis using SRSRAN_RA_ALLOC_TYPE1 mark_all_in_band(2) [OF assms(2) 2(2)] by fastforce
    next
      case 3
      have "prb_allocation_type1 dci n zero_grant =
          Returned (-1) (mark_all (takeWhile (\<lambda>x. x < n) (type1_blocks n bm sel sh)) zero_grant)"
        unfolding eq if_not_P [OF 3(1)] if_not_P [OF 3(2)] ..
      then show ?thesis
        using SRSRAN_RA_ALLOC_TYPE1 mark_all_in_band(1) [OF assms(2) set_takeWhile_less] by fastforce
    qed
  next
    case SRSRAN_RA_ALLOC_TYPE2
    obtain len start where blocks: "type2_blocks dci n = (len, start)" by fastforce
    show ?thesis
    proof (cases "mode (type2_alloc dci)")
      case SRSRAN_RA_TYPE2_LOC
      then have "start + len \<le> n" using local_blocks_in_range(1) [OF assms] blocks by simp
      then show ?thesis
        using prb_allocation_local_eq [OF assms(2) SRSRAN_RA_TYPE2_LOC blocks] SRSRAN_RA_ALLOC_TYPE2
          mark_all_in_band(2) [OF assms(2), of "[start..<start + len]"] by auto
    next
      case SRSRAN_RA_TYPE2_DIST
      have "len \<le> 444" "start \<le> 440" using type2_blocks_bounds [OF assms] blocks by simp_all
      then have "(\<exists>g'. prb_allocation_dist (n_gap (type2_alloc dci)) len start n zero_grant = Running g' \<and> in_band n g') \<or>
          (\<exists>g'. prb_allocation_dist (n_gap (type2_alloc dci)) len start n zero_grant = Returned (-1) g' \<and> in_band n g')"
        using zero_in_band by (rule prb_allocation_dist_in_band [OF assms(1,2)])
      then show ?thesis
        using SRSRAN_RA_ALLOC_TYPE2 SRSRAN_RA_TYPE2_DIST by (auto simp: prb_allocation_type2_def blocks)
    qed
  qed
  then show ?thesis
    unfolding srsran_ra_dl_grant_to_grant_prb_allocation_def using shape by fastforce
qed

definition dist_dci :: srsran_dci_dl_t where
  "dist_dci = zero_dci_dl\<lparr>dl_format := SRSRAN_DCI_FORMAT1A, alloc_type := SRSRAN_RA_ALLOC_TYPE2,
     type2_alloc := zero_type2\<lparr>riv := 70, mode := SRSRAN_RA_TYPE2_DIST\<rparr>\<rparr>"

theorem dl_allocation_safe_witness:
  "\<exists>r g. srsran_ra_dl_grant_to_grant_prb_allocation dist_dci zero_grant 50 = Returned r g \<and> (r = 0 \<or> r = -1)"
  using dl_allocation_safe [of 50 dist_dci] by (auto simp: dist_dci_def riv_rows_def)

text \<open>
  C14: A type 0 bitmap marks exactly the blocks of the selected groups, and an interval encoded by
  \<open>srsran_ra_type2_to_riv\<close> is marked exactly by a localized type 2 allocation, in both slots; the number of
  blocks of the grant is the number of marked blocks.
\<close>
theorem dl_allocation_exact:
  assumes "6 \<le> n" "n \<le> 110"
    and "alloc_type dci = SRSRAN_RA_ALLOC_TYPE0 \<and>
        S = {i. i < n \<and> bit (rbg_bitmask (type0_alloc dci)) (ceil_div n (srsran_ra_type0_P n) - i div srsran_ra_type0_P n - 1)} \<or>
      alloc_type dci = SRSRAN_RA_ALLOC_TYPE2 \<and> mode (type2_alloc dci) = SRSRAN_RA_TYPE2_LOC \<and>
        dl_format dci \<noteq> SRSRAN_DCI_FORMAT1C \<and> 0 < len \<and> start + len \<le> n \<and>
        riv (type2_alloc dci) = srsran_ra_type2_to_riv len start n \<and> S = {start..<start + len}"
  shows "\<exists>g. srsran_ra_dl_grant_to_grant_prb_allocation dci zero_grant n = Returned 0 g \<and>
    (\<forall>s < 2. \<forall>i < 110. prb_idx g ! s ! i \<longleftrightarrow> i \<in> S) \<and> grant_nof_prb g = card S"
  using assms(3)
proof (elim disjE conjE)
  assume "alloc_type dci = SRSRAN_RA_ALLOC_TYPE0"
    and S: "S = {i. i < n \<and> bit (rbg_bitmask (type0_alloc dci)) (ceil_div n (srsran_ra_type0_P n) - i div srsran_ra_type0_P n - 1)}"
  then have "srsran_ra_dl_grant_to_grant_prb_allocation dci zero_grant n =
      Returned 0 (alloc_of (type0_blocks n (rbg_bitmask (type0_alloc dci))))"
    by (simp add: srsran_ra_dl_grant_to_grant_prb_allocation_def prb_allocation_type0_eq [OF assms(2)])
  moreover have "set (type0_blocks n (rbg_bitmask (type0_alloc dci))) = S" "distinct (type0_blocks n (rbg_bitmask (type0_alloc dci)))"
    by (auto simp: S type0_blocks_def Let_def)
  ultimately show ?thesis
    by (auto simp: alloc_of_nth alloc_of_def distinct_card [symmetric] simp del: replicate.simps)
next
  assume t2: "alloc_type dci = SRSRAN_RA_ALLOC_TYPE2" and loc: "mode (type2_alloc dci) = SRSRAN_RA_TYPE2_LOC"
    and f: "dl_format dci \<noteq> SRSRAN_DCI_FORMAT1C" and len: "0 < len" "start + len \<le> n"
    and riv: "riv (type2_alloc dci) = srsran_ra_type2_to_riv len start n" and S: "S = {start..<start + len}"
  have fits: "codec_size n n" using assms(2) by (simp add: codec_size_def)
  have "riv.decodable n n start len" using len by (auto simp: riv.decodable_def)
  from riv.dec_enc [OF fits this] have "srsran_ra_type2_from_riv (riv (type2_alloc dci)) n n = (len, start)"
    unfolding riv by (cases "srsran_ra_type2_from_riv (srsran_ra_type2_to_riv len start n) n n") simp
  then have "type2_blocks dci n = (len, start)" using loc f by (simp add: type2_blocks_def)
  then have "srsran_ra_dl_grant_to_grant_prb_allocation dci zero_grant n = Returned 0 (alloc_of [start..<start + len])"
    using prb_allocation_local_eq [OF assms(2) loc _ len(2)] t2 by (simp add: srsran_ra_dl_grant_to_grant_prb_allocation_def)
  then show ?thesis by (auto simp: S alloc_of_nth) (simp add: alloc_of_def)
qed

definition local_dci :: srsran_dci_dl_t where
  "local_dci = zero_dci_dl\<lparr>dl_format := SRSRAN_DCI_FORMAT1A, alloc_type := SRSRAN_RA_ALLOC_TYPE2,
     type2_alloc := zero_type2\<lparr>riv := srsran_ra_type2_to_riv 5 3 25\<rparr>\<rparr>"

theorem dl_allocation_exact_witness:
  "\<exists>g. srsran_ra_dl_grant_to_grant_prb_allocation local_dci zero_grant 25 = Returned 0 g \<and> grant_nof_prb g = 5"
  using dl_allocation_exact [of 25 local_dci "{3..<3 + 5}" 5 3] by (auto simp: local_dci_def zero_dci_dl_def zero_type2_def)

text \<open>
  For the LTE bandwidths the interleaver of distributed allocations with the first gap maps different
  virtual blocks to different physical blocks of the cell, in each of the two slots, and the two
  slots use different blocks.
\<close>
theorem dist_interleaver_injective:
  assumes "n \<in> {6, 15, 25, 50, 75, 100}" "dist_parameters n SRSRAN_RA_TYPE2_NG1 = (N, gap)"
    and "R = dist_N_row N (srsran_ra_type0_P n)" "0 \<le> v" "v < N"
  shows "0 \<le> dist_prb N gap (n_tilde_prb_odd N R v) \<and> dist_prb N gap (n_tilde_prb_odd N R v) < int n \<and>
    0 \<le> dist_prb N gap (n_tilde_prb_even N R v) \<and> dist_prb N gap (n_tilde_prb_even N R v) < int n \<and>
    dist_prb N gap (n_tilde_prb_odd N R v) \<noteq> dist_prb N gap (n_tilde_prb_even N R v) \<and>
    (\<forall>w. 0 \<le> w \<and> w < N \<and> w \<noteq> v \<longrightarrow>
      dist_prb N gap (n_tilde_prb_odd N R w) \<noteq> dist_prb N gap (n_tilde_prb_odd N R v) \<and>
      dist_prb N gap (n_tilde_prb_even N R w) \<noteq> dist_prb N gap (n_tilde_prb_even N R v))"
  using slots_ok_injective [OF dist_slots_ok [OF assms(1,2,3)] assms(4,5)] .

theorem dist_interleaver_injective_witness:
  "0 \<le> dist_prb 46 27 (n_tilde_prb_odd 46 12 3) \<and> dist_prb 46 27 (n_tilde_prb_odd 46 12 3) < 50"
  using dist_interleaver_injective [of 50 46 27 12 3]
  by (simp add: dist_parameters_def srsran_ra_type2_n_vrb_dl_def srsran_ra_type2_ngap_def sub32_def dist_N_row_def
      ceil_div_def srsran_ra_type0_P_def)

end
