(* ===== verification/Ra_Dl_Grant.thy ===== *)
theory Ra_Dl_Grant
  imports Ra_Dl_Alloc
begin

text \<open>
  The grants \<open>srsran_ra_dl_dci_to_grant\<close> of \<open>lib/src/phy/phch/ra_dl.c\<close> accepts: transport blocks, number of bits and precoding.
\<close>

section \<open>The rest of the grant\<close>

text \<open>The allocation changes nothing but the marked blocks and their number.\<close>

definition same_rest :: "srsran_pdsch_grant_t \<Rightarrow> srsran_pdsch_grant_t \<Rightarrow> bool" where
  "same_rest g0 g \<longleftrightarrow> tx_scheme g = tx_scheme g0 \<and> pmi g = pmi g0 \<and> nof_re g = nof_re g0 \<and>
     nof_symb_slot g = nof_symb_slot g0 \<and> tb g = tb g0 \<and> last_tbs g = last_tbs g0 \<and> nof_tb g = nof_tb g0 \<and>
     nof_layers g = nof_layers g0"

lemma same_rest_steps [outcome_intros]:
  "same_rest g0 g0"
  "same_rest g0 g \<Longrightarrow> outcome_all (same_rest g0) (mark_prb s i g)"
  "same_rest g0 g \<Longrightarrow> outcome_all (same_rest g0) (mark_count i g)"
  "same_rest g0 g \<Longrightarrow> outcome_all (same_rest g0) (mark_dist s n m g)"
  "same_rest g0 g \<Longrightarrow> same_rest g0 (count_prb g)"
  "same_rest g0 g \<Longrightarrow> same_rest g0 (copy_slot g)"
  by (simp_all add: same_rest_def mark_prb_def mark_count_def mark_dist_def count_prb_def copy_slot_def)

lemma prb_allocation_rest:
  "outcome_all (same_rest g) (srsran_ra_dl_grant_to_grant_prb_allocation dci g n)"
proof -
  have "outcome_all (same_rest g) (prb_allocation_type0 dci n g)"
    unfolding prb_allocation_type0_def Let_def by (intro outcome_intros) (simp_all add: outcome_intros)
  moreover have "outcome_all (same_rest g) (prb_allocation_type1 dci n g)"
    unfolding prb_allocation_type1_def Let_def by (intro outcome_intros) (simp_all add: outcome_intros)
  moreover have "outcome_all (same_rest g) (prb_allocation_type2 dci n g)"
    unfolding prb_allocation_type2_def prb_allocation_dist_def Let_def
    by (cases "type2_blocks dci n"; cases "dist_parameters n (n_gap (type2_alloc dci))"; simp only: prod.case)
      (intro outcome_intros; simp add: outcome_intros)
  ultimately show ?thesis
    unfolding srsran_ra_dl_grant_to_grant_prb_allocation_def
    by (intro outcome_intros) (auto split: srsran_ra_type_t.splits)
qed

text \<open>The transport blocks.\<close>

definition nof_enabled :: "srsran_pdsch_grant_t \<Rightarrow> nat" where
  "nof_enabled g = length (filter enabled (tb g))"

definition copied_tb :: "srsran_dci_dl_t \<Rightarrow> nat \<Rightarrow> srsran_ra_tb_t" where
  "copied_tb dci i = zero_tb\<lparr>mcs_idx := dci_mcs_idx (dl_tb dci ! i), rv := dci_rv (dl_tb dci ! i),
     cw_idx := dci_cw_idx (dl_tb dci ! i),
     enabled := (SRSRAN_DCI_IS_TB_EN (dl_tb dci ! i) \<and> dl_format dci \<ge> SRSRAN_DCI_FORMAT2 \<or>
       dl_format dci < SRSRAN_DCI_FORMAT2 \<and> i = 0)\<rparr>"

lemma copy_tbs:
  assumes "tb g = [zero_tb, zero_tb]" "nof_tb g = 0"
  shows "copy_tb dci 1 (copy_tb dci 0 g) =
    g\<lparr>tb := [copied_tb dci 0, copied_tb dci 1], nof_tb := length (filter enabled [copied_tb dci 0, copied_tb dci 1])\<rparr>"
  using assms by (simp add: copy_tb_def copied_tb_def Let_def zero_tb_def)

lemma fill_tb_cases:
  assumes "length (tb g) = 2" "i < 2"
  shows "(\<exists>t. fill_tb alt n i g = Running (g\<lparr>tb := (tb g)[i := t]\<rparr>) \<and> 0 \<le> tbs t \<and> enabled t = enabled (tb g ! i) \<and>
      mcs_idx t = mcs_idx (tb g ! i) \<and> (srsran_ra_tbs_idx_from_mcs (mcs_idx t) alt False = None \<longrightarrow> tbs t = 0)) \<or>
    (\<exists>g'. fill_tb alt n i g = Returned (-1) g')"
proof (cases "enabled (tb g ! i)")
  case False
  then show ?thesis by (auto simp: fill_tb_def)
next
  case True
  show ?thesis
  proof (cases "srsran_ra_tbs_idx_from_mcs (mcs_idx (tb g ! i)) alt False")
    case None
    then show ?thesis using True by (auto simp: fill_tb_def srsran_dl_fill_ra_mcs_def Let_def)
  next
    case (Some idx)
    then show ?thesis using True by (auto simp: fill_tb_def srsran_dl_fill_ra_mcs_def Let_def)
  qed
qed

text \<open>What \<open>dl_dci_compute_tb\<close> establishes when it succeeds.\<close>

definition alt_table :: "bool \<Rightarrow> srsran_dci_dl_t \<Rightarrow> bool" where
  "alt_table alt dci \<longleftrightarrow> (if dl_format dci = SRSRAN_DCI_FORMAT1A \<or> \<not> SRSRAN_RNTI_ISUSER (dl_rnti dci) then False else alt)"

definition tb_ok :: "bool \<Rightarrow> srsran_dci_dl_t \<Rightarrow> nat \<Rightarrow> srsran_ra_tb_t \<Rightarrow> bool" where
  "tb_ok alt dci i t \<longleftrightarrow> 0 \<le> tbs t \<and> enabled t = enabled (copied_tb dci i) \<and> mcs_idx t = dci_mcs_idx (dl_tb dci ! i) \<and>
     (SRSRAN_RNTI_ISUSER (dl_rnti dci) \<longrightarrow>
      srsran_ra_tbs_idx_from_mcs (dci_mcs_idx (dl_tb dci ! i)) (alt_table alt dci) False = None \<longrightarrow> tbs t = 0)"

lemma copied_tb_mcs: "mcs_idx (copied_tb dci i) = dci_mcs_idx (dl_tb dci ! i)"
  by (simp add: copied_tb_def)

lemma compute_tb_cases:
  assumes "tb g = [zero_tb, zero_tb]" "nof_tb g = 0"
  shows "(\<exists>t0 t1. dl_dci_compute_tb alt dci g = Returned 0 (g\<lparr>tb := [t0, t1],
        nof_tb := length (filter enabled [t0, t1])\<rparr>) \<and> tb_ok alt dci 0 t0 \<and> tb_ok alt dci 1 t1) \<or>
    (\<exists>g'. dl_dci_compute_tb alt dci g = Returned (-1) g')"
proof -
  define g1 where "g1 = g\<lparr>tb := [copied_tb dci 0, copied_tb dci 1], nof_tb := length (filter enabled [copied_tb dci 0, copied_tb dci 1])\<rparr>"
  define rnti where "rnti = dl_rnti dci"
  have eq: "dl_dci_compute_tb alt dci g = and_then
      (if \<not> SRSRAN_RNTI_ISUSER rnti \<and> \<not> SRSRAN_RNTI_ISMBSFN rnti then
         if common_tbs dci < 0 then Returned (-1) g1
         else Running (g1\<lparr>tb := (tb g1)[0 := (tb g1 ! 0)\<lparr>mod_order := SRSRAN_MOD_QPSK, tbs := common_tbs dci\<rparr>]\<rparr>)
       else c_for (fill_tb (alt_table alt dci) (if is_dwpts dci then max 1 (3 * grant_nof_prb g1 div 4) else grant_nof_prb g1)) [0, 1] g1)
      (\<lambda>g. Returned 0 g)"
    unfolding dl_dci_compute_tb_def copy_tbs [OF assms] g1_def [symmetric] alt_table_def rnti_def Let_def ..
  show ?thesis
  proof (cases "\<not> SRSRAN_RNTI_ISUSER rnti \<and> \<not> SRSRAN_RNTI_ISMBSFN rnti")
    case True
    show ?thesis
    proof (cases "common_tbs dci < 0")
      case neg: True
      then show ?thesis unfolding eq if_P [OF True] by auto
    next
      case False
      let ?t0 = "(copied_tb dci 0)\<lparr>mod_order := SRSRAN_MOD_QPSK, tbs := common_tbs dci\<rparr>"
      have "dl_dci_compute_tb alt dci g = Returned 0 (g1\<lparr>tb := [?t0, copied_tb dci 1]\<rparr>)"
        unfolding eq if_P [OF True] if_not_P [OF False] by (simp add: g1_def)
      also have "g1\<lparr>tb := [?t0, copied_tb dci 1]\<rparr> =
          g\<lparr>tb := [?t0, copied_tb dci 1], nof_tb := length (filter enabled [?t0, copied_tb dci 1])\<rparr>"
        by (simp add: g1_def)
      finally have "dl_dci_compute_tb alt dci g =
          Returned 0 (g\<lparr>tb := [?t0, copied_tb dci 1], nof_tb := length (filter enabled [?t0, copied_tb dci 1])\<rparr>)" .
      moreover have "tb_ok alt dci 0 ?t0" "tb_ok alt dci 1 (copied_tb dci 1)"
        using True False by (simp_all add: tb_ok_def copied_tb_def zero_tb_def rnti_def)
      ultimately show ?thesis by blast
    qed
  next
    case False
    define n where "n = (if is_dwpts dci then max 1 (3 * grant_nof_prb g1 div 4) else grant_nof_prb g1)"
    have eq: "dl_dci_compute_tb alt dci g = and_then (c_for (fill_tb (alt_table alt dci) n) [0, 1] g1) (\<lambda>g. Returned 0 g)"
      unfolding eq if_not_P [OF False] n_def ..
    have tb1: "tb g1 = [copied_tb dci 0, copied_tb dci 1]" by (simp add: g1_def)
    then have l1: "length (tb g1) = 2" by simp
    from fill_tb_cases [OF l1 zero_less_numeral, of "alt_table alt dci" n] show ?thesis
    proof
      assume "\<exists>g'. fill_tb (alt_table alt dci) n 0 g1 = Returned (-1) g'"
      then show ?thesis unfolding eq by auto
    next
      assume "\<exists>t. fill_tb (alt_table alt dci) n 0 g1 = Running (g1\<lparr>tb := (tb g1)[0 := t]\<rparr>) \<and> 0 \<le> tbs t \<and>
        enabled t = enabled (tb g1 ! 0) \<and> mcs_idx t = mcs_idx (tb g1 ! 0) \<and>
        (srsran_ra_tbs_idx_from_mcs (mcs_idx t) (alt_table alt dci) False = None \<longrightarrow> tbs t = 0)"
      then obtain t0 where t0: "fill_tb (alt_table alt dci) n 0 g1 = Running (g1\<lparr>tb := (tb g1)[0 := t0]\<rparr>)" "tb_ok alt dci 0 t0"
        by (auto simp: tb_ok_def tb1 copied_tb_mcs)
      have l2: "length (tb (g1\<lparr>tb := (tb g1)[0 := t0]\<rparr>)) = 2" by (simp add: tb1)
      have "(1 :: nat) < 2" by simp
      from fill_tb_cases [OF l2 this, of "alt_table alt dci" n] show ?thesis
      proof
        assume "\<exists>g'. fill_tb (alt_table alt dci) n 1 (g1\<lparr>tb := (tb g1)[0 := t0]\<rparr>) = Returned (-1) g'"
        then show ?thesis unfolding eq using t0(1) by auto
      next
        assume "\<exists>t. fill_tb (alt_table alt dci) n 1 (g1\<lparr>tb := (tb g1)[0 := t0]\<rparr>) =
            Running (g1\<lparr>tb := (tb g1)[0 := t0], tb := (tb (g1\<lparr>tb := (tb g1)[0 := t0]\<rparr>))[1 := t]\<rparr>) \<and> 0 \<le> tbs t \<and>
          enabled t = enabled (tb (g1\<lparr>tb := (tb g1)[0 := t0]\<rparr>) ! 1) \<and> mcs_idx t = mcs_idx (tb (g1\<lparr>tb := (tb g1)[0 := t0]\<rparr>) ! 1) \<and>
          (srsran_ra_tbs_idx_from_mcs (mcs_idx t) (alt_table alt dci) False = None \<longrightarrow> tbs t = 0)"
        then obtain t1 where t1: "fill_tb (alt_table alt dci) n 1 (g1\<lparr>tb := (tb g1)[0 := t0]\<rparr>) = Running (g1\<lparr>tb := [t0, t1]\<rparr>)"
          "tb_ok alt dci 1 t1"
          by (auto simp: tb_ok_def tb1 copied_tb_mcs)
        have "g1\<lparr>tb := [t0, t1]\<rparr> = g\<lparr>tb := [t0, t1], nof_tb := length (filter enabled [t0, t1])\<rparr>"
          using t0(2) t1(2) by (simp add: g1_def tb_ok_def)
        then show ?thesis unfolding eq using t0 t1 by auto
      qed
    qed
  qed
qed

text \<open>The precoding that a successful configuration leaves in the grant.\<close>

fun precoding_ok :: "nat \<Rightarrow> srsran_tx_scheme_t \<Rightarrow> nat \<Rightarrow> nat \<Rightarrow> nat \<Rightarrow> bool" where
  "precoding_ok ports SRSRAN_TXSCHEME_PORT0 k layers pm \<longleftrightarrow> k = 1 \<and> layers = 1"
| "precoding_ok ports SRSRAN_TXSCHEME_DIVERSITY k layers pm \<longleftrightarrow> k = 1 \<and> layers = ports"
| "precoding_ok ports SRSRAN_TXSCHEME_SPATIALMUX k layers pm \<longleftrightarrow> (k = 1 \<and> pm < 4 \<or> k = 2 \<and> pm < 2) \<and> layers = k"
| "precoding_ok ports SRSRAN_TXSCHEME_CDD k layers pm \<longleftrightarrow> k = 2 \<and> layers = 2"

lemma config_mimo_ok:
  assumes "config_mimo cell tm dci g = (0, g')"
  shows "precoding_ok (nof_ports cell) (tx_scheme g') (nof_tb g') (nof_layers g') (pmi g')"
    and "g' = g\<lparr>tx_scheme := tx_scheme g', pmi := pmi g', nof_layers := nof_layers g'\<rparr>"
proof -
  obtain r1 g1 where 1: "config_mimo_type cell tm dci g = (r1, g1)" by fastforce
  obtain r2 g2 where 2: "config_mimo_pmi dci g1 = (r2, g2)" by fastforce
  obtain r3 g3 where 3: "config_mimo_layers cell g2 = (r3, g3)" by fastforce
  have r: "r1 = 0" "r2 = 0" "r3 = 0" "g3 = g'"
    using assms 1 2 3 by (auto simp: config_mimo_def split: if_splits)
  obtain x where g1: "g1 = g\<lparr>tx_scheme := x\<rparr>"
    using 1 r(1) by (auto simp: config_mimo_type_def Let_def split: if_splits)
  obtain y where g2: "g2 = g1\<lparr>pmi := y\<rparr>" "tx_scheme g1 = SRSRAN_TXSCHEME_SPATIALMUX \<Longrightarrow> (if nof_tb g1 = 1 then y < 4 else y < 2)"
  proof -
    have "g2 = g1\<lparr>pmi := pmi g2\<rparr>" using 2 r(2) by (auto simp: config_mimo_pmi_def split: if_splits)
    moreover have "tx_scheme g1 = SRSRAN_TXSCHEME_SPATIALMUX \<Longrightarrow> (if nof_tb g1 = 1 then pmi g2 < 4 else pmi g2 < 2)"
      using 2 r(2) by (auto simp: config_mimo_pmi_def split: if_splits)
    ultimately show ?thesis by (rule that)
  qed
  obtain z where g3: "g' = g2\<lparr>nof_layers := z\<rparr>"
    using 3 r(3,4) by (auto simp: config_mimo_layers_def split: if_splits srsran_tx_scheme_t.splits)
  show "precoding_ok (nof_ports cell) (tx_scheme g') (nof_tb g') (nof_layers g') (pmi g')"
    using 3 r(3,4) g2 by (cases x) (auto simp: config_mimo_layers_def g1 split: if_splits)
  show "g' = g\<lparr>tx_scheme := tx_scheme g', pmi := pmi g', nof_layers := nof_layers g'\<rparr>"
    unfolding g3 g2(1) g1 by simp
qed

lemma dci_to_grant_success:
  assumes "srsran_ra_dl_dci_to_grant cell sf tm alt dci grant = Returned 0 g"
  shows "length (tb g) = 2 \<and> nof_tb g = length (filter enabled (tb g)) \<and> 1 \<le> nof_tb g \<and>
    (\<forall>t \<in> set (tb g). 0 \<le> tbs t \<and> (enabled t \<longrightarrow> nof_bits t = mul32 (nof_re g) (srsran_mod_bits_x_symbol (mod_order t)))) \<and>
    nof_re g = srsran_ra_dl_grant_nof_re cell sf g \<and>
    precoding_ok (nof_ports cell) (tx_scheme g) (nof_tb g) (nof_layers g) (pmi g) \<and>
    (\<forall>i < 2. mcs_idx (tb g ! i) = dci_mcs_idx (dl_tb dci ! i) \<and>
      (SRSRAN_RNTI_ISUSER (dl_rnti dci) \<longrightarrow> 29 \<le> dci_mcs_idx (dl_tb dci ! i) \<longrightarrow> tbs (tb g ! i) = 0))"
proof -
  obtain g1 where g1: "srsran_ra_dl_grant_to_grant_prb_allocation dci zero_grant (nof_prb cell) = Returned 0 g1"
    using assms by (auto simp: srsran_ra_dl_dci_to_grant_def bzero_grant_def split: outcome.splits if_splits)
  have "same_rest zero_grant g1" using prb_allocation_rest [of zero_grant dci "nof_prb cell"] g1 by simp
  then have "tb g1 = [zero_tb, zero_tb]" "nof_tb g1 = 0" by (simp_all add: same_rest_def zero_grant_def)
  note tbs = compute_tb_cases [OF this, of alt dci]
  have "\<exists>g'. dl_dci_compute_tb alt dci g1 = Returned 0 g'"
    using assms g1 by (auto simp: srsran_ra_dl_dci_to_grant_def bzero_grant_def split: outcome.splits if_splits)
  then obtain t0 t1 where t: "dl_dci_compute_tb alt dci g1 =
      Returned 0 (g1\<lparr>tb := [t0, t1], nof_tb := length (filter enabled [t0, t1])\<rparr>)" "tb_ok alt dci 0 t0" "tb_ok alt dci 1 t1"
    using tbs by auto
  define g2 where "g2 = g1\<lparr>tb := [t0, t1], nof_tb := length (filter enabled [t0, t1])\<rparr>"
  define g3 where "g3 = srsran_ra_dl_compute_nof_re cell sf g2"
  define g4 where "g4 = (if dl_format dci = SRSRAN_DCI_FORMAT1C \<and> (SRSRAN_RNTI_ISRAR (dl_rnti dci) \<or> dl_rnti dci = SRSRAN_PRNTI)
      then g3\<lparr>tb := map (\<lambda>t. t\<lparr>rv := 0\<rparr>) (tb g3)\<rparr> else g3)"
  obtain r g5 where "config_mimo cell tm dci g4 = (r, g5)" by fastforce
  moreover have "srsran_ra_dl_dci_to_grant cell sf tm alt dci grant = (case config_mimo cell tm dci g4 of (r, g) \<Rightarrow> Returned r g)"
    unfolding srsran_ra_dl_dci_to_grant_def bzero_grant_def g1 outcome.case t(1) g2_def [symmetric]
    by (simp only: Let_def g4_def g3_def not_not refl if_False simp_thms)
  ultimately have mimo: "config_mimo cell tm dci g4 = (0, g)" using assms by simp
  have g: "tb g = tb g4" "nof_tb g = nof_tb g4" "nof_re g = nof_re g4" "prb_idx g = prb_idx g4"
    using arg_cong [OF config_mimo_ok(2) [OF mimo], of tb] arg_cong [OF config_mimo_ok(2) [OF mimo], of nof_tb]
      arg_cong [OF config_mimo_ok(2) [OF mimo], of nof_re] arg_cong [OF config_mimo_ok(2) [OF mimo], of prb_idx] by simp_all
  define n where "n = nof_re g"
  let ?bits = "\<lambda>t. if enabled t then t\<lparr>nof_bits := mul32 n (srsran_mod_bits_x_symbol (mod_order t))\<rparr> else t"
  have n3: "n = srsran_ra_dl_grant_nof_re cell sf g2" "prb_idx g = prb_idx g2" "nof_tb g = length (filter enabled [t0, t1])"
    by (simp_all add: n_def g g4_def g3_def srsran_ra_dl_compute_nof_re_def Let_def) (simp add: g2_def)
  have tbg: "tb g = [?bits t0, ?bits t1] \<or> tb g = map (\<lambda>t. t\<lparr>rv := 0\<rparr>) [?bits t0, ?bits t1]"
    unfolding g g4_def g3_def srsran_ra_dl_compute_nof_re_def Let_def n3(1) by (simp add: g2_def)
  have reserved: "srsran_ra_tbs_idx_from_mcs m a False = None" if "29 \<le> m" for m a
    using that by (simp add: srsran_ra_tbs_idx_from_mcs_def srsran_ra_dl_tbs_idx_from_mcs_def)
  have re: "nof_re g = srsran_ra_dl_grant_nof_re cell sf g"
    using n3(1,2) by (simp add: n_def srsran_ra_dl_grant_nof_re_def)
  have "1 \<le> nof_tb g" using config_mimo_ok(1) [OF mimo] by (cases "tx_scheme g") auto
  moreover have "length (tb g) = 2" "nof_tb g = length (filter enabled (tb g))"
    "\<forall>t \<in> set (tb g). 0 \<le> tbs t \<and> (enabled t \<longrightarrow> nof_bits t = mul32 (nof_re g) (srsran_mod_bits_x_symbol (mod_order t)))"
    using tbg n3(3) t(2,3) unfolding n_def [symmetric] by (auto simp: tb_ok_def)
  moreover have "mcs_idx (tb g ! i) = dci_mcs_idx (dl_tb dci ! i) \<and>
      (SRSRAN_RNTI_ISUSER (dl_rnti dci) \<longrightarrow> 29 \<le> dci_mcs_idx (dl_tb dci ! i) \<longrightarrow> tbs (tb g ! i) = 0)" if "i < 2" for i
    using less_2_cases [OF that] tbg t(2,3) by (auto simp: tb_ok_def reserved)
  ultimately show ?thesis using re config_mimo_ok(1) [OF mimo] by blast
qed

text \<open>A concrete retransmission.\<close>

definition retx_dci :: srsran_dci_dl_t where
  "retx_dci = zero_dci_dl\<lparr>dl_rnti := 70, dl_format := SRSRAN_DCI_FORMAT1A, alloc_type := SRSRAN_RA_ALLOC_TYPE2,
     type2_alloc := zero_type2\<lparr>riv := 28\<rparr>, dl_tb := [zero_dci_tb\<lparr>dci_mcs_idx := 29\<rparr>, zero_dci_tb]\<rparr>"

lemma retx_granted: "\<exists>g. srsran_ra_dl_dci_to_grant example_cell example_sf SRSRAN_TM2 False retx_dci zero_grant = Returned 0 g"
proof -
  have "type2_blocks retx_dci 25 = (2, 3)"
    by (simp add: type2_blocks_def retx_dci_def zero_dci_dl_def zero_type2_def srsran_ra_type2_from_riv_def sub32_def add32_def)
  then have "srsran_ra_dl_grant_to_grant_prb_allocation retx_dci zero_grant 25 = Returned 0 (alloc_of [3..<5])"
    using prb_allocation_local_eq [of 25 retx_dci 2 3]
    by (simp add: srsran_ra_dl_grant_to_grant_prb_allocation_def retx_dci_def zero_dci_dl_def zero_type2_def)
  moreover have "\<exists>g. dl_dci_compute_tb False retx_dci (alloc_of [3..<5]) = Returned 0 g \<and> nof_tb g = 1"
    by (simp add: dl_dci_compute_tb_def copy_tb_def fill_tb_def srsran_dl_fill_ra_mcs_def srsran_ra_tbs_idx_from_mcs_def
        srsran_ra_dl_tbs_idx_from_mcs_def retx_dci_def zero_dci_dl_def zero_dci_tb_def alloc_of_def zero_grant_def
        SRSRAN_RNTI_ISUSER_def SRSRAN_DCI_IS_TB_EN_def dci_format_order Let_def)
  ultimately show ?thesis
    by (auto simp: srsran_ra_dl_dci_to_grant_def bzero_grant_def example_cell_def config_mimo_def config_mimo_type_def
        config_mimo_pmi_def config_mimo_layers_def srsran_ra_dl_compute_nof_re_def Let_def)
qed

section \<open>Properties of the grant\<close>

text \<open>
  C9: A grant the conversion of a DCI accepts is consistent, whatever the grant structure held before: the number
  of transport blocks is the number of enabled ones, sizes are not negative, the number of bits of a
  block is the number of its resource elements times the modulation order, the number of elements is
  the sum over the allocated blocks, and the number of layers and the precoding matrix fit the
  transmission scheme and the number of transport blocks.
\<close>
theorem dl_grant_consistent:
  assumes "srsran_ra_dl_dci_to_grant cell sf tm alt dci grant = Returned 0 g"
  shows "length (tb g) = 2 \<and> nof_tb g = length (filter enabled (tb g)) \<and> 1 \<le> nof_tb g \<and>
    (\<forall>t \<in> set (tb g). 0 \<le> tbs t \<and> (enabled t \<longrightarrow> nof_bits t = mul32 (nof_re g) (srsran_mod_bits_x_symbol (mod_order t)))) \<and>
    nof_re g = srsran_ra_dl_grant_nof_re cell sf g \<and>
    precoding_ok (nof_ports cell) (tx_scheme g) (nof_tb g) (nof_layers g) (pmi g)"
  using dci_to_grant_success [OF assms] by blast

theorem dl_grant_consistent_witness:
  "\<exists>g. srsran_ra_dl_dci_to_grant example_cell example_sf SRSRAN_TM2 False retx_dci zero_grant = Returned 0 g \<and>
    nof_tb g = length (filter enabled (tb g)) \<and> precoding_ok 2 (tx_scheme g) (nof_tb g) (nof_layers g) (pmi g)"
  using retx_granted dl_grant_consistent [of example_cell example_sf SRSRAN_TM2 False retx_dci zero_grant]
  by (auto simp: example_cell_def)

text \<open>
  C29: An adaptive retransmission to a user, one of the modulation and coding schemes 29 to 31 that have no transport
  block size of their own, is always granted a transport block of size 0: the conversion clears \<open>last_tbs\<close>, in which
  the caller passes the size of the previous transmission, and \<open>dl_dci_compute_tb\<close> overwrites the size
  \<open>srsran_dl_fill_ra_mcs\<close> takes from it with the returned 0.
\<close>
theorem dl_retx_tbs_lost:
  assumes "srsran_ra_dl_dci_to_grant cell sf tm alt dci grant = Returned 0 g" "SRSRAN_RNTI_ISUSER (dl_rnti dci)"
    and "i < 2" "29 \<le> dci_mcs_idx (dl_tb dci ! i)"
  shows "tbs (tb g ! i) = 0 \<and> tbs (snd (srsran_dl_fill_ra_mcs (tb g ! i) prev n alt)) = prev"
  using dci_to_grant_success [OF assms(1)] assms(2-4)
  by (auto simp: srsran_dl_fill_ra_mcs_def srsran_ra_tbs_idx_from_mcs_def srsran_ra_dl_tbs_idx_from_mcs_def Let_def)

theorem dl_retx_tbs_lost_witness:
  "\<exists>g. srsran_ra_dl_dci_to_grant example_cell example_sf SRSRAN_TM2 False retx_dci zero_grant = Returned 0 g \<and> tbs (tb g ! 0) = 0"
  using retx_granted dl_retx_tbs_lost [of example_cell example_sf SRSRAN_TM2 False retx_dci zero_grant _ 0]
  by (auto simp: retx_dci_def SRSRAN_RNTI_ISUSER_def)

end
