(* ===== verification/Ra_Ul.thy ===== *)
theory Ra_Ul
  imports Ra_Dl Scrambling
begin

text \<open>
  Uplink resource allocation and frequency hopping, \<open>lib/src/phy/phch/ra_ul.c\<close>, with the structures of
  \<open>phch/pusch_cfg.h\<close> and \<open>phch/ra_ul.h\<close>. A value \<open>None\<close> is undefined behaviour: a shift by the width of the
  type or more, a division by zero. The parts of a PUSCH grant carry the prefix \<open>pusch_\<close> where the
  downlink grant has a field of the same name. The error message for TDD in \<open>compute_freq_hopping\<close>
  (which goes on all the same) and the text output are not modelled.
\<close>

section \<open>Structures\<close>

datatype hop_mode_t = SRSRAN_PUSCH_HOP_MODE_INTER_SF | SRSRAN_PUSCH_HOP_MODE_INTRA_SF

record srsran_pusch_hopping_cfg_t =
  hop_mode :: hop_mode_t
  hopping_offset :: nat
  n_sb :: nat
  n_rb_ho :: nat
  current_tx_nb :: nat
  hopping_enabled :: bool

record srsran_pusch_grant_t =
  L_prb :: nat
  n_prb :: "nat list"
  n_prb_tilde :: "nat list"
  freq_hopping :: nat
  pusch_nof_re :: nat
  pusch_nof_symb :: nat
  pusch_tb :: srsran_ra_tb_t
  pusch_last_tb :: srsran_ra_tb_t
  pusch_n_dmrs :: nat
  is_rar :: bool

record srsran_ra_ul_pusch_hopping_t =
  hop_initialized :: bool
  hop_cell :: srsran_cell_t
  seq_type2_fo :: srsran_sequence_t

section \<open>Frequency hopping\<close>

text \<open>
  The loop of \<open>f_hop_sum\<close>, which steps \<open>i\<close> and not \<open>k\<close>. The shift of \<open>c[k]\<close> is undefined from 32 on.
\<close>

lemma int_sub32: "b \<le> 2 ^ 32 \<Longrightarrow> int (sub32 a b) = (int a - int b) mod 2 ^ 32"
proof -
  assume "b \<le> 2 ^ 32"
  then have "int (a + 2 ^ 32 - b) = int a - int b + 2 ^ 32" by (simp add: of_nat_diff)
  then show ?thesis by (simp add: sub32_def zmod_int)
qed

lemma sub32_next_shift:
  "sub32 k (add32 (mul32 (add32 i 1) 10) 1) =
   (if 10 \<le> sub32 k (add32 (mul32 i 10) 1) then sub32 k (add32 (mul32 i 10) 1) - 10
    else sub32 k (add32 (mul32 i 10) 1) + 2 ^ 32 - 10)"
proof -
  have le: "add32 a b \<le> 2 ^ 32" for a b by (simp add: add32_def less_imp_le)
  define s where "s = sub32 k (add32 (mul32 i 10) 1)"
  have s: "int s = (int k - int i * 10 - 1) mod 2 ^ 32"
    unfolding s_def int_sub32 [OF le] by (simp add: add32_def mul32_def zmod_int mod_simps algebra_simps)
  have "int (sub32 k (add32 (mul32 (add32 i 1) 10) 1)) = (int s - 10) mod 2 ^ 32"
    unfolding s int_sub32 [OF le] by (simp add: add32_def mul32_def zmod_int mod_simps algebra_simps)
  moreover have "s < 2 ^ 32" by (simp add: s_def sub32_def)
  moreover have "(int s - 10) mod 2 ^ 32 = (int s - 10 + 2 ^ 32) mod 2 ^ 32" by (simp only: mod_add_self2)
  ultimately have "int (sub32 k (add32 (mul32 (add32 i 1) 10) 1)) = (if 10 \<le> s then int s - 10 else int s - 10 + 2 ^ 32)"
    by (cases "10 \<le> s") (simp_all only: mod_pos_pos_trivial of_nat_0_le_iff if_True if_False, simp_all)
  then show ?thesis unfolding s_def [symmetric] by auto
qed

function f_hop_sum_loop :: "u8 list \<Rightarrow> nat \<Rightarrow> nat \<Rightarrow> nat \<Rightarrow> nat option" where
  "f_hop_sum_loop c k i acc =
     (if k < add32 (mul32 i 10) 9 then
        let s = sub32 k (add32 (mul32 i 10) 1) in
        if s < 32 then f_hop_sum_loop c k (add32 i 1) (add32 acc (unat (c ! k) * 2 ^ s)) else None
      else Some acc)"
  by auto
termination
  by (relation "measure (\<lambda>(c, k, i, acc). let s = sub32 k (add32 (mul32 i 10) 1) in if s < 32 then Suc s else 0)")
    (auto simp: sub32_next_shift Let_def simp del: One_nat_def)

declare f_hop_sum_loop.simps [simp del]

definition f_hop_sum :: "srsran_ra_ul_pusch_hopping_t \<Rightarrow> nat \<Rightarrow> nat option" where
  "f_hop_sum q i = f_hop_sum_loop (sc_c (seq_type2_fo q)) (add32 (mul32 i 10) 1) i 0"

text \<open>\<open>f_hop q hopping i\<close> of the code is \<open>f_hop q hopping (i + 1)\<close> here: the recursion ends at -1.\<close>

fun f_hop :: "srsran_ra_ul_pusch_hopping_t \<Rightarrow> srsran_pusch_hopping_cfg_t \<Rightarrow> nat \<Rightarrow> nat option" where
  "f_hop q hopping 0 = Some 0"
| "f_hop q hopping (Suc i) =
     (if n_sb hopping = 1 then Some 0
      else if n_sb hopping = 2 then
        Option.bind (f_hop q hopping i) (\<lambda>f. Option.bind (f_hop_sum q i) (\<lambda>s. Some (add32 f s mod 2)))
      else
        Option.bind (f_hop q hopping i) (\<lambda>f. Option.bind (f_hop_sum q i) (\<lambda>s.
          if n_sb hopping = 0 then None
          else Some (add32 (add32 f (s mod sub32 (n_sb hopping) 1)) 1 mod n_sb hopping))))"

definition f_m :: "srsran_ra_ul_pusch_hopping_t \<Rightarrow> srsran_pusch_hopping_cfg_t \<Rightarrow> nat \<Rightarrow> nat \<Rightarrow> nat" where
  "f_m q hopping i tx_nb =
     (if n_sb hopping = 1 then
        if hop_mode hopping = SRSRAN_PUSCH_HOP_MODE_INTER_SF then tx_nb mod 2 else i mod 2
      else unat (sc_c (seq_type2_fo q) ! (i * 10)))"

text \<open>The index of the subframe or slot, the size of a subband and the block for type 2 hopping.\<close>

definition hop_index :: "srsran_ul_sf_cfg_t \<Rightarrow> srsran_pusch_hopping_cfg_t \<Rightarrow> nat \<Rightarrow> nat" where
  "hop_index sf hopping slot =
     (if hop_mode hopping = SRSRAN_PUSCH_HOP_MODE_INTER_SF then ul_tti sf mod 10 else mul32 2 (ul_tti sf) mod 10 + slot)"

definition hop_shift :: "srsran_pusch_hopping_cfg_t \<Rightarrow> nat" where
  "hop_shift hopping = add32 (sub32 (hopping_offset hopping) 1 div 2) 1"

definition hop_n_rb_sb :: "srsran_ra_ul_pusch_hopping_t \<Rightarrow> srsran_pusch_hopping_cfg_t \<Rightarrow> nat" where
  "hop_n_rb_sb q hopping =
     (if n_sb hopping > 1
      then sub32 (sub32 (nof_prb (hop_cell q)) (hopping_offset hopping)) (hopping_offset hopping mod 2) div n_sb hopping
      else nof_prb (hop_cell q))"

definition type2_prb_tilde ::
  "srsran_ra_ul_pusch_hopping_t \<Rightarrow> srsran_ul_sf_cfg_t \<Rightarrow> srsran_pusch_hopping_cfg_t \<Rightarrow> srsran_pusch_grant_t \<Rightarrow> nat \<Rightarrow>
   nat option" where
  "type2_prb_tilde q sf hopping grant slot =
     (let n_vrb_tilde = (if n_sb hopping > 1 then sub32 (n_prb grant ! 0) (hop_shift hopping) else n_prb grant ! 0);
          i = hop_index sf hopping slot;
          n_rb_sb = hop_n_rb_sb q hopping in
      Option.bind (f_hop q hopping (i + 1)) (\<lambda>f.
        if n_rb_sb = 0 \<or> mul32 n_rb_sb (n_sb hopping) = 0 then None
        else
          let m = f_m q hopping i (current_tx_nb hopping);
              t = sub32 (add32 (add32 n_vrb_tilde (mul32 f n_rb_sb)) (sub32 n_rb_sb 1))
                    (mul32 (mul32 2 (n_vrb_tilde mod n_rb_sb)) m) mod mul32 n_rb_sb (n_sb hopping) in
          Some (if n_sb hopping > 1 then add32 t (hop_shift hopping) else t)))"

definition slot_prb_tilde ::
  "srsran_ra_ul_pusch_hopping_t \<Rightarrow> srsran_ul_sf_cfg_t \<Rightarrow> srsran_pusch_hopping_cfg_t \<Rightarrow> srsran_pusch_grant_t \<Rightarrow> nat \<Rightarrow>
   nat option" where
  "slot_prb_tilde q sf hopping grant slot =
     (if freq_hopping grant = 2 then type2_prb_tilde q sf hopping grant slot
      else if freq_hopping grant = 1 \<and> hop_mode hopping = SRSRAN_PUSCH_HOP_MODE_INTER_SF
      then Some (n_prb grant ! (current_tx_nb hopping mod 2))
      else Some (n_prb grant ! slot))"

definition compute_freq_hopping ::
  "srsran_ra_ul_pusch_hopping_t \<Rightarrow> srsran_ul_sf_cfg_t \<Rightarrow> srsran_pusch_hopping_cfg_t \<Rightarrow> srsran_pusch_grant_t \<Rightarrow>
   srsran_pusch_grant_t option" where
  "compute_freq_hopping q sf hopping grant =
     foldl (\<lambda>g slot. Option.bind g (\<lambda>g. Option.bind (slot_prb_tilde q sf hopping g slot)
         (\<lambda>x. Some (g\<lparr>n_prb_tilde := (n_prb_tilde g)[slot := x]\<rparr>))))
       (Some grant) [0..<2]"

definition srsran_ra_ul_pusch_hopping_init ::
  "(nat \<Rightarrow> bool) \<Rightarrow> srsran_ra_ul_pusch_hopping_t \<Rightarrow> srsran_cell_t \<Rightarrow> srsran_ra_ul_pusch_hopping_t \<times> int" where
  "srsran_ra_ul_pusch_hopping_init mem q cell =
     (if cell_id cell \<noteq> cell_id (hop_cell q) \<or> \<not> hop_initialized q then
        let q = q\<lparr>hop_cell := cell, hop_initialized := True\<rparr>;
            (s, r) = srsran_sequence_LTE_pr mem (seq_type2_fo q) 210 (of_nat (cell_id (hop_cell q)));
            q = q\<lparr>seq_type2_fo := s\<rparr> in
        if r \<noteq> 0 then (q, -1) else (q, 0)
      else (q, -2))"

definition srsran_ra_ul_pusch_hopping_free :: "srsran_ra_ul_pusch_hopping_t \<Rightarrow> srsran_ra_ul_pusch_hopping_t" where
  "srsran_ra_ul_pusch_hopping_free q = q\<lparr>seq_type2_fo := srsran_sequence_free (seq_type2_fo q)\<rparr>"

definition srsran_ra_ul_pusch_hopping ::
  "srsran_ra_ul_pusch_hopping_t \<Rightarrow> srsran_ul_sf_cfg_t \<Rightarrow> srsran_pusch_hopping_cfg_t \<Rightarrow> srsran_pusch_grant_t \<Rightarrow>
   srsran_pusch_grant_t option" where
  "srsran_ra_ul_pusch_hopping q sf hopping grant =
     (if hopping_enabled hopping then compute_freq_hopping q sf hopping grant
      else Some (grant\<lparr>n_prb_tilde := (n_prb_tilde grant)[0 := n_prb grant ! 0, 1 := n_prb grant ! 1]\<rparr>))"

section \<open>From DCI to grant\<close>

text \<open>The first block in the second slot for type 1 hopping over \<open>p\<close> blocks.\<close>

definition type1_second_prb :: "freq_hop_fl_t \<Rightarrow> nat \<Rightarrow> nat \<Rightarrow> nat option" where
  "type1_second_prb fl p n =
     (case fl of
        SRSRAN_RA_PUSCH_HOP_QUART \<Rightarrow> if p = 0 then None else Some (add32 (p div 4) n mod p)
      | SRSRAN_RA_PUSCH_HOP_QUART_NEG \<Rightarrow>
          Some (if n < p div 4 then sub32 (add32 p n) (p div 4) else sub32 n (p div 4))
      | SRSRAN_RA_PUSCH_HOP_HALF \<Rightarrow> if p = 0 then None else Some (add32 (p div 2) n mod p)
      | _ \<Rightarrow> None)"

definition even_offset :: "nat \<Rightarrow> nat" where
  "even_offset n = (if n mod 2 \<noteq> 0 then add32 n 1 else n)"

definition ra_ul_grant_to_grant_prb_allocation ::
  "srsran_dci_ul_t \<Rightarrow> srsran_pusch_grant_t \<Rightarrow> nat \<Rightarrow> nat \<Rightarrow> (int \<times> srsran_pusch_grant_t) option" where
  "ra_ul_grant_to_grant_prb_allocation dci grant ho N =
     (let (L, n_prb_1) = srsran_ra_type2_from_riv (riv (ul_type2_alloc dci)) N N;
          g = grant\<lparr>L_prb := L\<rparr>;
          ho = even_offset ho;
          check = (\<lambda>g. if add32 (n_prb g ! 0) (L_prb g) \<le> N \<and> add32 (n_prb g ! 1) (L_prb g) \<le> N then (0, g) else (-1, g)) in
      if freq_hop_fl dci = SRSRAN_RA_PUSCH_HOP_DISABLED \<or> freq_hop_fl dci = SRSRAN_RA_PUSCH_HOP_TYPE2 then
        Some (check (g\<lparr>n_prb := (n_prb g)[0 := n_prb_1, 1 := n_prb_1],
                freq_hopping := if freq_hop_fl dci = SRSRAN_RA_PUSCH_HOP_DISABLED then 0 else 2\<rparr>))
      else
        let n_rb_pusch = sub32 (sub32 N ho) (N mod 2); g = g\<lparr>n_prb := (n_prb g)[0 := n_prb_1]\<rparr> in
        if n_prb_1 < ho div 2 then Some (-1, g)
        else Option.bind (type1_second_prb (freq_hop_fl dci) n_rb_pusch n_prb_1)
          (\<lambda>n. Some (check (g\<lparr>n_prb := (n_prb g)[1 := n], freq_hopping := 1\<rparr>))))"

definition ul_fill_ra_mcs :: "srsran_ra_tb_t \<Rightarrow> srsran_ra_tb_t \<Rightarrow> nat \<Rightarrow> bool \<Rightarrow> srsran_ra_tb_t" where
  "ul_fill_ra_mcs t prev L cqi =
     (if mcs_idx t \<le> 28 then
        if mcs_idx t < 11 then
          t\<lparr>mod_order := SRSRAN_MOD_QPSK, tbs := int_or_error (srsran_ra_tbs_from_idx (mcs_idx t) L)\<rparr>
        else if mcs_idx t < 21 then
          t\<lparr>mod_order := SRSRAN_MOD_16QAM, tbs := int_or_error (srsran_ra_tbs_from_idx (mcs_idx t - 1) L)\<rparr>
        else t\<lparr>mod_order := SRSRAN_MOD_64QAM, tbs := int_or_error (srsran_ra_tbs_from_idx (mcs_idx t - 2) L)\<rparr>
      else if mcs_idx t = 29 \<and> cqi \<and> L \<le> 4 then t\<lparr>mod_order := SRSRAN_MOD_QPSK, tbs := 0, rv := 1\<rparr>
      else t\<lparr>tbs := tbs prev, mod_order := mod_order prev, rv := int (mcs_idx t) - 28\<rparr>)"

definition srsran_ra_ul_compute_nof_re :: "srsran_pusch_grant_t \<Rightarrow> srsran_cp_t \<Rightarrow> nat \<Rightarrow> srsran_pusch_grant_t" where
  "srsran_ra_ul_compute_nof_re g cp N_srs =
     (let symb = sub32 (2 * (SRSRAN_CP_NSYMB cp - 1)) N_srs; re = mul32 (mul32 symb (L_prb g)) SRSRAN_NRE in
      g\<lparr>pusch_nof_symb := symb, pusch_nof_re := re,
        pusch_tb := (pusch_tb g)\<lparr>nof_bits := mul32 re (srsran_mod_bits_x_symbol (mod_order (pusch_tb g)))\<rparr>\<rparr>)"

definition srsran_ra_ul_dci_to_grant ::
  "srsran_cell_t \<Rightarrow> srsran_ul_sf_cfg_t \<Rightarrow> srsran_pusch_hopping_cfg_t \<Rightarrow> srsran_dci_ul_t \<Rightarrow> srsran_pusch_grant_t \<Rightarrow>
   (int \<times> srsran_pusch_grant_t) option" where
  "srsran_ra_ul_dci_to_grant cell sf hopping dci grant =
     Option.bind (ra_ul_grant_to_grant_prb_allocation dci grant (n_rb_ho hopping) (nof_prb cell)) (\<lambda>(r, g).
       if r \<noteq> 0 then Some (-1, g)
       else
         let t = (pusch_tb g)\<lparr>mcs_idx := dci_mcs_idx (ul_tb dci), rv := dci_rv (ul_tb dci)\<rparr>;
             g = g\<lparr>pusch_tb := ul_fill_ra_mcs t (pusch_last_tb g) (L_prb g) (cqi_request dci)\<rparr>;
             g = srsran_ra_ul_compute_nof_re g (cell_cp cell) 0;
             g = g\<lparr>n_prb_tilde := (n_prb_tilde g)[0 := n_prb g ! 0, 1 := n_prb g ! 1]\<rparr> in
         if pusch_nof_symb g = 0 \<or> pusch_nof_re g = 0 then Some (-1, g) else Some (0, g))"

section \<open>Allocations\<close>

text \<open>
  The field of the DCI has as many bits as the largest indication value needs, so its values are below
  \<open>N * (N + 1)\<close>; the sums of a start and a length do not wrap.
\<close>

lemma from_riv_field:
  assumes "0 < N" "N < 2 ^ 15" "v < N * (N + 1)" "srsran_ra_type2_from_riv v N N = (L, S)"
  shows "1 \<le> L \<and> L \<le> N + 1 \<and> S < N"
proof -
  have r: "v div N \<le> N" using assms(1,3) by (simp add: div_less_iff_less_mult less_Suc_eq_le [symmetric] mult.commute)
  have c: "v mod N < N" using assms(1) by simp
  have eqs: "add32 (v div N) 1 = v div N + 1" "sub32 N (v mod N) = N - v mod N"
    "sub32 N (v div N) = N - v div N" "add32 (N - v div N) 1 = N - v div N + 1" "sub32 (N - v mod N) 1 = N - v mod N - 1"
    using r c assms(2) by (simp_all add: sub32_le add32_small)
  show ?thesis using assms(4) r c unfolding srsran_ra_type2_from_riv_def Let_def eqs by (auto split: if_splits)
qed

definition hop_range :: "nat \<Rightarrow> nat \<Rightarrow> nat" where
  "hop_range N ho = N - even_offset ho - N mod 2"

lemma hop_range_eq:
  assumes "ho + 2 \<le> N" "N < 2 ^ 15"
  shows "even_offset ho = ho + ho mod 2" "sub32 (sub32 N (even_offset ho)) (N mod 2) = hop_range N ho"
    "even_offset ho + N mod 2 \<le> N" "hop_range N ho < 2 ^ 15"
proof -
  have m: "ho mod 2 \<le> 1" "N mod 2 \<le> 1" by auto
  show e: "even_offset ho = ho + ho mod 2"
    using assms m by (auto simp: even_offset_def add32_small mod2_eq_if)
  then show le: "even_offset ho + N mod 2 \<le> N" using assms(1) m by linarith
  then show "sub32 (sub32 N (even_offset ho)) (N mod 2) = hop_range N ho"
    using assms(2) unfolding hop_range_def by (simp add: sub32_le)
  show "hop_range N ho < 2 ^ 15" using assms(2) by (simp add: hop_range_def)
qed

lemma type1_second_prb_eq:
  assumes "p < 2 ^ 15" "n < 2 ^ 15" "type1_second_prb fl p n = Some m"
  shows "(fl = SRSRAN_RA_PUSCH_HOP_QUART \<and> m = (p div 4 + n) mod p \<and> 0 < p \<or>
     fl = SRSRAN_RA_PUSCH_HOP_QUART_NEG \<and> m = (if n < p div 4 then p + n - p div 4 else n - p div 4) \<or>
     fl = SRSRAN_RA_PUSCH_HOP_HALF \<and> m = (p div 2 + n) mod p \<and> 0 < p) \<and> m < 2 ^ 16"
proof -
  have 4: "p div 4 \<le> p" "p div 2 \<le> p" by simp_all
  have m: "x mod p < 2 ^ 16" if "0 < p" for x
    using mod_less_divisor [OF that, of x] assms(1) by simp
  have a: "add32 (p div 4) n = p div 4 + n" "add32 (p div 2) n = p div 2 + n" "add32 p n = p + n"
    "sub32 (p + n) (p div 4) = p + n - p div 4" "p div 4 \<le> n \<Longrightarrow> sub32 n (p div 4) = n - p div 4"
    using assms(1,2) 4 by (simp_all add: add32_small sub32_le)
  show ?thesis
  proof (cases "p = 0")
    case True
    then show ?thesis using assms(2,3) a by (cases fl) (auto simp: type1_second_prb_def)
  next
    case False
    have "n < p div 4 \<Longrightarrow> p + n - p div 4 < 2 ^ 16" "n - p div 4 < 2 ^ 16" using assms(1,2) by simp_all
    then show ?thesis using assms(3) m a False by (cases fl) (simp_all add: type1_second_prb_def, auto split: if_splits)
  qed
qed

text \<open>What a successful allocation leaves in the grant, and what it does not touch.\<close>

lemma ul_prb_allocation_ok:
  assumes run: "ra_ul_grant_to_grant_prb_allocation dci grant ho N = Some (0, g)"
    and N: "0 < N" "N < 2 ^ 15" and riv: "riv (ul_type2_alloc dci) < N * (N + 1)" and ho: "ho + 2 \<le> N"
    and len: "length (n_prb grant) = 2"
  shows "1 \<le> L_prb g \<and> n_prb g ! 0 + L_prb g \<le> N \<and> n_prb g ! 1 + L_prb g \<le> N \<and> length (n_prb g) = 2 \<and>
    g = grant\<lparr>L_prb := L_prb g, n_prb := n_prb g, freq_hopping := freq_hopping g\<rparr>"
proof -
  obtain L S where LS: "srsran_ra_type2_from_riv (riv (ul_type2_alloc dci)) N N = (L, S)" by fastforce
  note b = from_riv_field [OF N riv LS]
  note e = hop_range_eq [OF ho N(2)]
  obtain a0 a1 where np: "n_prb grant = [a0, a1]"
    using len by (auto simp: numeral_2_eq_2 length_Suc_conv)
  have wrap: "add32 x L = x + L" if "x < 2 ^ 16" for x using that b N(2) by (simp add: add32_small)
  have S: "S < 2 ^ 15" using b N(2) by linarith
  show ?thesis
  proof (cases "freq_hop_fl dci = SRSRAN_RA_PUSCH_HOP_DISABLED \<or> freq_hop_fl dci = SRSRAN_RA_PUSCH_HOP_TYPE2")
    case True
    then show ?thesis
      using run b wrap [of S] S unfolding ra_ul_grant_to_grant_prb_allocation_def LS
      by (auto simp: Let_def np split: if_splits)
  next
    case False
    obtain m where m: "type1_second_prb (freq_hop_fl dci) (hop_range N ho) S = Some m"
      using run False unfolding ra_ul_grant_to_grant_prb_allocation_def LS Let_def prod.case if_not_P [OF False] e(2)
      by (auto split: if_splits bind_splits)
    then have "m < 2 ^ 16" using type1_second_prb_eq [OF e(4) S] by blast
    then show ?thesis
      using run b wrap [of S] wrap [of m] S unfolding ra_ul_grant_to_grant_prb_allocation_def LS Let_def prod.case if_not_P [OF False] e(2) m
      by (auto simp: np split: if_splits)
  qed
qed

text \<open>The transport block and the tables of \<open>ra.c\<close>.\<close>

lemma ul_mcs_table:
  "m \<le> 28 \<Longrightarrow> srsran_ra_ul_tbs_idx_from_mcs m = Some (if m < 11 then m else if m < 21 then m - 1 else m - 2)"
proof -
  assume "m \<le> 28"
  moreover have "\<forall>m < 29. ul_mcs_tbs_idx_table ! m = (if m < 11 then m else if m < 21 then m - 1 else m - 2)"
    by code_simp
  ultimately show ?thesis by (simp add: srsran_ra_ul_tbs_idx_from_mcs_def)
qed

definition ul_tb_ok :: "srsran_dci_ul_t \<Rightarrow> nat \<Rightarrow> srsran_ra_tb_t \<Rightarrow> srsran_ra_tb_t \<Rightarrow> bool" where
  "ul_tb_ok dci L prev t \<longleftrightarrow>
     (let m = dci_mcs_idx (ul_tb dci) in
      mcs_idx t = m \<and>
      (if m \<le> 28 then mod_order t = srsran_ra_ul_mod_from_mcs m \<and> rv t = dci_rv (ul_tb dci) \<and>
         tbs t = int_or_error (Option.bind (srsran_ra_ul_tbs_idx_from_mcs m) (\<lambda>i. srsran_ra_tbs_from_idx i L))
       else if m = 29 \<and> cqi_request dci \<and> L \<le> 4 then mod_order t = SRSRAN_MOD_QPSK \<and> tbs t = 0 \<and> rv t = 1
       else mod_order t = mod_order prev \<and> tbs t = tbs prev \<and> rv t = int m - 28))"

lemma ul_tb_ok_bits [simp]: "ul_tb_ok dci L prev (t\<lparr>nof_bits := b\<rparr>) = ul_tb_ok dci L prev t"
  by (simp add: ul_tb_ok_def)

lemma ul_fill_ra_mcs_ok:
  "ul_tb_ok dci L prev (ul_fill_ra_mcs (t\<lparr>mcs_idx := dci_mcs_idx (ul_tb dci), rv := dci_rv (ul_tb dci)\<rparr>) prev L (cqi_request dci))"
  by (simp add: ul_tb_ok_def ul_fill_ra_mcs_def ul_mcs_table srsran_ra_ul_mod_from_mcs_def Let_def)

lemma grant_of_allocation:
  assumes alloc: "ra_ul_grant_to_grant_prb_allocation dci grant (n_rb_ho hopping) (nof_prb cell) = Some (0, g1)"
    and L: "0 < L_prb g1" "L_prb g1 \<le> 110"
    and g: "g = g1\<lparr>n_prb_tilde := (n_prb_tilde g1)[0 := n_prb g1 ! 0, 1 := n_prb g1 ! 1],
      pusch_nof_symb := 2 * (SRSRAN_CP_NSYMB (cell_cp cell) - 1),
      pusch_nof_re := 2 * (SRSRAN_CP_NSYMB (cell_cp cell) - 1) * L_prb g1 * 12,
      pusch_tb := t\<lparr>nof_bits := 2 * (SRSRAN_CP_NSYMB (cell_cp cell) - 1) * L_prb g1 * 12 * srsran_mod_bits_x_symbol (mod_order t)\<rparr>\<rparr>"
    and t: "t = ul_fill_ra_mcs ((pusch_tb g1)\<lparr>mcs_idx := dci_mcs_idx (ul_tb dci), rv := dci_rv (ul_tb dci)\<rparr>)
      (pusch_last_tb g1) (L_prb g1) (cqi_request dci)"
  shows "srsran_ra_ul_dci_to_grant cell sf hopping dci grant = Some (0, g)"
proof -
  have symb: "sub32 (2 * (SRSRAN_CP_NSYMB (cell_cp cell) - 1)) 0 = 2 * (SRSRAN_CP_NSYMB (cell_cp cell) - 1)"
    "0 < SRSRAN_CP_NSYMB (cell_cp cell) - 1" "SRSRAN_CP_NSYMB (cell_cp cell) - 1 \<le> 6"
    by (auto simp: SRSRAN_CP_NSYMB_def sub32_le)
  define k where "k = 2 * (SRSRAN_CP_NSYMB (cell_cp cell) - 1)"
  have bits: "srsran_mod_bits_x_symbol (mod_order t) \<le> 8" by (cases "mod_order t") simp_all
  have kL: "k * L_prb g1 \<le> 12 * 110" unfolding k_def using symb(3) L(2) by (intro mult_le_mono) simp_all
  then have "k * L_prb g1 * 12 \<le> 12 * 110 * 12" by simp
  with bits have "k * L_prb g1 * 12 * srsran_mod_bits_x_symbol (mod_order t) \<le> 12 * 110 * 12 * 8"
    by (rule mult_le_mono [rotated])
  then have w: "mul32 k (L_prb g1) = k * L_prb g1" "mul32 (k * L_prb g1) 12 = k * L_prb g1 * 12"
    "mul32 (k * L_prb g1 * 12) (srsran_mod_bits_x_symbol (mod_order t)) = k * L_prb g1 * 12 * srsran_mod_bits_x_symbol (mod_order t)"
    using kL by (simp_all add: mul32_small)
  have pos: "0 < k" using symb(2) by (simp add: k_def)
  show ?thesis
    unfolding srsran_ra_ul_dci_to_grant_def alloc srsran_ra_ul_compute_nof_re_def g k_def [symmetric]
    using pos L(1) symb(1) [folded k_def] by (simp add: Let_def w t [symmetric])
qed

text \<open>An allocation without hopping of the blocks an indication value encodes.\<close>

lemma plain_allocation:
  assumes "0 < L" "S + L \<le> N" "N < 2 ^ 15" "riv (ul_type2_alloc dci) = srsran_ra_type2_to_riv L S N"
    and "freq_hop_fl dci = SRSRAN_RA_PUSCH_HOP_DISABLED" "length (n_prb grant) = 2"
  shows "ra_ul_grant_to_grant_prb_allocation dci grant ho N =
    Some (0, grant\<lparr>L_prb := L, n_prb := [S, S], freq_hopping := 0\<rparr>)"
proof -
  have fits: "codec_size N N" using assms by (simp add: codec_size_def)
  have "riv.decodable N N S L" using assms by (simp add: riv.decodable_def)
  then have LS: "srsran_ra_type2_from_riv (srsran_ra_type2_to_riv L S N) N N = (L, S)"
    using riv.dec_enc [OF fits, of S L] by (cases "srsran_ra_type2_from_riv (srsran_ra_type2_to_riv L S N) N N") simp
  obtain a0 a1 where np: "n_prb grant = [a0, a1]"
    using assms(6) by (auto simp: numeral_2_eq_2 length_Suc_conv)
  have "add32 S L = S + L" using assms by (simp add: add32_small)
  then show ?thesis
    using assms(2,5) unfolding ra_ul_grant_to_grant_prb_allocation_def assms(4) LS by (simp add: Let_def np)
qed

definition zero_pusch_grant :: srsran_pusch_grant_t where
  "zero_pusch_grant = \<lparr>L_prb = 0, n_prb = [0, 0], n_prb_tilde = [0, 0], freq_hopping = 0, pusch_nof_re = 0,
     pusch_nof_symb = 0, pusch_tb = zero_tb, pusch_last_tb = zero_tb, pusch_n_dmrs = 0, is_rar = False\<rparr>"

definition example_hopping :: srsran_pusch_hopping_cfg_t where
  "example_hopping = \<lparr>hop_mode = SRSRAN_PUSCH_HOP_MODE_INTRA_SF, hopping_offset = 0, n_sb = 1, n_rb_ho = 4,
     current_tx_nb = 0, hopping_enabled = True\<rparr>"

definition example_ul_sf :: srsran_ul_sf_cfg_t where
  "example_ul_sf = \<lparr>ul_tdd_config = \<lparr>sf_config = 0, ss_config = 0, configured = False\<rparr>, ul_tti = 3, shortened = False\<rparr>"

definition example_hop :: srsran_ra_ul_pusch_hopping_t where
  "example_hop = \<lparr>hop_initialized = False, hop_cell = example_cell,
     seq_type2_fo = \<lparr>sc_allocated = False, sc_c = [], sc_bytes = [],
     sc_float = [], sc_short = [], sc_char = [], sc_cur_len = 0, sc_max_len = 0\<rparr>\<rparr>"

definition example_dci_ul :: srsran_dci_ul_t where
  "example_dci_ul = zero_dci_ul\<lparr>ul_type2_alloc := zero_type2\<lparr>riv := 78\<rparr>, freq_hop_fl := SRSRAN_RA_PUSCH_HOP_DISABLED,
     ul_tb := zero_dci_tb\<lparr>dci_mcs_idx := 15\<rparr>\<rparr>"

lemma example_dci_ul_riv:
  "riv (ul_type2_alloc example_dci_ul) = srsran_ra_type2_to_riv 4 3 25"
  "freq_hop_fl example_dci_ul = SRSRAN_RA_PUSCH_HOP_DISABLED" "riv (ul_type2_alloc example_dci_ul) = 78"
  by (simp_all add: example_dci_ul_def zero_dci_ul_def srsran_ra_type2_to_riv_def sub32_def add32_def mul32_def)

section \<open>Properties\<close>

text \<open>
  C10: A grant the conversion of an uplink DCI accepts lies in the cell in both slots, hopping or not, and is
  consistent, provided that the indication value is less than \<open>N (N + 1)\<close> for the \<open>N\<close> blocks of the cell (for a
  larger one the check of the last block can wrap around, as the property of the unused value of a random access
  response shows) and that the hopping offset leaves two blocks: the blocks before and after the hopping of a retransmission agree, the number of symbols
  is that of two slots without the reference signals, elements and bits are counted without
  wrap-around, and the transport block is the one the tables of \<open>ra.c\<close> give, the previous one for an
  adaptive retransmission, or empty for a report without data.
\<close>
theorem ul_grant_consistent:
  assumes run: "srsran_ra_ul_dci_to_grant cell sf hopping dci grant = Some (0, g)"
    and N: "0 < nof_prb cell" "nof_prb cell \<le> 110" and ho: "n_rb_ho hopping + 2 \<le> nof_prb cell"
    and riv: "riv (ul_type2_alloc dci) < nof_prb cell * (nof_prb cell + 1)"
    and len: "length (n_prb grant) = 2" "length (n_prb_tilde grant) = 2"
  shows "1 \<le> L_prb g \<and> (\<forall>s < 2. n_prb g ! s + L_prb g \<le> nof_prb cell) \<and> n_prb_tilde g = n_prb g \<and>
    pusch_nof_symb g = 2 * (SRSRAN_CP_NSYMB (cell_cp cell) - 1) \<and>
    pusch_nof_re g = pusch_nof_symb g * L_prb g * 12 \<and>
    nof_bits (pusch_tb g) = pusch_nof_re g * srsran_mod_bits_x_symbol (mod_order (pusch_tb g)) \<and>
    ul_tb_ok dci (L_prb g) (pusch_last_tb grant) (pusch_tb g)"
proof -
  obtain g1 where alloc: "ra_ul_grant_to_grant_prb_allocation dci grant (n_rb_ho hopping) (nof_prb cell) = Some (0, g1)"
    using run by (auto simp: srsran_ra_ul_dci_to_grant_def split: bind_splits if_splits)
  have N15: "nof_prb cell < 2 ^ 15" using N(2) by simp
  note a = ul_prb_allocation_ok [OF alloc N(1) N15 riv ho len(1)]
  define t where "t = ul_fill_ra_mcs ((pusch_tb g1)\<lparr>mcs_idx := dci_mcs_idx (ul_tb dci), rv := dci_rv (ul_tb dci)\<rparr>)
      (pusch_last_tb g1) (L_prb g1) (cqi_request dci)"
  have L: "0 < L_prb g1" "L_prb g1 \<le> 110" using a N(2) by linarith+
  note eq = run [unfolded grant_of_allocation [OF alloc L refl t_def], simplified]
  have rest: "pusch_last_tb g1 = pusch_last_tb grant" "n_prb_tilde g1 = n_prb_tilde grant"
    by (subst a [THEN conjunct2, THEN conjunct2, THEN conjunct2, THEN conjunct2], simp)+
  have "ul_tb_ok dci (L_prb g1) (pusch_last_tb grant) t"
    unfolding t_def rest by (rule ul_fill_ra_mcs_ok)
  then have "ul_tb_ok dci (L_prb g) (pusch_last_tb grant) (pusch_tb g)"
    unfolding eq [symmetric] by simp
  moreover obtain x y u v where "n_prb g1 = [x, y]" "n_prb_tilde g1 = [u, v]"
    using a len(2) rest(2) by (auto simp: numeral_2_eq_2 length_Suc_conv)
  moreover have "(s :: nat) < 2 \<longleftrightarrow> s = 0 \<or> s = 1" for s by auto
  ultimately show ?thesis using a unfolding eq [symmetric] by simp
qed

theorem ul_grant_consistent_witness:
  "\<exists>g. srsran_ra_ul_dci_to_grant example_cell example_ul_sf example_hopping example_dci_ul zero_pusch_grant = Some (0, g) \<and>
     pusch_nof_re g = 12 * L_prb g * 12 \<and> n_prb g ! 1 + L_prb g \<le> 25"
proof -
  have N: "nof_prb example_cell = 25" "cell_cp example_cell = SRSRAN_CP_NORM" by (simp_all add: example_cell_def)
  have "\<exists>g. ra_ul_grant_to_grant_prb_allocation example_dci_ul zero_pusch_grant 4 25 = Some (0, g) \<and> L_prb g = 4"
    using plain_allocation [of 4 3 25 example_dci_ul zero_pusch_grant] example_dci_ul_riv(1,2)
    by (auto simp: zero_pusch_grant_def)
  then obtain g where run: "srsran_ra_ul_dci_to_grant example_cell example_ul_sf example_hopping example_dci_ul zero_pusch_grant = Some (0, g)"
    using grant_of_allocation [of example_dci_ul zero_pusch_grant example_hopping example_cell]
    by (auto simp: example_hopping_def N)
  have "1 \<le> L_prb g \<and> (\<forall>s < 2. n_prb g ! s + L_prb g \<le> nof_prb example_cell) \<and> n_prb_tilde g = n_prb g \<and>
      pusch_nof_symb g = 2 * (SRSRAN_CP_NSYMB (cell_cp example_cell) - 1) \<and> pusch_nof_re g = pusch_nof_symb g * L_prb g * 12 \<and>
      nof_bits (pusch_tb g) = pusch_nof_re g * srsran_mod_bits_x_symbol (mod_order (pusch_tb g)) \<and>
      ul_tb_ok example_dci_ul (L_prb g) (pusch_last_tb zero_pusch_grant) (pusch_tb g)"
    by (rule ul_grant_consistent [OF run])
      (simp_all add: N example_hopping_def example_dci_ul_riv(3) zero_pusch_grant_def)
  then show ?thesis using run by (auto simp: N SRSRAN_CP_NSYMB_def)
qed

text \<open>
  Without hopping the grant for the indication value of \<open>L\<close> blocks from \<open>S\<close> on is always accepted and is
  those blocks in both slots.
\<close>
theorem ul_allocation_exact:
  assumes "0 < L" "S + L \<le> nof_prb cell" "nof_prb cell \<le> 110"
    and "riv (ul_type2_alloc dci) = srsran_ra_type2_to_riv L S (nof_prb cell)"
    and "freq_hop_fl dci = SRSRAN_RA_PUSCH_HOP_DISABLED" "length (n_prb grant) = 2" "length (n_prb_tilde grant) = 2"
  shows "\<exists>g. srsran_ra_ul_dci_to_grant cell sf hopping dci grant = Some (0, g) \<and>
    L_prb g = L \<and> n_prb g = [S, S] \<and> n_prb_tilde g = [S, S] \<and> freq_hopping g = 0 \<and>
    ul_tb_ok dci L (pusch_last_tb grant) (pusch_tb g)"
proof -
  have N: "nof_prb cell < 2 ^ 15" and L: "L \<le> 110" using assms by simp_all
  obtain u v where nt: "n_prb_tilde grant = [u, v]" using assms(7) by (auto simp: numeral_2_eq_2 length_Suc_conv)
  define g1 where "g1 = grant\<lparr>L_prb := L, n_prb := [S, S], freq_hopping := 0\<rparr>"
  have "0 < L_prb g1" "L_prb g1 \<le> 110" using assms(1) L by (simp_all add: g1_def)
  note eq = grant_of_allocation [OF plain_allocation [OF assms(1,2) N assms(4,5,6), folded g1_def] this refl refl]
  show ?thesis
    unfolding eq using ul_fill_ra_mcs_ok [of dci L "pusch_last_tb grant" "pusch_tb grant"]
    by (simp add: g1_def nt)
qed

theorem ul_allocation_exact_witness:
  "\<exists>g. srsran_ra_ul_dci_to_grant example_cell example_ul_sf example_hopping example_dci_ul zero_pusch_grant = Some (0, g) \<and>
     L_prb g = 4 \<and> n_prb g = [3, 3]"
  using ul_allocation_exact [of 4 3 example_cell example_dci_ul zero_pusch_grant] example_dci_ul_riv(1,2)
  by (auto simp: example_cell_def zero_pusch_grant_def)

text \<open>The offset of the second slot in TS 36.213 8.4.1, over the \<open>p\<close> blocks between the \<open>h\<close> blocks at the edges.\<close>

definition ref_type1_prb :: "freq_hop_fl_t \<Rightarrow> nat \<Rightarrow> nat \<Rightarrow> nat \<Rightarrow> int" where
  "ref_type1_prb fl p h S =
     (int S - int h + (case fl of SRSRAN_RA_PUSCH_HOP_QUART \<Rightarrow> int (p div 4) | SRSRAN_RA_PUSCH_HOP_QUART_NEG \<Rightarrow> - int (p div 4)
        | _ \<Rightarrow> int (p div 2))) mod int p + int h"

lemma int_mod_once: "0 \<le> x \<Longrightarrow> x < 2 * p \<Longrightarrow> x mod p = (if x < p then x else x - p)" for x p :: int
proof (cases "x < p")
  case False
  assume "0 \<le> x" "x < 2 * p"
  then have "(x - p) mod p = x - p" using False by (intro mod_pos_pos_trivial) simp_all
  then show ?thesis using False by (simp only: minus_mod_self2 if_False)
qed (simp add: mod_pos_pos_trivial)

lemma int_mod_neg: "- p \<le> x \<Longrightarrow> x < p \<Longrightarrow> x mod p = (if 0 \<le> x then x else x + p)" for x p :: int
proof (cases "0 \<le> x")
  case False
  assume "- p \<le> x" "x < p"
  then have "(x + p) mod p = x + p" using False by (intro mod_pos_pos_trivial) simp_all
  then show ?thesis using False by (simp only: mod_add_self2 if_False)
qed (simp add: mod_pos_pos_trivial)

lemma type1_second_prb_ref:
  assumes m: "fl = SRSRAN_RA_PUSCH_HOP_QUART \<and> m = (p div 4 + S) mod p \<or>
     fl = SRSRAN_RA_PUSCH_HOP_QUART_NEG \<and> m = (if S < p div 4 then p + S - p div 4 else S - p div 4) \<or>
     fl = SRSRAN_RA_PUSCH_HOP_HALF \<and> m = (p div 2 + S) mod p"
    and S: "h \<le> S" "S < p + h" "h \<le> p"
  shows "int m = (if m < h then ref_type1_prb fl p h S - int p else ref_type1_prb fl p h S)"
proof -
  obtain x where x: "S = x + h" "x < p" using S by (metis add.commute add_less_cancel_right le_Suc_ex)
  have up: "int m = (if m < h then (int x + int a) mod int p + int h - int p else (int x + int a) mod int p + int h)"
    if "m = (a + S) mod p" "a \<le> p" for a
  proof -
    have r: "(int x + int a) mod int p = (if x + a < p then int x + int a else int x + int a - int p)"
      using int_mod_once [of "int x + int a" "int p"] that(2) x by auto
    have "int m = (int x + int a + int h) mod int p" using that(1) x by (simp add: zmod_int ac_simps)
    also have "\<dots> = ((int x + int a) mod int p + int h) mod int p" by (simp add: mod_simps)
    also have "\<dots> = (if (int x + int a) mod int p + int h < int p then (int x + int a) mod int p + int h
        else (int x + int a) mod int p + int h - int p)"
      using S(3) x(2) that(2) unfolding r by (intro int_mod_once) auto
    finally show ?thesis unfolding r using x(2) S(3) that(2) by (auto split: if_splits)
  qed
  have down: "(int x - int (p div 4)) mod int p = (if p div 4 \<le> x then int x - int (p div 4) else int x - int (p div 4) + int p)"
    using int_mod_neg [of "int p" "int x - int (p div 4)"] x(2) by auto
  have q: "p div 4 \<le> p" "p div 2 \<le> p" by simp_all
  from m show ?thesis
  proof (elim disjE conjE)
    assume "fl = SRSRAN_RA_PUSCH_HOP_QUART" "m = (p div 4 + S) mod p"
    then show ?thesis using up [of "p div 4"] q x by (simp add: ref_type1_prb_def)
  next
    assume "fl = SRSRAN_RA_PUSCH_HOP_HALF" "m = (p div 2 + S) mod p"
    then show ?thesis using up [of "p div 2"] q x by (simp add: ref_type1_prb_def)
  next
    assume "fl = SRSRAN_RA_PUSCH_HOP_QUART_NEG" and m: "m = (if S < p div 4 then p + S - p div 4 else S - p div 4)"
    then have "ref_type1_prb fl p h S = (int x - int (p div 4)) mod int p + int h" by (simp add: ref_type1_prb_def x)
    then show ?thesis unfolding down m x(1) using q(1) x(2) by (auto simp: of_nat_diff)
  qed
qed

text \<open>
  C30: Type 1 hopping keeps the first slot and moves the second by a quarter of the hopping range up or down or
  by half of it, as TS 36.213 8.4.1 says, except that the code does not take the block relative to the
  range: when the moved block wraps, it can fall on the blocks at the lower edge, reserved for the
  control channel, where the standard has it at the other end of the range.
\<close>
theorem ul_type1_hopping:
  assumes run: "ra_ul_grant_to_grant_prb_allocation dci grant ho N = Some (0, g)"
    and riv: "riv (ul_type2_alloc dci) = srsran_ra_type2_to_riv L S N" and SL: "0 < L" "S + L \<le> N" "N < 2 ^ 15"
    and fl: "freq_hop_fl dci \<noteq> SRSRAN_RA_PUSCH_HOP_DISABLED" "freq_hop_fl dci \<noteq> SRSRAN_RA_PUSCH_HOP_TYPE2"
    and range: "ho + 2 \<le> N" "S < hop_range N ho + even_offset ho div 2" "even_offset ho div 2 \<le> hop_range N ho"
    and len: "length (n_prb grant) = 2"
  shows "n_prb g ! 0 = S \<and> even_offset ho div 2 \<le> S \<and> n_prb g ! 1 + L \<le> N \<and>
    (let ref = ref_type1_prb (freq_hop_fl dci) (hop_range N ho) (even_offset ho div 2) S in
     int (n_prb g ! 1) = (if n_prb g ! 1 < even_offset ho div 2 then ref - int (hop_range N ho) else ref))"
proof -
  have fits: "codec_size N N" using SL by (simp add: codec_size_def)
  have "riv.decodable N N S L" using SL by (simp add: riv.decodable_def)
  then have LS: "srsran_ra_type2_from_riv (srsran_ra_type2_to_riv L S N) N N = (L, S)"
    using riv.dec_enc [OF fits, of S L] by (cases "srsran_ra_type2_from_riv (srsran_ra_type2_to_riv L S N) N N") simp
  note e = hop_range_eq [OF range(1) SL(3)]
  have nohop: "\<not> (freq_hop_fl dci = SRSRAN_RA_PUSCH_HOP_DISABLED \<or> freq_hop_fl dci = SRSRAN_RA_PUSCH_HOP_TYPE2)"
    using fl by simp
  obtain a0 a1 where np: "n_prb grant = [a0, a1]" using len by (auto simp: numeral_2_eq_2 length_Suc_conv)
  note run = run [unfolded ra_ul_grant_to_grant_prb_allocation_def riv LS Let_def prod.case if_not_P [OF nohop] e(2)]
  have h: "even_offset ho div 2 \<le> S" using run by (auto split: if_splits)
  obtain m where m: "type1_second_prb (freq_hop_fl dci) (hop_range N ho) S = Some m"
    using run by (auto split: if_splits bind_splits)
  have S: "S < 2 ^ 15" using SL by linarith
  note t = type1_second_prb_eq [OF e(4) S m]
  have "add32 m L = m + L" using t SL by (simp add: add32_small)
  then have g: "n_prb g ! 0 = S" "n_prb g ! 1 = m" "m + L \<le> N"
    using run h unfolding m by (auto simp: np split: if_splits)
  have "int m = (if m < even_offset ho div 2 then ref_type1_prb (freq_hop_fl dci) (hop_range N ho) (even_offset ho div 2) S - int (hop_range N ho)
      else ref_type1_prb (freq_hop_fl dci) (hop_range N ho) (even_offset ho div 2) S)"
    using t by (intro type1_second_prb_ref h range) blast
  then show ?thesis using g h by (simp add: Let_def)
qed

theorem ul_type1_hopping_witness:
  "\<exists>g. ra_ul_grant_to_grant_prb_allocation (example_dci_ul\<lparr>ul_type2_alloc := zero_type2\<lparr>riv := 86\<rparr>,
       freq_hop_fl := SRSRAN_RA_PUSCH_HOP_HALF\<rparr>) zero_pusch_grant 4 25 = Some (0, g) \<and>
     n_prb g ! 1 = 1 \<and> ref_type1_prb SRSRAN_RA_PUSCH_HOP_HALF 20 2 11 = 21"
proof -
  let ?dci = "example_dci_ul\<lparr>ul_type2_alloc := zero_type2\<lparr>riv := 86\<rparr>, freq_hop_fl := SRSRAN_RA_PUSCH_HOP_HALF\<rparr>"
  have e: "even_offset 4 = 4" "hop_range 25 4 = 20" by (simp_all add: even_offset_def hop_range_def)
  have run: "\<exists>g. ra_ul_grant_to_grant_prb_allocation ?dci zero_pusch_grant 4 25 = Some (0, g)"
    by (simp add: ra_ul_grant_to_grant_prb_allocation_def srsran_ra_type2_from_riv_def type1_second_prb_def even_offset_def
        zero_pusch_grant_def add32_def sub32_def)
  then obtain g where g: "ra_ul_grant_to_grant_prb_allocation ?dci zero_pusch_grant 4 25 = Some (0, g)" by blast
  have "n_prb g ! 0 = 11 \<and> even_offset 4 div 2 \<le> 11 \<and> n_prb g ! 1 + 4 \<le> 25 \<and>
      (let ref = ref_type1_prb (freq_hop_fl ?dci) (hop_range 25 4) (even_offset 4 div 2) 11 in
       int (n_prb g ! 1) = (if n_prb g ! 1 < even_offset 4 div 2 then ref - int (hop_range 25 4) else ref))"
    by (rule ul_type1_hopping [OF g])
      (simp_all add: e zero_pusch_grant_def srsran_ra_type2_to_riv_def sub32_def add32_def mul32_def)
  then have "n_prb g ! 1 \<le> 21" and
    m: "int (n_prb g ! 1) = (if n_prb g ! 1 < 2 then ref_type1_prb SRSRAN_RA_PUSCH_HOP_HALF 20 2 11 - 20
      else ref_type1_prb SRSRAN_RA_PUSCH_HOP_HALF 20 2 11)"
    by (simp_all add: e Let_def)
  moreover have "ref_type1_prb SRSRAN_RA_PUSCH_HOP_HALF 20 2 11 = 21" by (simp add: ref_type1_prb_def)
  moreover have "n_prb g ! 1 = 1"
    using g by (auto simp: ra_ul_grant_to_grant_prb_allocation_def srsran_ra_type2_from_riv_def type1_second_prb_def
        even_offset_def zero_pusch_grant_def add32_def sub32_def)
  ultimately show ?thesis using g by blast
qed

text \<open>
  C31: Type 2 hopping over several subbands has no defined result. The loop of \<open>f_hop_sum\<close> steps \<open>i\<close> where it
  means \<open>k\<close>, so its second pass shifts by \<open>2 ^ 32 - 10\<close>; and since the bound grows with \<open>i\<close> the loop does not end
  before \<open>i\<close> has come near \<open>2 ^ 32 / 10\<close>. Every index of a slot or subframe reaches the loop.
\<close>
theorem ul_type2_hopping_undefined:
  assumes "hopping_enabled hopping" "freq_hopping grant = 2" "n_sb hopping \<noteq> 1" "ul_tti sf < 10240"
  shows "srsran_ra_ul_pusch_hopping q sf hopping grant = None \<and>
    (\<forall>i < 10. f_hop_sum q i = None \<and>
      (\<forall>m < 429496718. add32 (mul32 i 10) 1 < add32 (mul32 (add32 i m) 10) 9))"
proof -
  have loop: "f_hop_sum q i = None" if "i < 10" for i
  proof -
    define k where "k = add32 (mul32 i 10) 1"
    have k: "k < i * 10 + 9" "k < i * 10 + 19" "add32 (mul32 i 10) 9 = i * 10 + 9" "add32 (mul32 (add32 i 1) 10) 9 = i * 10 + 19"
      "sub32 k (add32 (mul32 i 10) 1) = 0"
      using that by (simp_all add: k_def add32_small mul32_small sub32_def)
    have s: "sub32 k (add32 (mul32 (add32 i 1) 10) 1) = 2 ^ 32 - 10"
      unfolding sub32_next_shift k(5) by simp
    show ?thesis
      unfolding f_hop_sum_def k_def [symmetric]
      by (subst f_hop_sum_loop.simps, subst f_hop_sum_loop.simps) (simp add: k s Let_def del: One_nat_def)
  qed
  have guard: "add32 (mul32 i 10) 1 < add32 (mul32 (add32 i m) 10) 9" if "i < 10" "m < 429496718" for i m
    using that by (simp add: add32_small mul32_small)
  have hop: "f_hop q hopping (Suc i) = None" if "i < 10" for i
    using that loop assms(3) by (simp split: bind_splits)
  have "hop_index sf hopping slot < 10" if "slot < 2" for slot
  proof -
    have "mul32 2 (ul_tti sf) mod 10 = 2 * (ul_tti sf mod 5)"
      using assms(4) by (simp add: mul32_small mult_mod_right)
    moreover have "ul_tti sf mod 5 < 5" by simp
    ultimately have "mul32 2 (ul_tti sf) mod 10 + slot < 10" using that by linarith
    then show ?thesis by (simp add: hop_index_def)
  qed
  then have "slot_prb_tilde q sf hopping grant 0 = None"
    using assms(2) hop by (simp add: slot_prb_tilde_def type2_prb_tilde_def Let_def)
  then have "srsran_ra_ul_pusch_hopping q sf hopping grant = None"
    using assms(1) by (simp add: srsran_ra_ul_pusch_hopping_def compute_freq_hopping_def numeral_2_eq_2)
  then show ?thesis using loop guard by blast
qed

theorem ul_type2_hopping_undefined_witness:
  "srsran_ra_ul_pusch_hopping example_hop example_ul_sf
     (example_hopping\<lparr>n_sb := 4\<rparr>) (zero_pusch_grant\<lparr>freq_hopping := 2\<rparr>) = None"
  using ul_type2_hopping_undefined [of "example_hopping\<lparr>n_sb := 4\<rparr>" "zero_pusch_grant\<lparr>freq_hopping := 2\<rparr>"
      example_ul_sf example_hop]
  by (simp add: example_hopping_def example_ul_sf_def)

text \<open>
  Type 2 hopping within one band mirrors the start of the allocation in the slots or transmissions that hop,
  as TS 36.211 5.3.4 does for a single block, but the other ones move one block down, and from block 0 to
  the last one, where the standard leaves them: the term \<open>n_rb_sb - 1\<close> is not multiplied by \<open>f_m\<close>.
\<close>
theorem ul_type2_hopping_one_band:
  assumes "hopping_enabled hopping" "freq_hopping grant = 2" "n_sb hopping = 1"
    and N: "nof_prb (hop_cell q) = N" "N < 2 ^ 15" "n_prb grant ! 0 = n" "n < N"
    and "length (n_prb_tilde grant) = 2" "ul_tti sf < 10240"
  shows "srsran_ra_ul_pusch_hopping q sf hopping grant = Some (grant\<lparr>n_prb_tilde := map (\<lambda>slot.
      if (if hop_mode hopping = SRSRAN_PUSCH_HOP_MODE_INTER_SF then odd (current_tx_nb hopping) else slot = 1)
      then N - 1 - n else (n + N - 1) mod N) [0, 1 :: nat]\<rparr>)"
proof -
  obtain u v where nt: "n_prb_tilde grant = [u, v]" using assms(8) by (auto simp: numeral_2_eq_2 length_Suc_conv)
  have i: "hop_index sf hopping slot mod 2 = slot mod 2" if "hop_mode hopping \<noteq> SRSRAN_PUSCH_HOP_MODE_INTER_SF" for slot
    using that assms(9) by (simp add: hop_index_def mul32_small mod_add_left_eq [symmetric] mod_mod_cancel)
  define hops where "hops slot \<longleftrightarrow> (if hop_mode hopping = SRSRAN_PUSCH_HOP_MODE_INTER_SF then odd (current_tx_nb hopping) else slot = 1)"
    for slot :: nat
  have m: "f_m q hopping (hop_index sf hopping slot) (current_tx_nb hopping) = of_bool (hops slot)" if "slot < 2" for slot
    using less_2_cases [OF that] i [of slot] assms(3) by (auto simp: f_m_def hops_def mod2_eq_if split: if_splits)
  have N0: "0 < N" using N(4) by simp
  have s: "sub32 (n + (N - 1)) (2 * n) = N - 1 - n" "sub32 (n + (N - 1)) 0 = n + (N - 1)"
    using N(2,4) by (simp_all add: sub32_le)
  have t: "type2_prb_tilde q sf hopping grant slot = Some (if hops slot then N - 1 - n else (n + N - 1) mod N)" if "slot < 2" for slot
  proof -
    have f: "f_hop q hopping (hop_index sf hopping slot + 1) = Some 0" "n_sb hopping > 1 \<longleftrightarrow> False" "hop_n_rb_sb q hopping = N"
      using assms(3) by (simp_all add: hop_n_rb_sb_def N(1))
    have "mul32 N 1 = N" "mul32 0 N = 0" "add32 n 0 = n" "add32 n (sub32 N 1) = n + (N - 1)"
      "mul32 (mul32 2 (n mod N)) (of_bool (hops slot)) = (if hops slot then 2 * n else 0)"
      using N0 N(2,4) by (simp_all add: add32_small mul32_small sub32_le)
    then show ?thesis
      using N0 N(4) s unfolding type2_prb_tilde_def Let_def f m [OF that] N(3) assms(3) by simp
  qed
  have "slot_prb_tilde q sf hopping g slot = Some (if hops slot then N - 1 - n else (n + N - 1) mod N)"
    if "slot < 2" "freq_hopping g = 2" "n_prb g = n_prb grant" for slot g
  proof -
    have "type2_prb_tilde q sf hopping g slot = type2_prb_tilde q sf hopping grant slot"
      by (simp only: type2_prb_tilde_def that(3))
    then show ?thesis using t [OF that(1)] that(2) by (simp add: slot_prb_tilde_def)
  qed
  then show ?thesis
    using assms(1,2) by (simp add: srsran_ra_ul_pusch_hopping_def compute_freq_hopping_def numeral_2_eq_2 nt hops_def)
qed

theorem ul_type2_hopping_one_band_witness:
  "srsran_ra_ul_pusch_hopping example_hop example_ul_sf example_hopping (zero_pusch_grant\<lparr>freq_hopping := 2\<rparr>) = Some (zero_pusch_grant\<lparr>freq_hopping := 2, n_prb_tilde := [24, 24]\<rparr>)"
  by (subst ul_type2_hopping_one_band [where N = 25 and n = 0])
    (simp_all add: example_hopping_def example_cell_def zero_pusch_grant_def example_hop_def example_ul_sf_def)

text \<open>
  The initialisation generates the Gold sequence of the cell once. Called again for the same cell it does
  nothing and returns \<open>SRSRAN_ERROR_INVALID_INPUTS\<close>, though it is documented as callable several times; and
  since the object is marked before the sequence is generated, this is so after a failure, too: a second
  attempt does not generate the sequence.
\<close>
theorem pusch_hopping_init_once:
  assumes "seq_inv (seq_type2_fo q)" "\<not> (hop_initialized q \<and> cell_id cell = cell_id (hop_cell q))"
  shows "let (q', r) = srsran_ra_ul_pusch_hopping_init mem q cell in
    hop_cell q' = cell \<and> seq_inv (seq_type2_fo q') \<and>
    (r = 0 \<and> holds_gold (seq_type2_fo q') (of_nat (cell_id cell)) \<and> sc_cur_len (seq_type2_fo q') = 210 \<or>
     r = -1 \<and> \<not> (\<forall>k < 5. mem k)) \<and>
    srsran_ra_ul_pusch_hopping_init mem' q' cell = (q', -2)"
proof -
  obtain s r where run: "srsran_sequence_LTE_pr mem (seq_type2_fo q) 210 (of_nat (cell_id cell)) = (s, r)" by fastforce
  show ?thesis
    using assms(2) LTE_pr_holds_gold [OF assms(1) run]
    by (auto simp: srsran_ra_ul_pusch_hopping_init_def run)
qed

theorem pusch_hopping_init_once_witness:
  "let (q', r) = srsran_ra_ul_pusch_hopping_init (\<lambda>k. k \<noteq> 2)
       example_hop example_cell in
   srsran_ra_ul_pusch_hopping_init (\<lambda>k. True) q' example_cell = (q', -2)"
proof -
  have "seq_inv (seq_type2_fo example_hop)" by (simp add: seq_inv_def example_hop_def ceil_div_def)
  moreover have "\<not> (hop_initialized example_hop \<and> cell_id example_cell = cell_id (hop_cell example_hop))"
    by (simp add: example_hop_def)
  ultimately have init: "seq_inv (seq_type2_fo example_hop)"
    "\<not> (hop_initialized example_hop \<and> cell_id example_cell = cell_id (hop_cell example_hop))" .
  from pusch_hopping_init_once [OF init, of "\<lambda>k. k \<noteq> 2" "\<lambda>k. True"] show ?thesis
    by (simp add: split_beta)
qed

end
