(* ===== verification/Dci_Size.thy ===== *)
theory Dci_Size
  imports Phy_Types
begin

text \<open>
  Downlink control information, the first part of \<open>lib/src/phy/phch/dci.c\<close>: the structures of \<open>phch/dci.h\<close>,
  the payload sizes of all formats (TS 36.212 5.3.3.1) and the small operations on locations and formats
  at the end of the file. A pointer to the subframe or the configuration that may be \<open>NULL\<close> is an
  option. \<open>ceilf\<close> and \<open>log2f\<close> are applied to integers of at most 13 bits, where single precision is exact
  enough to give the integer functions \<open>ceil_div\<close> and \<open>ceil_log2\<close>.
\<close>

section \<open>Structures\<close>

record srsran_dci_cfg_t =
  multiple_csi_request_enabled :: bool
  cif_enabled :: bool
  cfg_cif_present :: bool
  srs_request_enabled :: bool
  ra_format_enabled :: bool
  is_not_ue_ss :: bool

record srsran_dci_msg_t =
  msg_payload :: "u8 list"
  msg_nof_bits :: nat
  msg_location :: srsran_dci_location_t
  msg_format :: srsran_dci_format_t
  msg_rnti :: nat

abbreviation (input) SRSRAN_DCI_MAX_BITS :: nat where "SRSRAN_DCI_MAX_BITS \<equiv> 128"

definition zero_dci_cfg :: srsran_dci_cfg_t where
  "zero_dci_cfg = \<lparr>multiple_csi_request_enabled = False, cif_enabled = False, cfg_cif_present = False,
     srs_request_enabled = False, ra_format_enabled = False, is_not_ue_ss = False\<rparr>"

definition zero_dl_sf :: srsran_dl_sf_cfg_t where
  "zero_dl_sf = \<lparr>tdd_config = \<lparr>sf_config = 0, ss_config = 0, configured = False\<rparr>, tti = 0, cfi = 0,
     sf_type = SRSRAN_SF_NORM, non_mbsfn_region = 0\<rparr>"

definition sf_or_zero :: "srsran_dl_sf_cfg_t option \<Rightarrow> srsran_dl_sf_cfg_t" where
  "sf_or_zero sf = (case sf of None \<Rightarrow> zero_dl_sf | Some s \<Rightarrow> s)"

definition cfg_or_zero :: "srsran_dci_cfg_t option \<Rightarrow> srsran_dci_cfg_t" where
  "cfg_or_zero cfg = (case cfg of None \<Rightarrow> zero_dci_cfg | Some c \<Rightarrow> c)"

section \<open>Payload sizes\<close>

definition IS_TDD :: "srsran_cell_t \<Rightarrow> bool" where
  "IS_TDD cell \<longleftrightarrow> frame_type cell = SRSRAN_TDD"

definition IS_TDD_CFG0 :: "srsran_cell_t \<Rightarrow> srsran_dl_sf_cfg_t \<Rightarrow> bool" where
  "IS_TDD_CFG0 cell sf \<longleftrightarrow> IS_TDD cell \<and> sf_config (tdd_config sf) = 0"

definition HARQ_PID_LEN :: "srsran_cell_t \<Rightarrow> srsran_dl_sf_cfg_t \<Rightarrow> nat" where
  "HARQ_PID_LEN cell sf = (if IS_TDD cell \<or> IS_TDD_CFG0 cell sf then 4 else 3)"

definition riv_nbits :: "nat \<Rightarrow> nat" where
  "riv_nbits N = ceil_log2 (N * (N + 1) div 2)"

definition ambiguous_sizes :: "nat list" where
  "ambiguous_sizes = [12, 14, 16, 20, 24, 26, 32, 40, 44, 56]"

definition is_ambiguous_size :: "nat \<Rightarrow> bool" where
  "is_ambiguous_size n \<longleftrightarrow> list_ex ((=) n) ambiguous_sizes"

text \<open>The loops \<open>while (n < m) n++\<close> and \<open>while (n == a || n == b || is_ambiguous_size(n)) n++\<close>.\<close>

function pad_size :: "nat \<Rightarrow> nat \<Rightarrow> nat" where
  "pad_size m n = (if n < m then pad_size m (n + 1) else n)"
  by auto
termination by (relation "measure (\<lambda>(m, n). m - n)") auto

function skip_sizes :: "nat list \<Rightarrow> nat \<Rightarrow> nat" where
  "skip_sizes others n = (if list_ex ((=) n) others \<or> is_ambiguous_size n then skip_sizes others (n + 1) else n)"
  by auto
termination
proof (relation "measure (\<lambda>(others, n). card {k \<in> set others \<union> set ambiguous_sizes. n \<le> k})")
  fix others n
  let ?above = "\<lambda>n. {k \<in> set others \<union> set ambiguous_sizes. n \<le> k}"
  assume "list_ex ((=) n) others \<or> is_ambiguous_size n"
  then have "n \<in> set others \<union> set ambiguous_sizes"
    unfolding is_ambiguous_size_def list_ex_iff by blast
  then have "n \<in> ?above n - ?above (n + 1)" by simp
  moreover have "?above (n + 1) \<subseteq> ?above n" by (rule Collect_mono) simp
  ultimately have "?above (n + 1) \<subset> ?above n" by blast
  then have "card (?above (n + 1)) < card (?above n)" by (rule psubset_card_mono [rotated]) simp
  then show "((others, n + 1), others, n) \<in> measure (\<lambda>(others, n). card {k \<in> set others \<union> set ambiguous_sizes. n \<le> k})"
    by (simp only: in_measure prod.case)
qed simp

declare pad_size.simps [simp del] skip_sizes.simps [simp del]

definition dci_format0_sizeof_raw :: "srsran_cell_t \<Rightarrow> srsran_dl_sf_cfg_t \<Rightarrow> srsran_dci_cfg_t \<Rightarrow> nat" where
  "dci_format0_sizeof_raw cell sf cfg =
     (if cif_enabled cfg then 3 else 0) + 1 + 1 + riv_nbits (nof_prb cell) + 5 + 1 + 2 + 3 +
     (if IS_TDD cell \<or> IS_TDD_CFG0 cell sf then 2 else 0) +
     (if multiple_csi_request_enabled cfg \<and> \<not> is_not_ue_ss cfg then 2 else 1) +
     (if srs_request_enabled cfg \<and> \<not> is_not_ue_ss cfg then 1 else 0) + 1"

definition dci_format1A_sizeof :: "srsran_cell_t \<Rightarrow> srsran_dl_sf_cfg_t \<Rightarrow> srsran_dci_cfg_t \<Rightarrow> nat" where
  "dci_format1A_sizeof cell sf cfg =
     (let n = (if cif_enabled cfg then 3 else 0) + 1 + 1 + riv_nbits (nof_prb cell) + 5 + HARQ_PID_LEN cell sf + 1 + 2 + 2 +
              (if IS_TDD cell then 2 else 0) + (if srs_request_enabled cfg then 1 else 0);
          n = pad_size (dci_format0_sizeof_raw cell sf cfg) n in
      if is_ambiguous_size n then n + 1 else n)"

definition dci_format0_sizeof :: "srsran_cell_t \<Rightarrow> srsran_dl_sf_cfg_t \<Rightarrow> srsran_dci_cfg_t \<Rightarrow> nat" where
  "dci_format0_sizeof cell sf cfg = pad_size (dci_format1A_sizeof cell sf cfg) (dci_format0_sizeof_raw cell sf cfg)"

text \<open>The number of resource block groups, \<open>ceilf((float)nof_prb / P)\<close>.\<close>

definition alloc_size :: "nat \<Rightarrow> nat" where
  "alloc_size N = ceil_div N (srsran_ra_type0_P N)"

definition dci_format1_sizeof :: "srsran_cell_t \<Rightarrow> srsran_dl_sf_cfg_t \<Rightarrow> srsran_dci_cfg_t \<Rightarrow> nat" where
  "dci_format1_sizeof cell sf cfg =
     (let n = alloc_size (nof_prb cell) + 5 + HARQ_PID_LEN cell sf + 1 + 2 + 2 + (if cif_enabled cfg then 3 else 0) +
              (if IS_TDD cell then 2 else 0);
          n = (if nof_prb cell > 10 then n + 1 else n) in
      skip_sizes [dci_format0_sizeof cell sf cfg, dci_format1A_sizeof cell sf cfg] n)"

definition dci_format1C_sizeof :: "srsran_cell_t \<Rightarrow> srsran_dl_sf_cfg_t \<Rightarrow> srsran_dci_cfg_t \<Rightarrow> nat" where
  "dci_format1C_sizeof cell sf cfg =
     (let n_vrb_dl_gap1 = srsran_ra_type2_n_vrb_dl (nof_prb cell) True;
          n_step = srsran_ra_type2_n_rb_step (nof_prb cell);
          n = riv_nbits (n_vrb_dl_gap1 div n_step) + 5 in
      if nof_prb cell \<ge> 50 then n + 1 else n)"

definition tpmi_bits :: "nat \<Rightarrow> nat" where
  "tpmi_bits ports = (if ports \<le> 2 then 2 else 4)"

definition dci_format1B_sizeof :: "srsran_cell_t \<Rightarrow> srsran_dl_sf_cfg_t \<Rightarrow> srsran_dci_cfg_t \<Rightarrow> nat" where
  "dci_format1B_sizeof cell sf cfg =
     (let n = (if cif_enabled cfg then 3 else 0) + 1 + riv_nbits (nof_prb cell) + 5 + HARQ_PID_LEN cell sf + 1 + 2 + 2 +
              (if IS_TDD cell then 2 else 0) + tpmi_bits (nof_ports cell) + 1 in
      skip_sizes [] (pad_size (dci_format0_sizeof_raw cell sf cfg) n))"

definition dci_format1D_sizeof :: "srsran_cell_t \<Rightarrow> srsran_dl_sf_cfg_t \<Rightarrow> srsran_dci_cfg_t \<Rightarrow> nat" where
  "dci_format1D_sizeof cell sf cfg = dci_format1B_sizeof cell sf cfg"

definition precoding_bits_f2 :: "nat \<Rightarrow> nat" where
  "precoding_bits_f2 ports = (if ports \<le> 2 then 3 else 6)"

definition dci_format2_sizeof :: "srsran_cell_t \<Rightarrow> srsran_dl_sf_cfg_t \<Rightarrow> srsran_dci_cfg_t \<Rightarrow> nat" where
  "dci_format2_sizeof cell sf cfg =
     (let n = alloc_size (nof_prb cell) + 2 + HARQ_PID_LEN cell sf + 1 + 2 * (5 + 1 + 2) + precoding_bits_f2 (nof_ports cell) +
              (if cif_enabled cfg then 3 else 0) + (if IS_TDD cell then 2 else 0) in
      skip_sizes [] (if nof_prb cell > 10 then n + 1 else n))"

definition precoding_bits_f2a :: "nat \<Rightarrow> nat" where
  "precoding_bits_f2a ports = (if ports \<le> 2 then 0 else 2)"

definition dci_format2A_sizeof :: "srsran_cell_t \<Rightarrow> srsran_dl_sf_cfg_t \<Rightarrow> srsran_dci_cfg_t \<Rightarrow> nat" where
  "dci_format2A_sizeof cell sf cfg =
     (let n = alloc_size (nof_prb cell) + 2 + HARQ_PID_LEN cell sf + 1 + 2 * (5 + 1 + 2) + precoding_bits_f2a (nof_ports cell) +
              (if cif_enabled cfg then 3 else 0) + (if IS_TDD cell then 2 else 0) in
      skip_sizes [] (if nof_prb cell > 10 then n + 1 else n))"

definition dci_format2B_sizeof :: "srsran_cell_t \<Rightarrow> srsran_dl_sf_cfg_t \<Rightarrow> srsran_dci_cfg_t \<Rightarrow> nat" where
  "dci_format2B_sizeof cell sf cfg =
     (let n = alloc_size (nof_prb cell) + 2 + HARQ_PID_LEN cell sf + 1 + 2 * (5 + 1 + 2) +
              (if cif_enabled cfg then 3 else 0) + (if IS_TDD cell then 2 else 0) in
      skip_sizes [] (if nof_prb cell > 10 then n + 1 else n))"

definition srsran_dci_format_sizeof ::
  "srsran_cell_t \<Rightarrow> srsran_dl_sf_cfg_t option \<Rightarrow> srsran_dci_cfg_t option \<Rightarrow> srsran_dci_format_t \<Rightarrow> nat" where
  "srsran_dci_format_sizeof cell sf cfg fmt =
     (let sf = sf_or_zero sf; cfg = cfg_or_zero cfg in
      case fmt of
        SRSRAN_DCI_FORMAT0 \<Rightarrow> dci_format0_sizeof cell sf cfg
      | SRSRAN_DCI_FORMAT1 \<Rightarrow> dci_format1_sizeof cell sf cfg
      | SRSRAN_DCI_FORMAT1A \<Rightarrow> dci_format1A_sizeof cell sf cfg
      | SRSRAN_DCI_FORMAT1C \<Rightarrow> dci_format1C_sizeof cell sf cfg
      | SRSRAN_DCI_FORMAT1B \<Rightarrow> dci_format1B_sizeof cell sf cfg
      | SRSRAN_DCI_FORMAT1D \<Rightarrow> dci_format1D_sizeof cell sf cfg
      | SRSRAN_DCI_FORMAT2 \<Rightarrow> dci_format2_sizeof cell sf cfg
      | SRSRAN_DCI_FORMAT2A \<Rightarrow> dci_format2A_sizeof cell sf cfg
      | SRSRAN_DCI_FORMAT2B \<Rightarrow> dci_format2B_sizeof cell sf cfg
      | _ \<Rightarrow> 0)"

section \<open>Locations and formats\<close>

fun srsran_location_find :: "srsran_dci_location_t list \<Rightarrow> srsran_dci_location_t \<Rightarrow> bool" where
  "srsran_location_find [] x = False"
| "srsran_location_find (l # ls) x = (if loc_L l = loc_L x \<and> loc_ncce l = loc_ncce x then True else srsran_location_find ls x)"

fun srsran_location_find_location :: "srsran_dci_location_t list \<Rightarrow> srsran_dci_location_t \<Rightarrow> bool" where
  "srsran_location_find_location [] x = False"
| "srsran_location_find_location (l # ls) x =
     (if loc_ncce l = loc_ncce x \<and> loc_L l = loc_L x then True else srsran_location_find_location ls x)"

definition srsran_dci_cfg_set_common_ss :: "srsran_dci_cfg_t \<Rightarrow> srsran_dci_cfg_t" where
  "srsran_dci_cfg_set_common_ss cfg = cfg\<lparr>is_not_ue_ss := True\<rparr>"

definition srsran_dci_location_set :: "srsran_dci_location_t \<Rightarrow> nat \<Rightarrow> nat \<Rightarrow> srsran_dci_location_t \<times> int" where
  "srsran_dci_location_set c L nCCE =
     (if L \<le> 3 then
        let c = c\<lparr>loc_L := L\<rparr> in
        if nCCE \<le> 87 then (c\<lparr>loc_ncce := nCCE\<rparr>, 0) else (c, -1)
      else (c, -1))"

definition srsran_dci_location_isvalid :: "srsran_dci_location_t \<Rightarrow> bool" where
  "srsran_dci_location_isvalid c \<longleftrightarrow> loc_L c \<le> 3 \<and> loc_ncce c \<le> 87"

definition srsran_dci_format_from_string :: "string \<Rightarrow> srsran_dci_format_t" where
  "srsran_dci_format_from_string str =
     (if str = ''Format0'' then SRSRAN_DCI_FORMAT0
      else if str = ''Format1'' then SRSRAN_DCI_FORMAT1
      else if str = ''Format1A'' then SRSRAN_DCI_FORMAT1A
      else if str = ''Format1B'' then SRSRAN_DCI_FORMAT1B
      else if str = ''Format1C'' then SRSRAN_DCI_FORMAT1C
      else if str = ''Format1D'' then SRSRAN_DCI_FORMAT1D
      else if str = ''Format2'' then SRSRAN_DCI_FORMAT2
      else if str = ''Format2A'' then SRSRAN_DCI_FORMAT2A
      else if str = ''Format2B'' then SRSRAN_DCI_FORMAT2B
      else if str = ''FormatN0'' then SRSRAN_DCI_FORMATN0
      else if str = ''FormatN1'' then SRSRAN_DCI_FORMATN1
      else if str = ''FormatN2'' then SRSRAN_DCI_FORMATN2
      else SRSRAN_DCI_NOF_FORMATS)"

fun srsran_dci_format_string :: "srsran_dci_format_t \<Rightarrow> string" where
  "srsran_dci_format_string SRSRAN_DCI_FORMAT0 = ''Format0 ''"
| "srsran_dci_format_string SRSRAN_DCI_FORMAT1 = ''Format1 ''"
| "srsran_dci_format_string SRSRAN_DCI_FORMAT1A = ''Format1A''"
| "srsran_dci_format_string SRSRAN_DCI_FORMAT1B = ''Format1B''"
| "srsran_dci_format_string SRSRAN_DCI_FORMAT1C = ''Format1C''"
| "srsran_dci_format_string SRSRAN_DCI_FORMAT1D = ''Format1D''"
| "srsran_dci_format_string SRSRAN_DCI_FORMAT2 = ''Format2 ''"
| "srsran_dci_format_string SRSRAN_DCI_FORMAT2A = ''Format2A''"
| "srsran_dci_format_string SRSRAN_DCI_FORMAT2B = ''Format2B''"
| "srsran_dci_format_string SRSRAN_DCI_FORMATN0 = ''FormatN0''"
| "srsran_dci_format_string SRSRAN_DCI_FORMATN1 = ''FormatN1''"
| "srsran_dci_format_string SRSRAN_DCI_FORMATN2 = ''FormatN2''"
| "srsran_dci_format_string _ = ''N/A''"

fun srsran_dci_format_string_short :: "srsran_dci_format_t \<Rightarrow> string" where
  "srsran_dci_format_string_short SRSRAN_DCI_FORMAT0 = ''0''"
| "srsran_dci_format_string_short SRSRAN_DCI_FORMAT1 = ''1''"
| "srsran_dci_format_string_short SRSRAN_DCI_FORMAT1A = ''1A''"
| "srsran_dci_format_string_short SRSRAN_DCI_FORMAT1B = ''1B''"
| "srsran_dci_format_string_short SRSRAN_DCI_FORMAT1C = ''1C''"
| "srsran_dci_format_string_short SRSRAN_DCI_FORMAT1D = ''1D''"
| "srsran_dci_format_string_short SRSRAN_DCI_FORMAT2 = ''2''"
| "srsran_dci_format_string_short SRSRAN_DCI_FORMAT2A = ''2A''"
| "srsran_dci_format_string_short SRSRAN_DCI_FORMAT2B = ''2B''"
| "srsran_dci_format_string_short _ = ''N/A''"

fun srsran_dci_format_max_tb :: "srsran_dci_format_t \<Rightarrow> nat" where
  "srsran_dci_format_max_tb SRSRAN_DCI_FORMAT2 = 2"
| "srsran_dci_format_max_tb SRSRAN_DCI_FORMAT2A = 2"
| "srsran_dci_format_max_tb SRSRAN_DCI_FORMAT2B = 2"
| "srsran_dci_format_max_tb SRSRAN_DCI_NOF_FORMATS = 0"
| "srsran_dci_format_max_tb _ = 1"

section \<open>Facts about sizes\<close>

lemma le_power_ceil_log2: "n \<le> 2 ^ ceil_log2 n"
proof (induction n rule: ceil_log2.induct)
  case (1 n)
  show ?case
  proof (cases "n \<le> 1")
    case True
    then show ?thesis by (simp add: ceil_log2.simps [of n])
  next
    case False
    with 1 have "n \<le> 2 * 2 ^ ceil_log2 ((n + 1) div 2)" by linarith
    then show ?thesis using False by (simp add: ceil_log2.simps [of n])
  qed
qed

lemma power_ceil_log2_less: "1 < n \<Longrightarrow> 2 ^ ceil_log2 n < 2 * n"
proof (induction n rule: ceil_log2.induct)
  case (1 n)
  then have eq: "ceil_log2 n = ceil_log2 ((n + 1) div 2) + 1" by (simp add: ceil_log2.simps [of n])
  show ?case
  proof (cases "n = 2")
    case True
    then show ?thesis by (simp add: ceil_log2.simps)
  next
    case False
    then have "1 < (n + 1) div 2" "\<not> n \<le> 1" using 1 by linarith+
    then have "2 ^ ceil_log2 ((n + 1) div 2) < 2 * ((n + 1) div 2)" using 1 by blast
    moreover have "even (2 ^ ceil_log2 ((n + 1) div 2) :: nat)"
      using \<open>1 < (n + 1) div 2\<close> by (subst ceil_log2.simps) simp
    ultimately have "2 ^ ceil_log2 ((n + 1) div 2) < n" using 1 by presburger
    then show ?thesis unfolding eq by simp
  qed
qed

lemma ceil_log2_le: "n \<le> 2 ^ k \<Longrightarrow> 0 < k \<Longrightarrow> ceil_log2 n \<le> k"
proof (cases "1 < n")
  case True
  assume "n \<le> 2 ^ k"
  then have "2 ^ ceil_log2 n < (2 :: nat) ^ Suc k" using power_ceil_log2_less [OF True] by simp
  then have "ceil_log2 n < Suc k" by (simp only: power_strict_increasing_iff one_less_numeral_iff semiring_norm)
  then show ?thesis by simp
qed (simp add: ceil_log2.simps)

text \<open>The field holds every indication value, the range of its values is less than twice as long.\<close>

lemma riv_fits: "v < N * (N + 1) div 2 \<Longrightarrow> v < 2 ^ riv_nbits N"
  using le_power_ceil_log2 [of "N * (N + 1) div 2"] by (simp add: riv_nbits_def)

lemma riv_field_range: "1 < N \<Longrightarrow> 2 ^ riv_nbits N < N * (N + 1)"
proof -
  assume "1 < N"
  then obtain m where N: "N = m + 2" by (metis add.commute less_eqE one_add_one add.assoc Suc_leI Suc_1)
  have e: "2 * (N * (N + 1) div 2) = N * (N + 1)" by (rule dvd_mult_div_cancel) simp
  have "2 < N * (N + 1)" unfolding N by simp
  then have "1 < N * (N + 1) div 2" using e by linarith
  from power_ceil_log2_less [OF this] show ?thesis unfolding riv_nbits_def e by simp
qed

lemma riv_nbits_le: "N \<le> 110 \<Longrightarrow> riv_nbits N \<le> 13"
proof -
  assume "N \<le> 110"
  then have "N * (N + 1) \<le> 110 * 111" by (intro mult_le_mono) simp_all
  then have "N * (N + 1) div 2 \<le> 2 ^ 13" by simp
  then show ?thesis unfolding riv_nbits_def by (rule ceil_log2_le) simp
qed

lemma pad_size_max [simp]: "pad_size m n = max m n"
  by (induction m n rule: pad_size.induct) (subst pad_size.simps, auto)

lemma skip_sizes_spec: "\<not> list_ex ((=) (skip_sizes others n)) others \<and> \<not> is_ambiguous_size (skip_sizes others n) \<and> n \<le> skip_sizes others n"
proof (induction others n rule: skip_sizes.induct)
  case (1 others n)
  then show ?case by (subst (1 2 3) skip_sizes.simps) (auto dest: Suc_leD)
qed

text \<open>No two ambiguous sizes follow each other, so that at most one size in two is skipped.\<close>

lemma ambiguous_cases:
  "is_ambiguous_size n \<longleftrightarrow> n = 12 \<or> n = 14 \<or> n = 16 \<or> n = 20 \<or> n = 24 \<or> n = 26 \<or> n = 32 \<or> n = 40 \<or> n = 44 \<or> n = 56"
  by (auto simp: is_ambiguous_size_def ambiguous_sizes_def)

lemma ambiguous_Suc: "is_ambiguous_size n \<Longrightarrow> \<not> is_ambiguous_size (n + 1)"
  by (auto simp: ambiguous_cases)

lemma skip_none: "skip_sizes [] n = (if is_ambiguous_size n then n + 1 else n)"
  using ambiguous_Suc [of n] by (simp add: skip_sizes.simps [of "[]" n] skip_sizes.simps [of "[]" "Suc n"])

lemma skip_sizes_le: "skip_sizes others n \<le> n + (length others + 10)"
proof -
  let ?bad = "set others \<union> set ambiguous_sizes"
  have run: "\<forall>k < m. n + k \<in> ?bad" if "m \<le> skip_sizes others n - n" for m
    using that
  proof (induction others n arbitrary: m rule: skip_sizes.induct)
    case (1 others n)
    show ?case
    proof (cases "list_ex ((=) n) others \<or> is_ambiguous_size n")
      case True
      then have eq: "skip_sizes others n = skip_sizes others (n + 1)" by (subst skip_sizes.simps) (rule if_P)
      have n: "n \<in> set others \<union> set ambiguous_sizes"
        using True unfolding is_ambiguous_size_def list_ex_iff by blast
      have "\<forall>k < m - 1. n + 1 + k \<in> set others \<union> set ambiguous_sizes"
        using "1.prems" unfolding eq by (intro "1.IH" [OF True]) linarith
      then have up: "n + Suc k \<in> set others \<union> set ambiguous_sizes" if "Suc k < m" for k
        using that by (auto dest: spec [of _ k])
      show ?thesis
      proof (intro allI impI)
        fix k assume "k < m"
        then show "n + k \<in> set others \<union> set ambiguous_sizes" using n up by (cases k) auto
      qed
    next
      case False
      then have "skip_sizes others n = n" by (subst skip_sizes.simps) (rule if_not_P)
      then show ?thesis using "1.prems" by simp
    qed
  qed
  have "(+) n ` {..<skip_sizes others n - n} \<subseteq> ?bad" using run [of "skip_sizes others n - n"] by auto
  then have "card ((+) n ` {..<skip_sizes others n - n}) \<le> card ?bad" by (rule card_mono [rotated]) simp
  also have "\<dots> \<le> length others + 10"
    using card_Un_le [of "set others" "set ambiguous_sizes"] card_length [of others] card_length [of ambiguous_sizes]
    by (simp add: ambiguous_sizes_def)
  finally show ?thesis by (simp add: card_image)
qed

lemma alloc_size_le: "N \<le> 110 \<Longrightarrow> alloc_size N \<le> 28"
  by (auto simp: alloc_size_def srsran_ra_type0_P_def ceil_div_le_iff)

lemma format0_size: "dci_format0_sizeof cell sf cfg = dci_format1A_sizeof cell sf cfg"
  by (auto simp: dci_format0_sizeof_def dci_format1A_sizeof_def Let_def max_def)

text \<open>The written fields fit the size of the format.\<close>

lemma format_size_ge:
  "dci_format0_sizeof_raw cell sf cfg \<le> dci_format1A_sizeof cell sf cfg"
  "(if cif_enabled cfg then 3 else 0) + 1 + 1 + riv_nbits (nof_prb cell) + 5 + HARQ_PID_LEN cell sf + 1 + 2 + 2 +
     (if IS_TDD cell then 2 else 0) \<le> dci_format1A_sizeof cell sf cfg"
  "alloc_size (nof_prb cell) + 5 + HARQ_PID_LEN cell sf + 1 + 2 + 2 + (if cif_enabled cfg then 3 else 0) +
     (if IS_TDD cell then 2 else 0) + (if nof_prb cell > 10 then 1 else 0) \<le> dci_format1_sizeof cell sf cfg"
proof -
  have up: "(n :: nat) \<le> (if P then n + 1 else n)" for n P by simp
  show "dci_format0_sizeof_raw cell sf cfg \<le> dci_format1A_sizeof cell sf cfg"
    unfolding dci_format1A_sizeof_def Let_def pad_size_max by (rule le_trans [OF max.cobounded1 up])
  have "(if cif_enabled cfg then 3 else 0) + 1 + 1 + riv_nbits (nof_prb cell) + 5 + HARQ_PID_LEN cell sf + 1 + 2 + 2 +
      (if IS_TDD cell then 2 else 0) + (if srs_request_enabled cfg then 1 else 0) \<le> dci_format1A_sizeof cell sf cfg"
    unfolding dci_format1A_sizeof_def Let_def pad_size_max by (rule le_trans [OF max.cobounded2 up])
  then show "(if cif_enabled cfg then 3 else 0) + 1 + 1 + riv_nbits (nof_prb cell) + 5 + HARQ_PID_LEN cell sf + 1 + 2 + 2 +
      (if IS_TDD cell then 2 else 0) \<le> dci_format1A_sizeof cell sf cfg" by (rule add_leD1)
  have eq: "x + (if c then 1 else 0) = (if c then x + 1 else x)" for x :: nat and c by simp
  show "alloc_size (nof_prb cell) + 5 + HARQ_PID_LEN cell sf + 1 + 2 + 2 + (if cif_enabled cfg then 3 else 0) +
      (if IS_TDD cell then 2 else 0) + (if nof_prb cell > 10 then 1 else 0) \<le> dci_format1_sizeof cell sf cfg"
    unfolding dci_format1_sizeof_def Let_def eq
    by (rule skip_sizes_spec [THEN conjunct2, THEN conjunct2])
qed

lemma format_size_le:
  assumes "nof_prb cell \<le> 110"
  shows "srsran_dci_format_sizeof cell sf cfg fmt \<le> 64"
proof -
  note b = riv_nbits_le [OF assms] alloc_size_le [OF assms]
  have pid: "HARQ_PID_LEN cell s \<le> 4" for s by (simp add: HARQ_PID_LEN_def)
  have raw: "dci_format0_sizeof_raw cell s c \<le> 35" for s c
    using b by (simp add: dci_format0_sizeof_raw_def)
  have 1: "dci_format1A_sizeof cell s c \<le> 64" for s c
    using b raw [of s c] pid [of s] by (simp add: dci_format1A_sizeof_def Let_def)
  have 2: "dci_format1_sizeof cell s c \<le> 64" for s c
    using b pid [of s] skip_sizes_le [of "[dci_format0_sizeof cell s c, dci_format1A_sizeof cell s c]"
        "alloc_size (nof_prb cell) + 5 + HARQ_PID_LEN cell s + 1 + 2 + 2 + (if cif_enabled c then 3 else 0) +
         (if IS_TDD cell then 2 else 0) + (if nof_prb cell > 10 then 1 else 0)"]
    by (auto simp: dci_format1_sizeof_def Let_def)
  have 3: "dci_format1B_sizeof cell s c \<le> 64" for s c
    using b raw [of s c] pid [of s] by (auto simp: dci_format1B_sizeof_def skip_none tpmi_bits_def Let_def)
  have 4: "dci_format2_sizeof cell s c \<le> 64" "dci_format2A_sizeof cell s c \<le> 64" "dci_format2B_sizeof cell s c \<le> 64" for s c
    using b pid [of s]
    by (auto simp: dci_format2_sizeof_def dci_format2A_sizeof_def dci_format2B_sizeof_def skip_none
        precoding_bits_f2_def precoding_bits_f2a_def ambiguous_cases Let_def)
  have "srsran_ra_type2_n_vrb_dl (nof_prb cell) True div srsran_ra_type2_n_rb_step (nof_prb cell) \<le> 110"
  proof -
    have "srsran_ra_type2_ngap (nof_prb cell) True \<le> 48"
      using assms by (auto simp: srsran_ra_type2_ngap_def)
    then have "srsran_ra_type2_n_vrb_dl (nof_prb cell) True \<le> 96"
      by (auto simp: srsran_ra_type2_n_vrb_dl_def Let_def)
    then have "srsran_ra_type2_n_vrb_dl (nof_prb cell) True \<le> 110" by simp
    with div_le_dividend show ?thesis by (rule le_trans)
  qed
  from riv_nbits_le [OF this] have 5: "dci_format1C_sizeof cell s c \<le> 64" for s c
    by (simp add: dci_format1C_sizeof_def Let_def)
  show ?thesis
    using 1 2 3 4 5
    by (cases fmt) (simp_all add: srsran_dci_format_sizeof_def format0_size dci_format1D_sizeof_def Let_def)
qed

section \<open>Properties\<close>

text \<open>
  C13: The payload sizes keep formats 0, 1A and 1 apart, as TS 36.212 5.3.3.1 asks: formats 0 and 1A, which a bit in
  the payload distinguishes, have the same size; format 1 has another one; no format but 1C has an ambiguous
  size, for every cell and configuration. Every payload fits its buffer. That formats 1B and 1D differ from
  format 1A in size is not claimed.
\<close>
theorem dci_sizes:
  assumes "nof_prb cell \<le> 110"
  shows "srsran_dci_format_sizeof cell sf cfg SRSRAN_DCI_FORMAT0 = srsran_dci_format_sizeof cell sf cfg SRSRAN_DCI_FORMAT1A \<and>
    srsran_dci_format_sizeof cell sf cfg SRSRAN_DCI_FORMAT1 \<noteq> srsran_dci_format_sizeof cell sf cfg SRSRAN_DCI_FORMAT1A \<and>
    (\<forall>f. f \<noteq> SRSRAN_DCI_FORMAT1C \<longrightarrow> \<not> is_ambiguous_size (srsran_dci_format_sizeof cell sf cfg f)) \<and>
    (\<forall>f. srsran_dci_format_sizeof cell sf cfg f \<le> SRSRAN_DCI_MAX_BITS)"
proof -
  let ?s = "sf_or_zero sf" and ?c = "cfg_or_zero cfg"
  note spec = skip_sizes_spec [of "[dci_format0_sizeof cell ?s ?c, dci_format1A_sizeof cell ?s ?c]"]
  have 1: "dci_format1_sizeof cell ?s ?c \<noteq> dci_format1A_sizeof cell ?s ?c" "\<not> is_ambiguous_size (dci_format1_sizeof cell ?s ?c)"
    using spec by (auto simp: dci_format1_sizeof_def Let_def)
  have 2: "\<not> is_ambiguous_size (dci_format1A_sizeof cell ?s ?c)"
    using ambiguous_Suc by (simp add: dci_format1A_sizeof_def Let_def)
  have 3: "\<not> is_ambiguous_size (dci_format1B_sizeof cell ?s ?c)" "\<not> is_ambiguous_size (dci_format2_sizeof cell ?s ?c)"
    "\<not> is_ambiguous_size (dci_format2A_sizeof cell ?s ?c)" "\<not> is_ambiguous_size (dci_format2B_sizeof cell ?s ?c)"
    unfolding dci_format1B_sizeof_def dci_format2_sizeof_def dci_format2A_sizeof_def dci_format2B_sizeof_def Let_def
    by (rule skip_sizes_spec [THEN conjunct2, THEN conjunct1])+
  have "\<not> is_ambiguous_size (srsran_dci_format_sizeof cell sf cfg f)" if "f \<noteq> SRSRAN_DCI_FORMAT1C" for f
    using that 1 2 3
    by (cases f) (simp_all add: srsran_dci_format_sizeof_def format0_size dci_format1D_sizeof_def Let_def, simp_all add: ambiguous_cases)
  moreover have "srsran_dci_format_sizeof cell sf cfg f \<le> SRSRAN_DCI_MAX_BITS" for f
    using format_size_le [OF assms, of sf cfg f] by simp
  ultimately show ?thesis using 1 by (simp add: srsran_dci_format_sizeof_def format0_size Let_def)
qed

theorem dci_sizes_witness:
  "let cell = \<lparr>nof_prb = 50, nof_ports = 2, cell_id = 1, cell_cp = SRSRAN_CP_NORM, frame_type = SRSRAN_FDD\<rparr>;
       size1A = srsran_dci_format_sizeof cell None None SRSRAN_DCI_FORMAT1A in
   srsran_dci_format_sizeof cell None None SRSRAN_DCI_FORMAT0 = size1A \<and> \<not> is_ambiguous_size size1A \<and>
   srsran_dci_format_sizeof cell None None SRSRAN_DCI_FORMAT1 \<noteq> size1A"
  using dci_sizes [of "\<lparr>nof_prb = 50, nof_ports = 2, cell_id = 1, cell_cp = SRSRAN_CP_NORM, frame_type = SRSRAN_FDD\<rparr>" None None]
  by (simp add: Let_def)

end
