(* ===== verification/Bit_Fields.thy ===== *)
theory Bit_Fields
  imports Bit_Ops
begin

text \<open>
  Fields of up to 32 bits in arrays of unpacked bits, on numbers: what \<open>srsran_bit_unpack\<close> and \<open>srsran_bit_pack\<close> do
  where \<open>lib/src/phy/phch/dci.c\<close> and \<open>lib/src/phy/phch/cqi.c\<close> write and read fields one after the other.
\<close>

text \<open>\<open>srsran_bit_unpack(v, &y, n)\<close> and \<open>srsran_bit_pack(&y, n)\<close>, and \<open>*y++\<close> as a condition.\<close>

definition put_field :: "nat \<Rightarrow> nat \<Rightarrow> u8 list" where
  "put_field v n = srsran_bit_unpack (of_nat v) n"

definition get_field :: "u8 list \<Rightarrow> nat \<Rightarrow> nat \<times> u8 list" where
  "get_field y n = (let (v, y) = srsran_bit_pack y n in (unat v, y))"

definition get_flag :: "u8 list \<Rightarrow> bool \<times> u8 list" where
  "get_flag y = (hd y \<noteq> 0, tl y)"

section \<open>Reading what was written\<close>

named_theorems field_read \<open>reading a field that was just written\<close>

lemma get_put_field [field_read]: "n \<le> 32 \<Longrightarrow> get_field (put_field v n @ rest) n = (v mod 2 ^ n, rest)"
proof -
  assume n: "n \<le> 32"
  have "unat (take_bit n (of_nat v :: u32)) = v mod 2 ^ 32 mod 2 ^ n"
    by (simp add: unat_take_bit_word unat_of_nat)
  also have "\<dots> = v mod 2 ^ n" using n by (intro mod_mod_cancel le_imp_power_dvd)
  finally show ?thesis using n by (simp add: get_field_def put_field_def bit32.get_put)
qed

lemma length_put_field [simp]: "length (put_field v n) = n"
  by (simp add: put_field_def bit32.length_put)

lemma get_flag_bits [field_read]:
  "get_flag (bit_of b # rest) = (b, rest)" "get_flag (0 # rest) = (False, rest)" "get_flag (1 # rest) = (True, rest)"
  by (cases b, simp_all add: get_flag_def)

lemma get_two_bits [field_read]: "get_field (bit_of b # bit_of c # rest) 2 = (2 * of_bool b + of_bool c, rest)"
proof -
  have "(bits_word (bit_of b # bit_of c # rest) 2 :: u32) = (if b then 2 else 0) OR (if c then 1 else 0)"
    by (cases b; cases c) (simp_all add: bits_word_def upt_rec numeral_2_eq_2 push_bit_eq_mult)
  then show ?thesis by (cases b; cases c) (simp_all add: get_field_def srsran_bit_pack_word)
qed

section \<open>Adjacent fields\<close>

text \<open>Two fields next to each other are one field.\<close>

lemma put_field_append:
  assumes "a + b \<le> 32"
  shows "put_field u a @ put_field v b = put_field (u * 2 ^ b + v mod 2 ^ b) (a + b)"
proof (rule nth_equalityI)
  fix i assume "i < length (put_field u a @ put_field v b)"
  then have i: "i < a + b" by simp
  have low: "bit (u * 2 ^ b + v mod 2 ^ b) j = (if j < b then bit v j else bit u (j - b))" for j
  proof -
    have "u * 2 ^ b + v mod 2 ^ b = push_bit b u + take_bit b v" by (simp add: push_bit_eq_mult take_bit_eq_mod)
    also have "\<dots> = push_bit b u OR take_bit b v" by (rule disjunctive_add) (auto simp: bit_push_bit_iff bit_take_bit_iff)
    finally have "u * 2 ^ b + v mod 2 ^ b = push_bit b u OR take_bit b v" .
    then show ?thesis by (auto simp: bit_or_iff bit_push_bit_iff bit_take_bit_iff)
  qed
  show "(put_field u a @ put_field v b) ! i = put_field (u * 2 ^ b + v mod 2 ^ b) (a + b) ! i"
    using i assms
    by (auto simp: nth_append put_field_def srsran_bit_unpack_msb msb_bits_def bit_of_nat_iff low add.commute [of b a] simp del: of_nat_add of_nat_mult)
qed simp

lemma put_field_0 [simp]: "put_field v 0 = []"
  using length_put_field [of v 0] by (simp del: length_put_field)

lemma put_field_mod: "n \<le> 32 \<Longrightarrow> put_field (v mod 2 ^ n) n = put_field v n"
  using put_field_append [of 0 n 0 v] by simp

lemma put_field_flag: "put_field (of_bool b) (Suc 0) = [bit_of b]"
  by (cases b) (simp_all add: put_field_def srsran_bit_unpack_msb msb_bits_def)



end
