(* ===== verification/Dci_Pack.thy ===== *)
theory Dci_Pack
  imports Dci_Size Bit_Fields
begin

text \<open>
  Packing and unpacking of downlink control information, the main part of \<open>lib/src/phy/phch/dci.c\<close>, for
  all formats, and the grant of a random access response. A packer builds the array of bits it has
  written, \<open>y\<close>, and stores it at the start of the payload; a reader carries the rest of the payload. The
  increment \<open>y++\<close> without an assignment keeps the bit that was there. \<open>SRSRAN_DCI_HEXDEBUG\<close> is off, and the
  messages of the \<open>ERROR\<close> and \<open>INFO\<close> calls are not modelled.
\<close>

section \<open>Payloads\<close>

text \<open>The payload after \<open>y\<close> has been written, with \<open>msg->nof_bits = y - msg->payload\<close>, and the padding with zeros.\<close>

definition set_payload :: "srsran_dci_msg_t \<Rightarrow> u8 list \<Rightarrow> srsran_dci_msg_t" where
  "set_payload msg y = msg\<lparr>msg_payload := store (msg_payload msg) 0 y, msg_nof_bits := length y\<rparr>"

definition zero_pad :: "u8 list \<Rightarrow> nat \<Rightarrow> u8 list" where
  "zero_pad y n = y @ replicate (n - length y) 0"

text \<open>The enumerations as numbers.\<close>

fun ra_type_number :: "srsran_ra_type_t \<Rightarrow> nat" where
  "ra_type_number SRSRAN_RA_ALLOC_TYPE0 = 0"
| "ra_type_number SRSRAN_RA_ALLOC_TYPE1 = 1"
| "ra_type_number SRSRAN_RA_ALLOC_TYPE2 = 2"

definition ra_type_of :: "bool \<Rightarrow> srsran_ra_type_t" where
  "ra_type_of b = (if b then SRSRAN_RA_ALLOC_TYPE1 else SRSRAN_RA_ALLOC_TYPE0)"

definition mode_of :: "bool \<Rightarrow> mode_t" where
  "mode_of b = (if b then SRSRAN_RA_TYPE2_DIST else SRSRAN_RA_TYPE2_LOC)"

definition n_gap_of :: "bool \<Rightarrow> n_gap_t" where
  "n_gap_of b = (if b then SRSRAN_RA_TYPE2_NG2 else SRSRAN_RA_TYPE2_NG1)"

definition n_prb1a_of :: "bool \<Rightarrow> n_prb1a_t" where
  "n_prb1a_of b = (if b then SRSRAN_RA_TYPE2_NPRB1A_3 else SRSRAN_RA_TYPE2_NPRB1A_2)"

fun freq_hop_fl_number :: "freq_hop_fl_t \<Rightarrow> int" where
  "freq_hop_fl_number SRSRAN_RA_PUSCH_HOP_DISABLED = -1"
| "freq_hop_fl_number SRSRAN_RA_PUSCH_HOP_QUART = 0"
| "freq_hop_fl_number SRSRAN_RA_PUSCH_HOP_QUART_NEG = 1"
| "freq_hop_fl_number SRSRAN_RA_PUSCH_HOP_HALF = 2"
| "freq_hop_fl_number SRSRAN_RA_PUSCH_HOP_TYPE2 = 3"

definition freq_hop_fl_of :: "bool \<Rightarrow> bool \<Rightarrow> freq_hop_fl_t" where
  "freq_hop_fl_of b1 b0 =
     (if b1 then if b0 then SRSRAN_RA_PUSCH_HOP_TYPE2 else SRSRAN_RA_PUSCH_HOP_HALF
      else if b0 then SRSRAN_RA_PUSCH_HOP_QUART_NEG else SRSRAN_RA_PUSCH_HOP_QUART)"

section \<open>Random access response\<close>

record srsran_dci_rar_grant_t =
  rba :: nat
  trunc_mcs :: nat
  rar_tpc_pusch :: nat
  ul_delay :: bool
  rar_cqi_request :: bool
  hopping_flag :: bool

definition srsran_dci_rar_unpack :: "u8 list \<Rightarrow> srsran_dci_rar_grant_t" where
  "srsran_dci_rar_unpack payload =
     (let (h, y) = get_field payload 1;
          (r, y) = get_field y 10;
          (m, y) = get_field y 4;
          (t, y) = get_field y 3;
          (d, y) = get_field y 1;
          (c, y) = get_field y 1 in
      \<lparr>rba = r, trunc_mcs = m, rar_tpc_pusch = t, ul_delay = d \<noteq> 0, rar_cqi_request = c \<noteq> 0, hopping_flag = h \<noteq> 0\<rparr>)"

definition srsran_dci_rar_pack :: "srsran_dci_rar_grant_t \<Rightarrow> u8 list \<Rightarrow> u8 list" where
  "srsran_dci_rar_pack rar payload =
     store payload 0
       (put_field (if hopping_flag rar then 1 else 0) 1 @ put_field (rba rar) 10 @ put_field (trunc_mcs rar) 4 @
        put_field (rar_tpc_pusch rar) 3 @ put_field (if ul_delay rar then 1 else 0) 1 @
        put_field (if rar_cqi_request rar then 1 else 0) 1)"

definition rar_riv :: "nat \<Rightarrow> nat \<Rightarrow> nat" where
  "rar_riv N r =
     (if N \<le> 44 then let b = ceil_log2 (N * (N + 1) div 2) in unat ((of_nat r :: u32) AND (push_bit (b + 1) 1 - 1)) else r)"

definition srsran_dci_rar_to_ul_dci :: "srsran_cell_t \<Rightarrow> srsran_dci_rar_grant_t \<Rightarrow> srsran_dci_ul_t \<times> int" where
  "srsran_dci_rar_to_ul_dci cell rar =
     (zero_dci_ul\<lparr>freq_hop_fl := if \<not> hopping_flag rar then SRSRAN_RA_PUSCH_HOP_DISABLED else SRSRAN_RA_PUSCH_HOP_QUART_NEG,
        ul_type2_alloc := zero_type2\<lparr>riv := rar_riv (nof_prb cell) (rba rar)\<rparr>,
        ul_tb := zero_dci_tb\<lparr>dci_mcs_idx := trunc_mcs rar, dci_rv := -1\<rparr>, ul_dai := 3\<rparr>, 0)"

section \<open>Format 0\<close>

text \<open>The bits for the hopping flag and, from the indication value, the most significant ones (TS 36.213 table 8.4-1).\<close>

definition pack_hopping :: "nat \<Rightarrow> freq_hop_fl_t \<Rightarrow> u8 list \<times> nat" where
  "pack_hopping N fl =
     (if fl = SRSRAN_RA_PUSCH_HOP_DISABLED then ([0], 0)
      else if N < 50 then ([1, bit_of (bit (freq_hop_fl_number fl) 0)], 1)
      else ([1, bit_of (bit (freq_hop_fl_number fl) 1), bit_of (bit (freq_hop_fl_number fl) 0)], 2))"

definition dci_format0_pack ::
  "srsran_cell_t \<Rightarrow> srsran_dl_sf_cfg_t \<Rightarrow> srsran_dci_cfg_t \<Rightarrow> srsran_dci_ul_t \<Rightarrow> srsran_dci_msg_t \<Rightarrow> srsran_dci_msg_t \<times> int" where
  "dci_format0_pack cell sf cfg dci msg =
     (let (hop, n_ul_hop) = pack_hopping (nof_prb cell) (freq_hop_fl dci);
          y = (if ul_cif_present dci then put_field (ul_cif dci) 3 else []) @
              [0] @ hop @
              put_field (riv (ul_type2_alloc dci)) (sub32 (riv_nbits (nof_prb cell)) n_ul_hop) @
              put_field (dci_mcs_idx (ul_tb dci)) 5 @
              [bit_of (ndi (ul_tb dci))] @
              put_field (tpc_pusch dci) 2 @
              put_field (n_dmrs dci) 3 @
              (if multiple_csi_request_enabled cfg \<and> \<not> is_not_ue_ss cfg then [bit_of (cqi_request dci), 0]
               else [bit_of (cqi_request dci)]) @
              (if srs_request_enabled cfg \<and> \<not> is_not_ue_ss cfg then [bit_of (ul_srs_request dci \<and> ul_srs_request_present dci)]
               else []) in
      (set_payload msg (zero_pad y (srsran_dci_format_sizeof cell (Some sf) (Some cfg) SRSRAN_DCI_FORMAT0)), 0))"

definition unpack_cif_ul :: "srsran_dci_cfg_t \<Rightarrow> u8 list \<Rightarrow> srsran_dci_ul_t \<Rightarrow> srsran_dci_ul_t \<times> u8 list" where
  "unpack_cif_ul cfg y dci =
     (if cif_enabled cfg then let (v, y) = get_field y 3 in (dci\<lparr>ul_cif := v, ul_cif_present := True\<rparr>, y) else (dci, y))"

definition unpack_hopping :: "nat \<Rightarrow> u8 list \<Rightarrow> freq_hop_fl_t \<times> nat \<times> u8 list" where
  "unpack_hopping N y =
     (let (flag, y) = get_flag y in
      if \<not> flag then (SRSRAN_RA_PUSCH_HOP_DISABLED, 0, y)
      else if N < 50 then let (b0, y) = get_flag y in (freq_hop_fl_of False b0, 1, y)
      else let (b1, y) = get_flag y; (b0, y) = get_flag y in (freq_hop_fl_of b1 b0, 2, y))"

definition unpack_tdd_ul ::
  "srsran_cell_t \<Rightarrow> srsran_dl_sf_cfg_t \<Rightarrow> u8 list \<Rightarrow> srsran_dci_ul_t \<Rightarrow> srsran_dci_ul_t \<times> u8 list" where
  "unpack_tdd_ul cell sf y dci =
     (if IS_TDD_CFG0 cell sf then let (v, y) = get_field y 2 in (dci\<lparr>ul_idx := v, ul_is_tdd := True\<rparr>, y)
      else if IS_TDD cell then let (v, y) = get_field y 2 in (dci\<lparr>ul_dai := v, ul_is_tdd := True\<rparr>, y)
      else (dci, y))"

definition unpack_requests_ul :: "srsran_dci_cfg_t \<Rightarrow> u8 list \<Rightarrow> srsran_dci_ul_t \<Rightarrow> srsran_dci_ul_t" where
  "unpack_requests_ul cfg y dci =
     (let (dci, y) =
            (if multiple_csi_request_enabled cfg \<and> \<not> is_not_ue_ss cfg then
               let (v, y) = get_field y 2 in (dci\<lparr>multiple_csi_request_present := True, multiple_csi_request := v\<rparr>, y)
             else let (b, y) = get_flag y in (dci\<lparr>cqi_request := b\<rparr>, y));
          (dci, y) =
            (if srs_request_enabled cfg \<and> \<not> is_not_ue_ss cfg then
               let (b, y) = get_flag y in (dci\<lparr>ul_srs_request_present := True, ul_srs_request := b\<rparr>, y)
             else (dci, y)) in
      if ra_format_enabled cfg then
        let (b, y) = get_flag y in dci\<lparr>ra_type_present := True, ul_ra_type := ra_type_of b\<rparr>
      else dci)"

definition dci_format0_unpack ::
  "srsran_cell_t \<Rightarrow> srsran_dl_sf_cfg_t \<Rightarrow> srsran_dci_cfg_t \<Rightarrow> srsran_dci_msg_t \<Rightarrow> srsran_dci_ul_t \<Rightarrow>
   srsran_dci_msg_t \<times> srsran_dci_ul_t \<times> int" where
  "dci_format0_unpack cell sf cfg msg dci =
     (let (dci, y) = unpack_cif_ul cfg (msg_payload msg) dci;
          (b, y) = get_flag y in
      if b then (msg, dci, -1)
      else
        let msg = msg\<lparr>msg_format := SRSRAN_DCI_FORMAT0\<rparr>;
            (fl, n_ul_hop, y) = unpack_hopping (nof_prb cell) y;
            (r, y) = get_field y (sub32 (riv_nbits (nof_prb cell)) n_ul_hop);
            (m, y) = get_field y 5;
            (nd, y) = get_flag y;
            (t, y) = get_field y 2;
            (d, y) = get_field y 3;
            dci = dci\<lparr>freq_hop_fl := fl, ul_type2_alloc := (ul_type2_alloc dci)\<lparr>riv := r\<rparr>,
              ul_tb := (ul_tb dci)\<lparr>dci_mcs_idx := m, ndi := nd\<rparr>, tpc_pusch := t, n_dmrs := d\<rparr>;
            (dci, y) = unpack_tdd_ul cell sf y dci in
        (msg, unpack_requests_ul cfg y dci, 0))"

definition srsran_dci_msg_pack_pusch ::
  "srsran_cell_t \<Rightarrow> srsran_dl_sf_cfg_t \<Rightarrow> srsran_dci_cfg_t option \<Rightarrow> srsran_dci_ul_t \<Rightarrow> srsran_dci_msg_t \<Rightarrow>
   srsran_dci_msg_t \<times> int" where
  "srsran_dci_msg_pack_pusch cell sf cfg dci msg =
     dci_format0_pack cell sf (cfg_or_zero cfg) dci
       (msg\<lparr>msg_rnti := ul_rnti dci, msg_location := ul_location dci, msg_format := ul_format dci\<rparr>)"

definition srsran_dci_msg_unpack_pusch ::
  "srsran_cell_t \<Rightarrow> srsran_dl_sf_cfg_t \<Rightarrow> srsran_dci_cfg_t option \<Rightarrow> srsran_dci_msg_t \<Rightarrow>
   srsran_dci_msg_t \<times> srsran_dci_ul_t \<times> int" where
  "srsran_dci_msg_unpack_pusch cell sf cfg msg =
     dci_format0_unpack cell sf (cfg_or_zero cfg) msg
       (zero_dci_ul\<lparr>ul_rnti := msg_rnti msg, ul_location := msg_location msg, ul_format := msg_format msg\<rparr>)"

end
