(* ===== verification/Dci_Pack_Dl.thy ===== *)
theory Dci_Pack_Dl
  imports Dci_Pack
begin

text \<open>
  The downlink formats of \<open>lib/src/phy/phch/dci.c\<close>: packing and unpacking of formats 1, 1A, 1C, 2, 2A and 2B
  and unpacking of 1B and 1D. A packer that rejects the allocation returns the error code with the payload
  as written so far.
\<close>

section \<open>Shared parts\<close>

definition put_int :: "int \<Rightarrow> nat \<Rightarrow> u8 list" where
  "put_int v n = srsran_bit_unpack (of_int v) n"

definition pack_cif :: "srsran_dci_dl_t \<Rightarrow> u8 list" where
  "pack_cif dci = (if dl_cif_present dci then put_field (dl_cif dci) 3 else [])"

definition unpack_cif :: "srsran_dci_cfg_t \<Rightarrow> u8 list \<Rightarrow> srsran_dci_dl_t \<Rightarrow> srsran_dci_dl_t \<times> u8 list" where
  "unpack_cif cfg y dci =
     (if cif_enabled cfg then let (v, y) = get_field y 3 in (dci\<lparr>dl_cif := v, dl_cif_present := True\<rparr>, y) else (dci, y))"

text \<open>\<open>msg->payload\<close> after a packer that returns before it has set the number of bits.\<close>

definition abort_pack :: "srsran_dci_msg_t \<Rightarrow> u8 list \<Rightarrow> srsran_dci_msg_t \<times> int" where
  "abort_pack msg y = (msg\<lparr>msg_payload := store (msg_payload msg) 0 y\<rparr>, -1)"

text \<open>The allocation of types 0 and 1, with its flag.\<close>

definition pack_ra_header :: "nat \<Rightarrow> srsran_dci_dl_t \<Rightarrow> u8 list" where
  "pack_ra_header N dci = (if N > 10 then [of_nat (ra_type_number (alloc_type dci))] else [])"

definition pack_alloc :: "nat \<Rightarrow> srsran_dci_dl_t \<Rightarrow> u8 list option" where
  "pack_alloc N dci =
     (let P = srsran_ra_type0_P N; n = alloc_size N; w = ceil_log2 P in
      case alloc_type dci of
        SRSRAN_RA_ALLOC_TYPE0 \<Rightarrow> Some (put_field (rbg_bitmask (type0_alloc dci)) n)
      | SRSRAN_RA_ALLOC_TYPE1 \<Rightarrow>
          Some (put_field (rbg_subset (type1_alloc dci)) w @ [bit_of (shift (type1_alloc dci))] @
                put_field (vrb_bitmask (type1_alloc dci)) (sub32 (sub32 n w) 1))
      | SRSRAN_RA_ALLOC_TYPE2 \<Rightarrow> None)"

definition unpack_alloc :: "nat \<Rightarrow> u8 list \<Rightarrow> srsran_dci_dl_t \<Rightarrow> srsran_dci_dl_t \<times> u8 list" where
  "unpack_alloc N y dci =
     (let (b, y) = (if N > 10 then get_flag y else (False, y));
          P = srsran_ra_type0_P N; n = alloc_size N; w = ceil_log2 P;
          dci = dci\<lparr>alloc_type := ra_type_of b\<rparr> in
      if \<not> b then
        let (v, y) = get_field y n in (dci\<lparr>type0_alloc := \<lparr>rbg_bitmask = v\<rparr>\<rparr>, y)
      else
        let (s, y) = get_field y w; (h, y) = get_flag y; (v, y) = get_field y (sub32 (sub32 n w) 1) in
        (dci\<lparr>type1_alloc := \<lparr>vrb_bitmask = v, rbg_subset = s, shift = h\<rparr>\<rparr>, y))"

definition unpack_tdd :: "srsran_cell_t \<Rightarrow> u8 list \<Rightarrow> srsran_dci_dl_t \<Rightarrow> srsran_dci_dl_t \<times> u8 list" where
  "unpack_tdd cell y dci =
     (if IS_TDD cell then let (v, y) = get_field y 2 in (dci\<lparr>dl_dai := v, dl_is_tdd := True\<rparr>, y) else (dci, y))"

text \<open>One transport block: scheme, new data indicator and redundancy version.\<close>

definition pack_tb :: "srsran_dci_tb_t \<Rightarrow> u8 list" where
  "pack_tb t = put_field (dci_mcs_idx t) 5 @ [bit_of (ndi t)] @ put_int (dci_rv t) 2"

definition unpack_tb :: "u8 list \<Rightarrow> srsran_dci_tb_t \<Rightarrow> srsran_dci_tb_t \<times> u8 list" where
  "unpack_tb y t =
     (let (m, y) = get_field y 5; (n, y) = get_flag y; (r, y) = get_field y 2 in
      (t\<lparr>dci_mcs_idx := m, ndi := n, dci_rv := int r\<rparr>, y))"

section \<open>Format 1\<close>

definition dci_format1_pack ::
  "srsran_cell_t \<Rightarrow> srsran_dl_sf_cfg_t \<Rightarrow> srsran_dci_cfg_t \<Rightarrow> srsran_dci_dl_t \<Rightarrow> srsran_dci_msg_t \<Rightarrow> srsran_dci_msg_t \<times> int" where
  "dci_format1_pack cell sf cfg dci msg =
     (let t = dl_tb dci ! 0; y = pack_cif dci @ pack_ra_header (nof_prb cell) dci in
      case pack_alloc (nof_prb cell) dci of
        None \<Rightarrow> abort_pack msg y
      | Some a \<Rightarrow>
          let y = y @ a @ put_field (dci_mcs_idx t) 5 @ put_field (pid dci) (HARQ_PID_LEN cell sf) @ [bit_of (ndi t)] @
                put_int (dci_rv t) 2 @ put_field (tpc_pucch dci) 2 in
          (set_payload msg (zero_pad y (srsran_dci_format_sizeof cell (Some sf) (Some cfg) SRSRAN_DCI_FORMAT1)), 0))"

definition dci_format1_unpack ::
  "srsran_cell_t \<Rightarrow> srsran_dl_sf_cfg_t \<Rightarrow> srsran_dci_cfg_t \<Rightarrow> srsran_dci_msg_t \<Rightarrow> srsran_dci_dl_t \<Rightarrow>
   srsran_dci_msg_t \<times> srsran_dci_dl_t \<times> int" where
  "dci_format1_unpack cell sf cfg msg dci =
     (if msg_nof_bits msg \<noteq> srsran_dci_format_sizeof cell (Some sf) (Some cfg) SRSRAN_DCI_FORMAT1 then (msg, dci, -1)
      else
        let (dci, y) = unpack_cif cfg (msg_payload msg) dci;
            (dci, y) = unpack_alloc (nof_prb cell) y dci;
            (m, y) = get_field y 5;
            (p, y) = get_field y (HARQ_PID_LEN cell sf);
            (n, y) = get_flag y;
            (r, y) = get_field y 2;
            (t, y) = get_field y 2;
            dci = dci\<lparr>dl_tb := (dl_tb dci)[0 := (dl_tb dci ! 0)\<lparr>dci_mcs_idx := m, ndi := n, dci_rv := int r\<rparr>],
              pid := p, tpc_pucch := t\<rparr> in
        (msg, fst (unpack_tdd cell y dci), 0))"

section \<open>Formats 1A, 1B, 1C and 1D\<close>

definition dci_format1As_pack ::
  "srsran_cell_t \<Rightarrow> srsran_dl_sf_cfg_t \<Rightarrow> srsran_dci_cfg_t \<Rightarrow> srsran_dci_dl_t \<Rightarrow> srsran_dci_msg_t \<Rightarrow> srsran_dci_msg_t \<times> int" where
  "dci_format1As_pack cell sf cfg dci msg =
     (let N = nof_prb cell; t = dl_tb dci ! 0; user = SRSRAN_RNTI_ISUSER (dl_rnti dci); y = pack_cif dci @ [1] in
      if alloc_type dci \<noteq> SRSRAN_RA_ALLOC_TYPE2 then abort_pack msg y
      else
        let a = type2_alloc dci;
            dist = (mode a = SRSRAN_RA_TYPE2_DIST);
            gap = bit_of (n_gap a = SRSRAN_RA_TYPE2_NG2);
            nb_gap = (if user \<and> dist \<and> N \<ge> 50 then 1 else 0);
            y = y @ [bit_of dist] @ (if nb_gap = 1 then [gap] else []) @
              put_field (riv a) (sub32 (riv_nbits N) nb_gap) @
              put_field (dci_mcs_idx t) 5 @ put_field (pid dci) (HARQ_PID_LEN cell sf);
            y = y @ [if \<not> user then if N \<ge> 50 \<and> dist then gap else msg_payload msg ! length y else bit_of (ndi t)];
            y = y @ put_int (dci_rv t) 2;
            y = y @ (if user then [0, 0] else [msg_payload msg ! length y, bit_of (n_prb1a a = SRSRAN_RA_TYPE2_NPRB1A_3)]) in
        (set_payload msg (zero_pad y (srsran_dci_format_sizeof cell (Some sf) (Some cfg) SRSRAN_DCI_FORMAT1A)), 0))"

text \<open>The loops \<open>while (i < n && y[i] == b) i++\<close>.\<close>

function scan_while :: "u8 list \<Rightarrow> u8 \<Rightarrow> nat \<Rightarrow> nat \<Rightarrow> nat" where
  "scan_while y b n i = (if i < n \<and> y ! i = b then scan_while y b n (i + 1) else i)"
  by auto
termination by (relation "measure (\<lambda>(y, b, n, i). n - i)") auto

declare scan_while.simps [simp del]

definition is_pdcch_order :: "nat \<Rightarrow> nat \<Rightarrow> u8 list \<Rightarrow> bool" where
  "is_pdcch_order N nbits y =
     (let n = riv_nbits N in
      hd y = 0 \<and> scan_while (tl y) 1 n 0 = n \<and> scan_while y 0 (sub32 nbits 1) (1 + 10 + n) = sub32 nbits 1)"

definition dci_format1As_unpack ::
  "srsran_cell_t \<Rightarrow> srsran_dl_sf_cfg_t \<Rightarrow> srsran_dci_cfg_t \<Rightarrow> srsran_dci_msg_t \<Rightarrow> srsran_dci_dl_t \<Rightarrow>
   srsran_dci_msg_t \<times> srsran_dci_dl_t \<times> int" where
  "dci_format1As_unpack cell sf cfg msg dci =
     (let N = nof_prb cell; user = SRSRAN_RNTI_ISUSER (msg_rnti msg);
          (dci, y) = unpack_cif cfg (msg_payload msg) dci in
      if hd y \<noteq> 1 then (msg, dci, -1)
      else
        let y = tl y; msg = msg\<lparr>msg_format := SRSRAN_DCI_FORMAT1A\<rparr> in
        if is_pdcch_order N (msg_nof_bits msg) y then
          let (p, y) = get_field (drop (1 + riv_nbits N) y) 6; (m, y) = get_field y 4 in
          (msg, dci\<lparr>is_ra_order := True, ra_preamble := p, ra_mask_idx := m\<rparr>, 0)
        else
          let (d, y) = get_flag y;
              nb_gap = (if user \<and> d \<and> N \<ge> 50 then 1 else 0);
              (g, y) = (if nb_gap = 1 then get_flag y else (False, y));
              (r, y) = get_field y (sub32 (riv_nbits N) nb_gap);
              (m, y) = get_field y 5;
              (p, y) = get_field y (HARQ_PID_LEN cell sf);
              (b, y) = get_flag y;
              g = (if \<not> user \<and> N \<ge> 50 \<and> d then b else g);
              (v, y) = get_field y 2;
              (b1, y) = get_flag y; (b0, y) = get_flag y;
              t = (dl_tb dci ! 0)\<lparr>dci_mcs_idx := m, ndi := if user then b else ndi (dl_tb dci ! 0), dci_rv := int v\<rparr>;
              dci = dci\<lparr>is_ra_order := False, alloc_type := SRSRAN_RA_ALLOC_TYPE2,
                type2_alloc := (type2_alloc dci)\<lparr>mode := mode_of d, n_gap := n_gap_of g, riv := r,
                  n_prb1a := if user then n_prb1a (type2_alloc dci) else n_prb1a_of b0\<rparr>,
                pid := p, dl_tb := (dl_tb dci)[0 := t]\<rparr> in
          (msg, fst (unpack_tdd cell y dci), 0))"

text \<open>The common part of formats 1B and 1D, up to the precoding information.\<close>

definition unpack_compact ::
  "srsran_cell_t \<Rightarrow> srsran_dl_sf_cfg_t \<Rightarrow> srsran_dci_cfg_t \<Rightarrow> u8 list \<Rightarrow> srsran_dci_dl_t \<Rightarrow> srsran_dci_dl_t \<times> u8 list" where
  "unpack_compact cell sf cfg payload dci =
     (let N = nof_prb cell;
          (dci, y) = unpack_cif cfg payload dci;
          (d, y) = get_flag y;
          nb_gap = (if d \<and> N \<ge> 50 then 1 else 0);
          (g, y) = (if nb_gap = 1 then get_flag y else (False, y));
          (r, y) = get_field y (sub32 (riv_nbits N) nb_gap);
          (m, y) = get_field y 5;
          (p, y) = get_field y (HARQ_PID_LEN cell sf);
          (b, y) = get_flag y;
          (v, y) = get_field y 2;
          (t, y) = get_field y 2;
          dci = dci\<lparr>alloc_type := SRSRAN_RA_ALLOC_TYPE2,
            type2_alloc := (type2_alloc dci)\<lparr>mode := mode_of d, n_gap := n_gap_of g, riv := r\<rparr>,
            pid := p, tpc_pucch := t,
            dl_tb := (dl_tb dci)[0 := (dl_tb dci ! 0)\<lparr>dci_mcs_idx := m, ndi := b, dci_rv := int v\<rparr>]\<rparr>;
          (dci, y) = unpack_tdd cell y dci;
          (i, y) = get_field y (tpmi_bits (nof_ports cell)) in
      (dci\<lparr>pinfo := i\<rparr>, y))"

definition dci_format1B_unpack ::
  "srsran_cell_t \<Rightarrow> srsran_dl_sf_cfg_t \<Rightarrow> srsran_dci_cfg_t \<Rightarrow> srsran_dci_msg_t \<Rightarrow> srsran_dci_dl_t \<Rightarrow>
   srsran_dci_msg_t \<times> srsran_dci_dl_t \<times> int" where
  "dci_format1B_unpack cell sf cfg msg dci =
     (let (dci, y) = unpack_compact cell sf cfg (msg_payload msg) dci; (b, y) = get_flag y in
      (msg, dci\<lparr>pconf := b\<rparr>, 0))"

definition dci_format1D_unpack ::
  "srsran_cell_t \<Rightarrow> srsran_dl_sf_cfg_t \<Rightarrow> srsran_dci_cfg_t \<Rightarrow> srsran_dci_msg_t \<Rightarrow> srsran_dci_dl_t \<Rightarrow>
   srsran_dci_msg_t \<times> srsran_dci_dl_t \<times> int" where
  "dci_format1D_unpack cell sf cfg msg dci =
     (let (dci, y) = unpack_compact cell sf cfg (msg_payload msg) dci; (b, y) = get_flag y in
      (msg, dci\<lparr>power_offset := b\<rparr>, 0))"

definition riv_nbits_1c :: "nat \<Rightarrow> n_gap_t \<Rightarrow> nat" where
  "riv_nbits_1c N gap =
     riv_nbits (srsran_ra_type2_n_vrb_dl N (gap = SRSRAN_RA_TYPE2_NG1) div srsran_ra_type2_n_rb_step N)"

definition dci_format1Cs_pack ::
  "srsran_cell_t \<Rightarrow> srsran_dl_sf_cfg_t \<Rightarrow> srsran_dci_cfg_t \<Rightarrow> srsran_dci_dl_t \<Rightarrow> srsran_dci_msg_t \<Rightarrow> srsran_dci_msg_t \<times> int" where
  "dci_format1Cs_pack cell sf cfg dci msg =
     (let N = nof_prb cell; a = type2_alloc dci; y = pack_cif dci in
      if alloc_type dci \<noteq> SRSRAN_RA_ALLOC_TYPE2 \<or> mode a \<noteq> SRSRAN_RA_TYPE2_DIST then abort_pack msg y
      else
        let y = y @ (if N \<ge> 50 then [bit_of (n_gap a = SRSRAN_RA_TYPE2_NG2)] else []) @
              put_field (riv a) (riv_nbits_1c N (n_gap a)) @ put_field (dci_mcs_idx (dl_tb dci ! 0)) 5 in
        (set_payload msg y, 0))"

definition dci_format1Cs_unpack ::
  "srsran_cell_t \<Rightarrow> srsran_dl_sf_cfg_t \<Rightarrow> srsran_dci_cfg_t \<Rightarrow> srsran_dci_msg_t \<Rightarrow> srsran_dci_dl_t \<Rightarrow>
   srsran_dci_msg_t \<times> srsran_dci_dl_t \<times> int" where
  "dci_format1Cs_unpack cell sf cfg msg dci =
     (if msg_nof_bits msg \<noteq> srsran_dci_format_sizeof cell (Some sf) (Some cfg) SRSRAN_DCI_FORMAT1C then (msg, dci, -1)
      else
        let N = nof_prb cell; y = msg_payload msg;
            (gap, y) = (if N \<ge> 50 then let (b, y) = get_flag y in (n_gap_of b, y) else (n_gap (type2_alloc dci), y));
            (r, y) = get_field y (riv_nbits_1c N gap);
            (m, y) = get_field y 5;
            dci = dci\<lparr>alloc_type := SRSRAN_RA_ALLOC_TYPE2,
              type2_alloc := (type2_alloc dci)\<lparr>mode := SRSRAN_RA_TYPE2_DIST, n_gap := gap, riv := r\<rparr>,
              dl_tb := (dl_tb dci)[0 := (dl_tb dci ! 0)\<lparr>dci_mcs_idx := m, dci_rv := -1\<rparr>]\<rparr> in
        (msg\<lparr>msg_nof_bits := length (msg_payload msg) - length y\<rparr>, dci, 0))"

section \<open>Formats 2, 2A and 2B\<close>

definition precoding_bits :: "srsran_dci_format_t \<Rightarrow> nat \<Rightarrow> nat" where
  "precoding_bits fmt ports =
     (if fmt = SRSRAN_DCI_FORMAT2 then precoding_bits_f2 ports
      else if fmt = SRSRAN_DCI_FORMAT2A then precoding_bits_f2a ports else 0)"

definition dci_format2AB_pack ::
  "srsran_cell_t \<Rightarrow> srsran_dl_sf_cfg_t \<Rightarrow> srsran_dci_cfg_t \<Rightarrow> srsran_dci_dl_t \<Rightarrow> srsran_dci_msg_t \<Rightarrow> srsran_dci_msg_t \<times> int" where
  "dci_format2AB_pack cell sf cfg dci msg =
     (let y = pack_cif dci @ pack_ra_header (nof_prb cell) dci in
      case pack_alloc (nof_prb cell) dci of
        None \<Rightarrow> abort_pack msg y
      | Some a \<Rightarrow>
          let y = y @ a @ put_field (tpc_pucch dci) 2 @ put_field (pid dci) (HARQ_PID_LEN cell sf) @
                [bit_of (if msg_format msg = SRSRAN_DCI_FORMAT2B then sram_id dci else tb_cw_swap dci)] @
                pack_tb (dl_tb dci ! 0) @ pack_tb (dl_tb dci ! 1) @
                put_field (pinfo dci) (precoding_bits (msg_format msg) (nof_ports cell)) in
          (set_payload msg (zero_pad y (srsran_dci_format_sizeof cell (Some sf) (Some cfg) (msg_format msg))), 0))"

text \<open>The codeword of each transport block.\<close>

definition tb_codewords :: "srsran_dci_dl_t \<Rightarrow> srsran_dci_dl_t" where
  "tb_codewords dci =
     (let n = length (filter SRSRAN_DCI_IS_TB_EN (dl_tb dci)) in
      dci\<lparr>dl_tb := map (\<lambda>i. (dl_tb dci ! i)\<lparr>dci_cw_idx := if n = 2 then ((if tb_cw_swap dci then 1 else 0) + i) mod n else 0\<rparr>)
        [0..<SRSRAN_MAX_CODEWORDS]\<rparr>)"

definition dci_format2AB_unpack ::
  "srsran_cell_t \<Rightarrow> srsran_dl_sf_cfg_t \<Rightarrow> srsran_dci_cfg_t \<Rightarrow> srsran_dci_msg_t \<Rightarrow> srsran_dci_dl_t \<Rightarrow>
   srsran_dci_msg_t \<times> srsran_dci_dl_t \<times> int" where
  "dci_format2AB_unpack cell sf cfg msg dci =
     (let (dci, y) = unpack_cif cfg (msg_payload msg) dci;
          (dci, y) = unpack_alloc (nof_prb cell) y dci;
          (t, y) = get_field y 2;
          (dci, y) = unpack_tdd cell y (dci\<lparr>tpc_pucch := t\<rparr>);
          (p, y) = get_field y (HARQ_PID_LEN cell sf);
          (b, y) = get_flag y;
          dci = dci\<lparr>pid := p\<rparr>;
          dci = (if msg_format msg = SRSRAN_DCI_FORMAT2B then dci\<lparr>sram_id := b\<rparr> else dci\<lparr>tb_cw_swap := b\<rparr>);
          (t0, y) = unpack_tb y (dl_tb dci ! 0);
          (t1, y) = unpack_tb y (dl_tb dci ! 1);
          dci = dci\<lparr>dl_tb := [t0, t1]\<rparr>;
          dci = (if msg_format msg = SRSRAN_DCI_FORMAT2 \<or> msg_format msg = SRSRAN_DCI_FORMAT2A
                 then dci\<lparr>pinfo := fst (get_field y (precoding_bits (msg_format msg) (nof_ports cell)))\<rparr> else dci) in
      (msg, tb_codewords dci, 0))"

section \<open>All formats\<close>

definition srsran_dci_msg_pack_pdsch ::
  "srsran_cell_t \<Rightarrow> srsran_dl_sf_cfg_t \<Rightarrow> srsran_dci_cfg_t option \<Rightarrow> srsran_dci_dl_t \<Rightarrow> srsran_dci_msg_t \<Rightarrow>
   srsran_dci_msg_t \<times> int" where
  "srsran_dci_msg_pack_pdsch cell sf cfg dci msg =
     (let msg = msg\<lparr>msg_rnti := dl_rnti dci, msg_location := dl_location dci, msg_format := dl_format dci\<rparr>;
          cfg = cfg_or_zero cfg in
      case msg_format msg of
        SRSRAN_DCI_FORMAT1 \<Rightarrow> dci_format1_pack cell sf cfg dci msg
      | SRSRAN_DCI_FORMAT1A \<Rightarrow> dci_format1As_pack cell sf cfg dci msg
      | SRSRAN_DCI_FORMAT1C \<Rightarrow> dci_format1Cs_pack cell sf cfg dci msg
      | SRSRAN_DCI_FORMAT2 \<Rightarrow> dci_format2AB_pack cell sf cfg dci msg
      | SRSRAN_DCI_FORMAT2A \<Rightarrow> dci_format2AB_pack cell sf cfg dci msg
      | SRSRAN_DCI_FORMAT2B \<Rightarrow> dci_format2AB_pack cell sf cfg dci msg
      | _ \<Rightarrow> (msg, -1))"

definition in_dwpts :: "srsran_cell_t \<Rightarrow> srsran_dl_sf_cfg_t \<Rightarrow> bool" where
  "in_dwpts cell sf \<longleftrightarrow>
     frame_type cell = SRSRAN_TDD \<and> srsran_sfidx_tdd_type (tdd_config sf) (tti sf mod 10) = SRSRAN_TDD_SF_S"

definition init_dci_dl :: "srsran_cell_t \<Rightarrow> srsran_dl_sf_cfg_t \<Rightarrow> srsran_dci_msg_t \<Rightarrow> srsran_dci_dl_t" where
  "init_dci_dl cell sf msg =
     zero_dci_dl\<lparr>dl_tb := [zero_dci_tb, SRSRAN_DCI_TB_DISABLE zero_dci_tb], dl_rnti := msg_rnti msg,
       dl_location := msg_location msg, dl_format := msg_format msg, is_dwpts := in_dwpts cell sf\<rparr>"

definition srsran_dci_msg_unpack_pdsch ::
  "srsran_cell_t \<Rightarrow> srsran_dl_sf_cfg_t \<Rightarrow> srsran_dci_cfg_t option \<Rightarrow> srsran_dci_msg_t \<Rightarrow>
   srsran_dci_msg_t \<times> srsran_dci_dl_t \<times> int" where
  "srsran_dci_msg_unpack_pdsch cell sf cfg msg =
     (let dci = init_dci_dl cell sf msg; cfg = cfg_or_zero cfg in
      case msg_format msg of
        SRSRAN_DCI_FORMAT1 \<Rightarrow> dci_format1_unpack cell sf cfg msg dci
      | SRSRAN_DCI_FORMAT1A \<Rightarrow> dci_format1As_unpack cell sf cfg msg dci
      | SRSRAN_DCI_FORMAT1B \<Rightarrow> dci_format1B_unpack cell sf cfg msg dci
      | SRSRAN_DCI_FORMAT1C \<Rightarrow> dci_format1Cs_unpack cell sf cfg msg dci
      | SRSRAN_DCI_FORMAT1D \<Rightarrow> dci_format1D_unpack cell sf cfg msg dci
      | SRSRAN_DCI_FORMAT2 \<Rightarrow> dci_format2AB_unpack cell sf cfg msg dci
      | SRSRAN_DCI_FORMAT2A \<Rightarrow> dci_format2AB_unpack cell sf cfg msg dci
      | SRSRAN_DCI_FORMAT2B \<Rightarrow> dci_format2AB_unpack cell sf cfg msg dci
      | _ \<Rightarrow> (msg, dci, -1))"

end
