(* ===== verification/Dci_Codec.thy ===== *)
theory Dci_Codec
  imports Dci_Pack_Dl
begin

text \<open>
  Round trips of downlink control information: what the readers of \<open>lib/src/phy/phch/dci.c\<close> make of the
  payloads the packers write. The codec of bit fields is the one of \<open>Bit_Ops\<close>.
\<close>

section \<open>Reading what was written\<close>

lemma get_put_int [field_read]: "n \<le> 32 \<Longrightarrow> get_field (put_int v n @ rest) n = (nat (v mod 2 ^ n), rest)"
proof -
  assume n: "n \<le> 32"
  have u: "unat (of_int v :: u32) = nat (v mod 2 ^ 32)" by (simp add: unsigned_of_int take_bit_eq_mod)
  have "nat (v mod 2 ^ 32) mod 2 ^ n = nat (v mod 2 ^ 32 mod 2 ^ n)"
    by (simp add: nat_mod_distrib nat_power_eq)
  also have "v mod 2 ^ 32 mod 2 ^ n = v mod 2 ^ n" using n by (intro mod_mod_cancel le_imp_power_dvd)
  finally have "unat (take_bit n (of_int v :: u32)) = nat (v mod 2 ^ n)"
    unfolding unat_take_bit_word u .
  then show ?thesis using n by (simp add: get_field_def put_int_def bit32.get_put)
qed

lemma length_put_int [simp]: "length (put_int i n) = n"
  by (simp add: put_int_def bit32.length_put)

lemma set_payload_sel [simp]:
  "msg_payload (set_payload msg y) = y @ drop (length y) (msg_payload msg)" "msg_nof_bits (set_payload msg y) = length y"
  "msg_rnti (set_payload msg y) = msg_rnti msg" "msg_location (set_payload msg y) = msg_location msg"
  "msg_format (set_payload msg y) = msg_format msg"
  by (simp_all add: set_payload_def store_def)

lemma length_zero_pad [simp]: "length (zero_pad y n) = max n (length y)"
  by (simp add: zero_pad_def)

lemma set_payload_format [simp]: "(set_payload msg y)\<lparr>msg_format := msg_format msg\<rparr> = set_payload msg y"
  by (simp add: set_payload_def)

section \<open>Random access response\<close>

definition rar_ok :: "srsran_dci_rar_grant_t \<Rightarrow> bool" where
  "rar_ok rar \<longleftrightarrow> rba rar < 2 ^ 10 \<and> trunc_mcs rar < 2 ^ 4 \<and> rar_tpc_pusch rar < 2 ^ 3"

lemma rar_roundtrip: "rar_ok rar \<Longrightarrow> srsran_dci_rar_unpack (srsran_dci_rar_pack rar payload) = rar"
  by (cases rar) (simp add: srsran_dci_rar_unpack_def srsran_dci_rar_pack_def store_def field_read rar_ok_def)

section \<open>Format 0\<close>

text \<open>A DCI whose fields fit and whose other members have the values the reader leaves in them.\<close>

definition dci_ul_ok :: "srsran_cell_t \<Rightarrow> srsran_dci_cfg_t \<Rightarrow> srsran_dci_ul_t \<Rightarrow> bool" where
  "dci_ul_ok cell cfg dci \<longleftrightarrow>
     (let multi = multiple_csi_request_enabled cfg \<and> \<not> is_not_ue_ss cfg; srs = srs_request_enabled cfg \<and> \<not> is_not_ue_ss cfg;
          n_ul_hop = snd (pack_hopping (nof_prb cell) (freq_hop_fl dci)) in
      ul_format dci = SRSRAN_DCI_FORMAT0 \<and> ul_ue_cc_idx dci = 0 \<and>
      n_prb1a (ul_type2_alloc dci) = SRSRAN_RA_TYPE2_NPRB1A_2 \<and> n_gap (ul_type2_alloc dci) = SRSRAN_RA_TYPE2_NG1 \<and>
      mode (ul_type2_alloc dci) = SRSRAN_RA_TYPE2_LOC \<and>
      riv (ul_type2_alloc dci) < 2 ^ (riv_nbits (nof_prb cell) - n_ul_hop) \<and>
      (nof_prb cell < 50 \<longrightarrow> freq_hop_fl dci \<noteq> SRSRAN_RA_PUSCH_HOP_HALF \<and> freq_hop_fl dci \<noteq> SRSRAN_RA_PUSCH_HOP_TYPE2) \<and>
      dci_mcs_idx (ul_tb dci) < 32 \<and> dci_rv (ul_tb dci) = 0 \<and> dci_cw_idx (ul_tb dci) = 0 \<and>
      tpc_pusch dci < 4 \<and> n_dmrs dci < 8 \<and>
      ul_dai dci = 0 \<and> ul_idx dci = 0 \<and> \<not> ul_is_tdd dci \<and>
      ul_cif_present dci = cif_enabled cfg \<and> (if cif_enabled cfg then ul_cif dci < 8 else ul_cif dci = 0) \<and>
      (multi \<longrightarrow> \<not> cqi_request dci) \<and> multiple_csi_request dci = 0 \<and> multiple_csi_request_present dci = multi \<and>
      ul_srs_request_present dci = srs \<and> (ul_srs_request dci \<longrightarrow> srs) \<and>
      ul_ra_type dci = SRSRAN_RA_ALLOC_TYPE0 \<and> ra_type_present dci = ra_format_enabled cfg)"

lemma riv_nbits_ge: "6 \<le> N \<Longrightarrow> 5 \<le> riv_nbits N"
proof -
  assume "6 \<le> N"
  then have "6 * 7 \<le> N * (N + 1)" by (intro mult_le_mono) simp_all
  then have "20 < N * (N + 1) div 2" by simp
  from riv_fits [OF this] have "(2 :: nat) ^ 4 < 2 ^ riv_nbits N" by simp
  then have "4 < riv_nbits N" by (rule power_less_imp_less_exp [rotated]) simp
  then show ?thesis by simp
qed

lemma unpack_pack_hopping:
  assumes "N < 50 \<longrightarrow> fl \<noteq> SRSRAN_RA_PUSCH_HOP_HALF \<and> fl \<noteq> SRSRAN_RA_PUSCH_HOP_TYPE2" "pack_hopping N fl = (hop, n)"
  shows "unpack_hopping N (hop @ rest) = (fl, n, rest)" "n \<le> 2" "length hop = n + 1"
proof -
  have "unpack_hopping N (hop @ rest) = (fl, n, rest) \<and> n \<le> 2 \<and> length hop = n + 1"
    using assms by (cases fl) (auto simp: pack_hopping_def unpack_hopping_def field_read freq_hop_fl_of_def bit_1_iff
        bit_numeral_rec split: if_splits)
  then show "unpack_hopping N (hop @ rest) = (fl, n, rest)" "n \<le> 2" "length hop = n + 1" by blast+
qed

text \<open>The bits up to the DMRS field, and the request bits after it.\<close>

lemma unpack_format0:
  assumes N: "6 \<le> nof_prb cell" "nof_prb cell \<le> 110" and ok: "dci_ul_ok cell cfg dci"
    and payload: "msg_payload msg = y @ requests" "msg_format msg = SRSRAN_DCI_FORMAT0"
    and hop: "pack_hopping (nof_prb cell) (freq_hop_fl dci) = (hop, n)"
    and y: "y = (if ul_cif_present dci then put_field (ul_cif dci) 3 else []) @ [0] @ hop @
      put_field (riv (ul_type2_alloc dci)) (sub32 (riv_nbits (nof_prb cell)) n) @ put_field (dci_mcs_idx (ul_tb dci)) 5 @
      [bit_of (ndi (ul_tb dci))] @ put_field (tpc_pusch dci) 2 @ put_field (n_dmrs dci) 3"
  shows "dci_format0_unpack cell sf cfg msg (zero_dci_ul\<lparr>ul_rnti := r, ul_location := l, ul_format := SRSRAN_DCI_FORMAT0\<rparr>) =
    (msg, case unpack_tdd_ul cell sf requests (dci\<lparr>ul_rnti := r, ul_location := l, cqi_request := False,
       multiple_csi_request_present := False, ul_srs_request := False, ul_srs_request_present := False,
       ra_type_present := False\<rparr>) of (d, y) \<Rightarrow> unpack_requests_ul cfg y d, 0)"
proof -
  have fl: "nof_prb cell < 50 \<longrightarrow> freq_hop_fl dci \<noteq> SRSRAN_RA_PUSCH_HOP_HALF \<and> freq_hop_fl dci \<noteq> SRSRAN_RA_PUSCH_HOP_TYPE2"
    using ok by (simp add: dci_ul_ok_def Let_def)
  note h = unpack_pack_hopping [OF fl hop]
  have w: "sub32 (riv_nbits (nof_prb cell)) n = riv_nbits (nof_prb cell) - n" "riv_nbits (nof_prb cell) - n \<le> 32"
    using riv_nbits_ge [OF N(1)] riv_nbits_le [OF N(2)] h(2) by (simp_all add: sub32_le)
  have cif: "unpack_cif_ul cfg (msg_payload msg) d = (d\<lparr>ul_cif := (if cif_enabled cfg then ul_cif dci else ul_cif d),
      ul_cif_present := (cif_enabled cfg \<or> ul_cif_present d)\<rparr>,
      drop (if cif_enabled cfg then 3 else 0) (msg_payload msg))" for d
    using ok by (simp add: unpack_cif_ul_def dci_ul_ok_def Let_def payload y field_read)
  have rest: "drop (if cif_enabled cfg then 3 else 0) (msg_payload msg) = 0 # hop @
      put_field (riv (ul_type2_alloc dci)) (riv_nbits (nof_prb cell) - n) @ put_field (dci_mcs_idx (ul_tb dci)) 5 @
      [bit_of (ndi (ul_tb dci))] @ put_field (tpc_pusch dci) 2 @ put_field (n_dmrs dci) 3 @ requests"
    using ok by (simp add: dci_ul_ok_def Let_def payload y w)
  have same: "msg\<lparr>msg_format := SRSRAN_DCI_FORMAT0\<rparr> = msg" using payload(2) by simp
  have riv: "riv (ul_type2_alloc dci) mod 2 ^ (riv_nbits (nof_prb cell) - n) = riv (ul_type2_alloc dci)"
    "dci_mcs_idx (ul_tb dci) mod 32 = dci_mcs_idx (ul_tb dci)" "tpc_pusch dci mod 4 = tpc_pusch dci" "n_dmrs dci mod 8 = n_dmrs dci"
    using ok hop by (simp_all add: dci_ul_ok_def Let_def)
  have base: "dci\<lparr>ul_rnti := r, ul_location := l, cqi_request := False, multiple_csi_request_present := False,
      ul_srs_request := False, ul_srs_request_present := False, ra_type_present := False\<rparr> =
    zero_dci_ul\<lparr>ul_rnti := r, ul_location := l, ul_format := SRSRAN_DCI_FORMAT0,
      ul_cif := (if cif_enabled cfg then ul_cif dci else ul_cif zero_dci_ul),
      ul_cif_present := (cif_enabled cfg \<or> ul_cif_present zero_dci_ul), freq_hop_fl := freq_hop_fl dci,
      ul_type2_alloc := (ul_type2_alloc zero_dci_ul)\<lparr>riv := riv (ul_type2_alloc dci)\<rparr>,
      ul_tb := (ul_tb zero_dci_ul)\<lparr>dci_mcs_idx := dci_mcs_idx (ul_tb dci), ndi := ndi (ul_tb dci)\<rparr>,
      tpc_pusch := tpc_pusch dci, n_dmrs := n_dmrs dci\<rparr>"
    using ok by (cases dci; cases "ul_tb dci"; cases "ul_type2_alloc dci")
      (auto simp: dci_ul_ok_def zero_dci_ul_def zero_dci_tb_def zero_type2_def Let_def)
  show ?thesis
    unfolding dci_format0_unpack_def cif rest base
    using w(2)
    by (simp add: field_read h(1) w(1) same riv split_beta Let_def)
qed

text \<open>The request bits, with \<open>multi\<close>, \<open>srs\<close> and \<open>ra\<close> for the three options of the configuration.\<close>

lemma unpack_requests:
  assumes multi: "multi \<longleftrightarrow> multiple_csi_request_enabled cfg \<and> \<not> is_not_ue_ss cfg"
    and srs: "srs \<longleftrightarrow> srs_request_enabled cfg \<and> \<not> is_not_ue_ss cfg" and ra: "ra \<longleftrightarrow> ra_format_enabled cfg"
    and rest: "rest = (if multi then [bit_of cqi, 0] else [bit_of cqi]) @ (if srs then [bit_of sr] else []) @ 0 # tail"
  shows "unpack_requests_ul cfg rest d = d\<lparr>
    cqi_request := (if multi then cqi_request d else cqi),
    multiple_csi_request := (if multi then 2 * of_bool cqi else multiple_csi_request d),
    multiple_csi_request_present := (multi \<or> multiple_csi_request_present d),
    ul_srs_request := (if srs then sr else ul_srs_request d), ul_srs_request_present := (srs \<or> ul_srs_request_present d),
    ul_ra_type := (if ra then SRSRAN_RA_ALLOC_TYPE0 else ul_ra_type d), ra_type_present := (ra \<or> ra_type_present d)\<rparr>"
proof -
  have two: "get_field (bit_of c # 0 # t) 2 = (2 * of_bool c, t)" for c t using get_two_bits [of c False t] by simp
  show ?thesis
    unfolding unpack_requests_ul_def rest multi [symmetric] srs [symmetric] ra [symmetric]
    by (cases multi; cases srs; cases ra; simp add: field_read two ra_type_of_def)
qed

text \<open>The payload: the fields before the TDD bits, the request bits, and at least one zero of padding, three in TDD.\<close>

lemma pack_format0:
  assumes N: "6 \<le> nof_prb cell" "nof_prb cell \<le> 110" and ok: "dci_ul_ok cell (cfg_or_zero cfg) dci"
    and req: "req = (if multiple_csi_request_enabled (cfg_or_zero cfg) \<and> \<not> is_not_ue_ss (cfg_or_zero cfg)
        then [bit_of (cqi_request dci), 0] else [bit_of (cqi_request dci)]) @
      (if srs_request_enabled (cfg_or_zero cfg) \<and> \<not> is_not_ue_ss (cfg_or_zero cfg)
       then [bit_of (ul_srs_request dci \<and> ul_srs_request_present dci)] else [])"
  obtains msg' rest where "srsran_dci_msg_pack_pusch cell sf cfg dci msg = (msg', 0)"
    "msg_nof_bits msg' = srsran_dci_format_sizeof cell (Some sf) cfg SRSRAN_DCI_FORMAT0"
    "srsran_dci_msg_unpack_pusch cell sf cfg msg' = (msg',
       case unpack_tdd_ul cell sf (req @ (if IS_TDD cell then [0, 0, 0] else [0]) @ rest)
         (dci\<lparr>cqi_request := False, multiple_csi_request_present := False, ul_srs_request := False,
            ul_srs_request_present := False, ra_type_present := False\<rparr>) of
         (d, y) \<Rightarrow> unpack_requests_ul (cfg_or_zero cfg) y d, 0)"
proof -
  define c where "c = cfg_or_zero cfg"
  note ok = ok [folded c_def] and req = req [folded c_def]
  define msg0 where "msg0 = msg\<lparr>msg_rnti := ul_rnti dci, msg_location := ul_location dci, msg_format := ul_format dci\<rparr>"
  obtain hop n where hop: "pack_hopping (nof_prb cell) (freq_hop_fl dci) = (hop, n)" by fastforce
  define y where "y = (if ul_cif_present dci then put_field (ul_cif dci) 3 else []) @ [0] @ hop @
      put_field (riv (ul_type2_alloc dci)) (sub32 (riv_nbits (nof_prb cell)) n) @ put_field (dci_mcs_idx (ul_tb dci)) 5 @
      [bit_of (ndi (ul_tb dci))] @ put_field (tpc_pusch dci) 2 @ put_field (n_dmrs dci) 3"
  define len where "len = srsran_dci_format_sizeof cell (Some sf) (Some c) SRSRAN_DCI_FORMAT0"
  define msg' where "msg' = set_payload msg0 (zero_pad (y @ req) len)"
  define zeros where "zeros = (if IS_TDD cell then [0, 0, 0] else [0 :: u8])"
  have run: "srsran_dci_msg_pack_pusch cell sf cfg dci msg = (msg', 0)"
    by (simp add: srsran_dci_msg_pack_pusch_def dci_format0_pack_def hop msg'_def y_def req len_def msg0_def c_def)
  have fl: "nof_prb cell < 50 \<longrightarrow> freq_hop_fl dci \<noteq> SRSRAN_RA_PUSCH_HOP_HALF \<and> freq_hop_fl dci \<noteq> SRSRAN_RA_PUSCH_HOP_TYPE2"
    using ok by (simp add: dci_ul_ok_def Let_def)
  have len_raw: "dci_format0_sizeof_raw cell sf c \<le> len"
    using format_size_ge(1) [of cell sf c] by (simp add: len_def srsran_dci_format_sizeof_def sf_or_zero_def cfg_or_zero_def format0_size)
  have "length (y @ req) + length zeros = dci_format0_sizeof_raw cell sf c"
    using unpack_pack_hopping(2,3) [OF fl hop] riv_nbits_ge [OF N(1)] riv_nbits_le [OF N(2)] ok
    by (simp add: y_def req zeros_def dci_format0_sizeof_raw_def sub32_le dci_ul_ok_def IS_TDD_CFG0_def Let_def)
  then have short: "length (y @ req) + length zeros \<le> len" using len_raw by simp
  define pad where "pad = replicate (len - length (y @ req) - length zeros) (0 :: u8)"
  have "replicate (len - length (y @ req)) (0 :: u8) = replicate (length zeros) 0 @ pad"
    using short by (simp add: pad_def flip: replicate_add)
  also have "replicate (length zeros) 0 = zeros" by (simp add: zeros_def numeral_3_eq_3)
  finally have "zero_pad (y @ req) len = y @ req @ zeros @ pad" unfolding zero_pad_def by simp
  then have payload: "msg_payload msg' = y @ (req @ zeros @ (pad @ drop len (msg_payload msg0)))"
    using short by (simp add: msg'_def set_payload_def store_def pad_def)
  have f0: "ul_format dci = SRSRAN_DCI_FORMAT0" using ok by (simp add: dci_ul_ok_def Let_def)
  have sel: "msg_rnti msg' = ul_rnti dci" "msg_location msg' = ul_location dci" "msg_format msg' = SRSRAN_DCI_FORMAT0"
    by (simp_all add: msg'_def msg0_def f0)
  have "srsran_dci_msg_unpack_pusch cell sf cfg msg' = (msg',
       case unpack_tdd_ul cell sf (req @ zeros @ (pad @ drop len (msg_payload msg0)))
         (dci\<lparr>cqi_request := False, multiple_csi_request_present := False, ul_srs_request := False,
            ul_srs_request_present := False, ra_type_present := False\<rparr>) of
         (d, y) \<Rightarrow> unpack_requests_ul c y d, 0)"
    unfolding srsran_dci_msg_unpack_pusch_def c_def [symmetric] sel unpack_format0 [OF N ok payload sel(3) hop y_def] by simp
  moreover have "len = srsran_dci_format_sizeof cell (Some sf) cfg SRSRAN_DCI_FORMAT0"
    by (simp add: len_def c_def srsran_dci_format_sizeof_def cfg_or_zero_def split: option.splits)
  moreover have "msg_nof_bits msg' = len" using short by (simp add: msg'_def)
  ultimately show ?thesis using run that unfolding zeros_def c_def by blast
qed

text \<open>A DCI of format 0 with a request for channel state information.\<close>

definition example_cell_tdd :: srsran_cell_t where
  "example_cell_tdd = \<lparr>nof_prb = 25, nof_ports = 2, cell_id = 1, cell_cp = SRSRAN_CP_NORM, frame_type = SRSRAN_TDD\<rparr>"

definition example_cell_fdd :: srsran_cell_t where
  "example_cell_fdd = example_cell_tdd\<lparr>frame_type := SRSRAN_FDD\<rparr>"

definition example_msg :: srsran_dci_msg_t where
  "example_msg = \<lparr>msg_payload = replicate 128 0, msg_nof_bits = 0, msg_location = \<lparr>loc_L = 0, loc_ncce = 0\<rparr>,
     msg_format = SRSRAN_DCI_FORMAT0, msg_rnti = 0\<rparr>"

definition example_format0 :: srsran_dci_ul_t where
  "example_format0 = zero_dci_ul\<lparr>ul_rnti := 70, freq_hop_fl := SRSRAN_RA_PUSCH_HOP_DISABLED,
     ul_type2_alloc := zero_type2\<lparr>riv := 78\<rparr>, ul_tb := zero_dci_tb\<lparr>dci_mcs_idx := 15, ndi := True\<rparr>, cqi_request := True\<rparr>"

lemma example_format0_ok: "nof_prb cell = 25 \<Longrightarrow> dci_ul_ok cell zero_dci_cfg example_format0"
  using riv_fits [of 78 25]
  by (simp add: dci_ul_ok_def example_format0_def zero_dci_ul_def zero_dci_cfg_def zero_type2_def zero_dci_tb_def pack_hopping_def)

section \<open>Properties\<close>

text \<open>The packer writes neither the value of a request for several CSI processes nor the type of the allocation.\<close>

lemma pack_pusch_unwritten:
  "srsran_dci_msg_pack_pusch cell sf cfg (dci\<lparr>multiple_csi_request := k, ul_ra_type := t\<rparr>) msg =
   srsran_dci_msg_pack_pusch cell sf cfg dci msg"
  by (simp add: srsran_dci_msg_pack_pusch_def dci_format0_pack_def)

text \<open>
  C11: In a FDD cell an uplink DCI of format 0 that meets \<open>dci_ul_ok\<close> is recovered from its payload, whatever the
  buffer held before, and the payload has the size of the format. \<open>dci_ul_ok\<close> asks that the fields fit, and
  leaves out what the packer does not write or the reader does not give back: where requests for several CSI
  processes are configured the request must be off (the packer writes the bit of the single request and a 0 where
  the reader takes the value of two bits), and the value of such a request and the type of the
  allocation must be 0, since they do not influence the payload (the last conclusion). In a cell of fewer than 50 blocks
  the hopping must be one of the first two types. TDD cells are the subject of the next property.
\<close>
theorem dci_format0_roundtrip:
  assumes "\<not> IS_TDD cell" "6 \<le> nof_prb cell" "nof_prb cell \<le> 110" "dci_ul_ok cell (cfg_or_zero cfg) dci"
  shows "case srsran_dci_msg_pack_pusch cell sf cfg dci msg of (msg', r) \<Rightarrow>
    r = 0 \<and> msg_nof_bits msg' = srsran_dci_format_sizeof cell (Some sf) cfg SRSRAN_DCI_FORMAT0 \<and>
    srsran_dci_msg_unpack_pusch cell sf cfg msg' = (msg', dci, 0) \<and>
    (\<forall>k t. srsran_dci_msg_pack_pusch cell sf cfg (dci\<lparr>multiple_csi_request := k, ul_ra_type := t\<rparr>) msg = (msg', r))"
proof -
  define c where "c = cfg_or_zero cfg"
  note ok = assms(4) [folded c_def]
  define multi where "multi \<longleftrightarrow> multiple_csi_request_enabled c \<and> \<not> is_not_ue_ss c"
  define srs where "srs \<longleftrightarrow> srs_request_enabled c \<and> \<not> is_not_ue_ss c"
  obtain msg' rest where run: "srsran_dci_msg_pack_pusch cell sf cfg dci msg = (msg', 0)"
    "msg_nof_bits msg' = srsran_dci_format_sizeof cell (Some sf) cfg SRSRAN_DCI_FORMAT0"
    and read: "srsran_dci_msg_unpack_pusch cell sf cfg msg' = (msg',
       unpack_requests_ul c ((if multi then [bit_of (cqi_request dci), 0] else [bit_of (cqi_request dci)]) @
         (if srs then [bit_of (ul_srs_request dci \<and> ul_srs_request_present dci)] else []) @ 0 # rest)
         (dci\<lparr>cqi_request := False, multiple_csi_request_present := False, ul_srs_request := False,
            ul_srs_request_present := False, ra_type_present := False\<rparr>), 0)"
    using assms(1) pack_format0 [OF assms(2-4) refl, of sf msg]
    unfolding c_def [symmetric] multi_def [symmetric] srs_def [symmetric] by (auto simp: unpack_tdd_ul_def IS_TDD_CFG0_def)
  have f: "multi \<Longrightarrow> \<not> cqi_request dci" "multiple_csi_request dci = 0" "multiple_csi_request_present dci = multi"
    "ul_srs_request_present dci = srs" "ul_srs_request dci \<Longrightarrow> srs" "ul_ra_type dci = SRSRAN_RA_ALLOC_TYPE0"
    "ra_type_present dci = ra_format_enabled c"
    using ok by (simp_all add: dci_ul_ok_def Let_def multi_def srs_def)
  have "srsran_dci_msg_unpack_pusch cell sf cfg msg' = (msg', dci, 0)"
    unfolding read unpack_requests [OF multi_def srs_def refl refl] prod.inject
    by (intro conjI refl; rule srsran_dci_ul_t.equality; simp) (use f in auto)+
  then show ?thesis unfolding pack_pusch_unwritten run(1) using run(2) by simp
qed

theorem dci_format0_roundtrip_witness:
  "\<exists>msg'. srsran_dci_msg_pack_pusch example_cell_fdd zero_dl_sf None example_format0 example_msg = (msg', 0) \<and>
     srsran_dci_msg_unpack_pusch example_cell_fdd zero_dl_sf None msg' = (msg', example_format0, 0)"
proof -
  have fdd: "\<not> IS_TDD example_cell_fdd" "nof_prb example_cell_fdd = 25"
    by (simp_all add: example_cell_fdd_def example_cell_tdd_def IS_TDD_def)
  show ?thesis
    using dci_format0_roundtrip [of example_cell_fdd None example_format0 zero_dl_sf example_msg] fdd example_format0_ok [OF fdd(2)]
    by (auto simp: cfg_or_zero_def split: prod.splits)
qed

text \<open>
  C32: In a TDD cell the packer leaves out the two bits of the assignment index or UL index that the size counts
  and the reader reads: the reader takes the CSI request, and the SRS request or a bit of padding, for the
  index, and the requests themselves from the padding, so that a CSI request is always lost.
\<close>
theorem dci_format0_tdd_shifted:
  assumes "IS_TDD cell" "6 \<le> nof_prb cell" "nof_prb cell \<le> 110" "dci_ul_ok cell (cfg_or_zero cfg) dci"
    and "\<not> multiple_csi_request_enabled (cfg_or_zero cfg)"
  shows "case srsran_dci_msg_pack_pusch cell sf cfg dci msg of (msg', r) \<Rightarrow>
    \<exists>d. srsran_dci_msg_unpack_pusch cell sf cfg msg' = (msg', d, 0) \<and> \<not> cqi_request d \<and> \<not> ul_srs_request d \<and>
      (if IS_TDD_CFG0 cell sf then ul_idx d else ul_dai d) = 2 * of_bool (cqi_request dci) + of_bool (ul_srs_request dci)"
proof -
  define c where "c = cfg_or_zero cfg"
  note ok = assms(4) [folded c_def]
  define srs where "srs \<longleftrightarrow> srs_request_enabled c \<and> \<not> is_not_ue_ss c"
  have nomulti: "False \<longleftrightarrow> multiple_csi_request_enabled c \<and> \<not> is_not_ue_ss c" using assms(5) by (simp add: c_def)
  have f: "ul_srs_request dci \<and> ul_srs_request_present dci \<longleftrightarrow> ul_srs_request dci" "ul_srs_request dci \<Longrightarrow> srs"
    using ok by (auto simp: dci_ul_ok_def Let_def srs_def)
  let ?d = "dci\<lparr>cqi_request := False, multiple_csi_request_present := False, ul_srs_request := False,
            ul_srs_request_present := False, ra_type_present := False\<rparr>"
  obtain msg' rest where run: "srsran_dci_msg_pack_pusch cell sf cfg dci msg = (msg', 0)"
    and read: "srsran_dci_msg_unpack_pusch cell sf cfg msg' = (msg', case unpack_tdd_ul cell sf
         (bit_of (cqi_request dci) # (if srs then [bit_of (ul_srs_request dci)] else []) @ 0 # 0 # 0 # rest) ?d of
         (d, y) \<Rightarrow> unpack_requests_ul c y d, 0)"
    using assms(1) pack_format0 [OF assms(2-4) refl, of sf msg]
    unfolding c_def [symmetric] nomulti [symmetric] srs_def [symmetric] f(1) by simp blast
  have two: "get_field (bit_of b # 0 # t) 2 = (2 * of_bool b, t)" for b t using get_two_bits [of b False t] by simp
  have req: "unpack_requests_ul c (0 # (if srs then [0] else []) @ 0 # tail) d = d\<lparr>cqi_request := False,
      multiple_csi_request := multiple_csi_request d, multiple_csi_request_present := multiple_csi_request_present d,
      ul_srs_request := (if srs then False else ul_srs_request d), ul_srs_request_present := (srs \<or> ul_srs_request_present d),
      ul_ra_type := (if ra_format_enabled c then SRSRAN_RA_ALLOC_TYPE0 else ul_ra_type d),
      ra_type_present := (ra_format_enabled c \<or> ra_type_present d)\<rparr>" for d tail
    using unpack_requests [OF nomulti srs_def refl refl, of False False tail d] by (cases srs) simp_all
  show ?thesis
  proof (cases srs)
    case True
    note req = req [unfolded if_P [OF True] append.simps]
    show ?thesis using assms(1) True unfolding run read prod.case
      by (simp add: unpack_tdd_ul_def field_read IS_TDD_CFG0_def req)
  next
    case False
    note req = req [unfolded if_not_P [OF False] append.simps]
    have "\<not> ul_srs_request dci" using f(2) False by blast
    then show ?thesis using assms(1) unfolding run read prod.case
      by (simp add: unpack_tdd_ul_def two IS_TDD_CFG0_def req)
  qed
qed

theorem dci_format0_tdd_shifted_witness:
  "\<exists>d. srsran_dci_msg_unpack_pusch example_cell_tdd zero_dl_sf None
       (fst (srsran_dci_msg_pack_pusch example_cell_tdd zero_dl_sf None example_format0 example_msg)) =
       (fst (srsran_dci_msg_pack_pusch example_cell_tdd zero_dl_sf None example_format0 example_msg), d, 0) \<and>
     \<not> cqi_request d \<and> ul_idx d = 2"
proof -
  have tdd: "IS_TDD example_cell_tdd" "IS_TDD_CFG0 example_cell_tdd zero_dl_sf" "nof_prb example_cell_tdd = 25"
    by (simp_all add: example_cell_tdd_def IS_TDD_def IS_TDD_CFG0_def zero_dl_sf_def)
  have cfg: "cfg_or_zero None = zero_dci_cfg" "\<not> multiple_csi_request_enabled zero_dci_cfg"
    by (simp_all add: cfg_or_zero_def zero_dci_cfg_def)
  have dci: "cqi_request example_format0" "\<not> ul_srs_request example_format0"
    by (simp_all add: example_format0_def zero_dci_ul_def)
  show ?thesis
    using dci_format0_tdd_shifted [of example_cell_tdd None example_format0 zero_dl_sf example_msg] tdd cfg dci
      example_format0_ok [OF tdd(3)] by (simp add: split_beta) blast
qed

end
