(* ===== verification/Dci_Codec_Dl.thy ===== *)
theory Dci_Codec_Dl
  imports Dci_Codec
begin

text \<open>
  Round trips of the downlink formats 1, 1A, 1C, 2, 2A and 2B of \<open>lib/src/phy/phch/dci.c\<close>.
\<close>

section \<open>Shared parts\<close>

lemma cif_read:
  assumes "dl_cif_present dci = cif_enabled cfg" "if cif_enabled cfg then dl_cif dci < 8 else dl_cif dci = 0"
    and "dl_cif d = 0" "\<not> dl_cif_present d"
  shows "unpack_cif cfg (pack_cif dci @ rest) d = (d\<lparr>dl_cif := dl_cif dci, dl_cif_present := dl_cif_present dci\<rparr>, rest)"
  using assms by (cases d) (simp add: unpack_cif_def pack_cif_def field_read split: if_splits)

text \<open>An allocation of type 0 or 1 whose fields fit, with the other members as the reader leaves them.\<close>

definition alloc_ok :: "nat \<Rightarrow> srsran_dci_dl_t \<Rightarrow> bool" where
  "alloc_ok N dci \<longleftrightarrow>
     (let P = srsran_ra_type0_P N; n = alloc_size N; w = ceil_log2 P in
      type2_alloc dci = type2_alloc zero_dci_dl \<and>
      (alloc_type dci = SRSRAN_RA_ALLOC_TYPE0 \<and> rbg_bitmask (type0_alloc dci) < 2 ^ n \<and> type1_alloc dci = type1_alloc zero_dci_dl \<or>
       alloc_type dci = SRSRAN_RA_ALLOC_TYPE1 \<and> 10 < N \<and> rbg_subset (type1_alloc dci) < 2 ^ w \<and>
         vrb_bitmask (type1_alloc dci) < 2 ^ (n - w - 1) \<and> type0_alloc dci = type0_alloc zero_dci_dl))"

lemma alloc_size_cases:
  assumes "6 \<le> N" "N \<le> 110"
  shows "6 \<le> alloc_size N" "alloc_size N \<le> 32" "ceil_log2 (srsran_ra_type0_P N) \<le> 2"
    "sub32 (sub32 (alloc_size N) (ceil_log2 (srsran_ra_type0_P N))) 1 = alloc_size N - ceil_log2 (srsran_ra_type0_P N) - 1"
proof -
  have "\<not> ceil_div N (srsran_ra_type0_P N) \<le> 5"
    using assms by (auto simp: srsran_ra_type0_P_def ceil_div_le_iff)
  then show 1: "6 \<le> alloc_size N" by (simp add: alloc_size_def)
  show 2: "alloc_size N \<le> 32" using alloc_size_le [OF assms(2)] by simp
  have "srsran_ra_type0_P N \<le> 2 ^ 2" by (simp add: srsran_ra_type0_P_def)
  then show 3: "ceil_log2 (srsran_ra_type0_P N) \<le> 2" by (rule ceil_log2_le) simp
  show "sub32 (sub32 (alloc_size N) (ceil_log2 (srsran_ra_type0_P N))) 1 = alloc_size N - ceil_log2 (srsran_ra_type0_P N) - 1"
    using 1 2 3 by (simp add: sub32_le)
qed

lemma alloc_read:
  assumes N: "6 \<le> N" "N \<le> 110" and ok: "alloc_ok N dci"
  obtains a where "pack_alloc N dci = Some a"
    "length (pack_ra_header N dci @ a) = (if N > 10 then 1 else 0) + alloc_size N"
    "\<And>d rest. type0_alloc d = type0_alloc zero_dci_dl \<Longrightarrow> type1_alloc d = type1_alloc zero_dci_dl \<Longrightarrow>
       unpack_alloc N (pack_ra_header N dci @ a @ rest) d =
       (d\<lparr>alloc_type := alloc_type dci, type0_alloc := type0_alloc dci, type1_alloc := type1_alloc dci\<rparr>, rest)"
proof -
  note s = alloc_size_cases [OF N]
  have one: "0 + alloc_size N = alloc_size N" by simp
  from ok consider (0) "alloc_type dci = SRSRAN_RA_ALLOC_TYPE0" "rbg_bitmask (type0_alloc dci) < 2 ^ alloc_size N"
      "type1_alloc dci = type1_alloc zero_dci_dl"
    | (1) "alloc_type dci = SRSRAN_RA_ALLOC_TYPE1" "10 < N" "rbg_subset (type1_alloc dci) < 2 ^ ceil_log2 (srsran_ra_type0_P N)"
      "vrb_bitmask (type1_alloc dci) < 2 ^ (alloc_size N - ceil_log2 (srsran_ra_type0_P N) - 1)" "type0_alloc dci = type0_alloc zero_dci_dl"
    unfolding alloc_ok_def Let_def by blast
  then show ?thesis
  proof cases
    case 0
    show ?thesis
    proof (rule that)
      show "pack_alloc N dci = Some (put_field (rbg_bitmask (type0_alloc dci)) (alloc_size N))"
        by (simp add: pack_alloc_def 0 Let_def)
      show "unpack_alloc N (pack_ra_header N dci @ put_field (rbg_bitmask (type0_alloc dci)) (alloc_size N) @ rest) d =
        (d\<lparr>alloc_type := alloc_type dci, type0_alloc := type0_alloc dci, type1_alloc := type1_alloc dci\<rparr>, rest)"
        if d: "type0_alloc d = type0_alloc zero_dci_dl" "type1_alloc d = type1_alloc zero_dci_dl" for d rest
        using s(2) 0 d by (cases d) (simp add: unpack_alloc_def pack_ra_header_def field_read ra_type_of_def Let_def)
    qed (simp add: pack_ra_header_def)
  next
    case 1
    show ?thesis
    proof (rule that)
      show "pack_alloc N dci = Some (put_field (rbg_subset (type1_alloc dci)) (ceil_log2 (srsran_ra_type0_P N)) @
          [bit_of (shift (type1_alloc dci))] @ put_field (vrb_bitmask (type1_alloc dci)) (alloc_size N - ceil_log2 (srsran_ra_type0_P N) - 1))"
        unfolding pack_alloc_def Let_def s(4) by (simp add: 1)
      show "unpack_alloc N (pack_ra_header N dci @ (put_field (rbg_subset (type1_alloc dci)) (ceil_log2 (srsran_ra_type0_P N)) @
          [bit_of (shift (type1_alloc dci))] @ put_field (vrb_bitmask (type1_alloc dci)) (alloc_size N - ceil_log2 (srsran_ra_type0_P N) - 1)) @ rest) d =
        (d\<lparr>alloc_type := alloc_type dci, type0_alloc := type0_alloc dci, type1_alloc := type1_alloc dci\<rparr>, rest)"
        if d: "type0_alloc d = type0_alloc zero_dci_dl" "type1_alloc d = type1_alloc zero_dci_dl" for d rest
        using s(2,3) 1 d unfolding unpack_alloc_def Let_def s(4)
        by (cases d) (simp add: pack_ra_header_def field_read ra_type_of_def)
    qed (use s 1 in \<open>simp add: pack_ra_header_def\<close>)
  qed
qed

text \<open>A redundancy version written in two bits.\<close>

lemma rv_read: "0 \<le> v \<Longrightarrow> v < 4 \<Longrightarrow> int (nat (v mod 4)) = (v :: int)"
  by simp

lemma zero_dci_sel:
  "dl_ue_cc_idx zero_dci_dl = 0" "tb_cw_swap zero_dci_dl = False" "pinfo zero_dci_dl = 0" "pconf zero_dci_dl = False"
  "power_offset zero_dci_dl = False" "is_ra_order zero_dci_dl = False" "ra_preamble zero_dci_dl = 0" "ra_mask_idx zero_dci_dl = 0"
  "dl_srs_request zero_dci_dl = False" "dl_srs_request_present zero_dci_dl = False" "dl_dai zero_dci_dl = 0" "sram_id zero_dci_dl = False"
  "dl_cif zero_dci_dl = 0" "dl_cif_present zero_dci_dl = False" "dl_is_tdd zero_dci_dl = False" "tpc_pucch zero_dci_dl = 0" "pid zero_dci_dl = 0"
  "dl_tb zero_dci_dl = [zero_dci_tb, zero_dci_tb]"
  by (simp_all add: zero_dci_dl_def)

text \<open>A payload padded to a size that leaves room for \<open>k\<close> more bits.\<close>

lemma padded_payload:
  assumes "length y + k \<le> len"
  obtains rest where "msg_payload (set_payload msg (zero_pad y len)) = y @ replicate k 0 @ rest"
    "msg_nof_bits (set_payload msg (zero_pad y len)) = len"
proof -
  have "replicate (len - length y) (0 :: u8) = replicate k 0 @ replicate (len - length y - k) 0"
    using assms by (simp flip: replicate_add)
  then show ?thesis using that assms by (simp add: zero_pad_def)
qed

lemma tdd_read:
  "unpack_tdd cell (replicate (if IS_TDD cell then 2 else 0) 0 @ rest) d =
     (d\<lparr>dl_dai := (if IS_TDD cell then 0 else dl_dai d), dl_is_tdd := (IS_TDD cell \<or> dl_is_tdd d)\<rparr>, rest)"
  using get_two_bits [of False False rest] by (simp add: unpack_tdd_def numeral_2_eq_2)

lemma pid_len: "HARQ_PID_LEN cell sf \<le> 32"
  by (simp add: HARQ_PID_LEN_def)

text \<open>
  The DCI the formats can carry: the fields fit, and the members a format does not carry have the values the
  reader leaves there. In TDD the packers of formats 1 and 1A do not write the assignment index.
\<close>

definition dl_tb_ok :: "srsran_dci_tb_t \<Rightarrow> bool" where
  "dl_tb_ok t \<longleftrightarrow> dci_mcs_idx t < 32 \<and> 0 \<le> dci_rv t \<and> dci_rv t < 4"

definition disabled_tb :: srsran_dci_tb_t where
  "disabled_tb = zero_dci_tb\<lparr>dci_mcs_idx := 0, dci_rv := 1\<rparr>"

definition dl_common_ok :: "srsran_cell_t \<Rightarrow> srsran_dl_sf_cfg_t \<Rightarrow> srsran_dci_cfg_t \<Rightarrow> srsran_dci_dl_t \<Rightarrow> bool" where
  "dl_common_ok cell sf cfg dci \<longleftrightarrow>
     dl_ue_cc_idx dci = 0 \<and> \<not> pconf dci \<and> \<not> power_offset dci \<and> \<not> is_ra_order dci \<and> ra_preamble dci = 0 \<and> ra_mask_idx dci = 0 \<and>
     \<not> dl_srs_request dci \<and> \<not> dl_srs_request_present dci \<and> dl_dai dci = 0 \<and> is_dwpts dci = in_dwpts cell sf \<and>
     dl_cif_present dci = cif_enabled cfg \<and> (if cif_enabled cfg then dl_cif dci < 8 else dl_cif dci = 0) \<and>
     pid dci < 2 ^ HARQ_PID_LEN cell sf \<and> tpc_pucch dci < 4"

definition dl_single_ok :: "srsran_dci_dl_t \<Rightarrow> bool" where
  "dl_single_ok dci \<longleftrightarrow> \<not> tb_cw_swap dci \<and> \<not> sram_id dci \<and> pinfo dci = 0 \<and>
     (\<exists>t. dl_tb dci = [t, disabled_tb] \<and> dl_tb_ok t \<and> dci_cw_idx t = 0)"

section \<open>Format 1\<close>

lemma format1_roundtrip:
  assumes N: "6 \<le> nof_prb cell" "nof_prb cell \<le> 110"
    and ok: "dl_common_ok cell sf cfg dci" "dl_single_ok dci" "alloc_ok (nof_prb cell) dci" "dl_is_tdd dci = IS_TDD cell"
    and fmt: "dl_format dci = SRSRAN_DCI_FORMAT1"
    and msg: "msg_rnti msg = dl_rnti dci" "msg_location msg = dl_location dci" "msg_format msg = SRSRAN_DCI_FORMAT1"
  shows "case dci_format1_pack cell sf cfg dci msg of (msg', r) \<Rightarrow> r = 0 \<and>
    msg_nof_bits msg' = srsran_dci_format_sizeof cell (Some sf) (Some cfg) SRSRAN_DCI_FORMAT1 \<and>
    dci_format1_unpack cell sf cfg msg' (init_dci_dl cell sf msg') = (msg', dci, 0) \<and>
    msg_rnti msg' = msg_rnti msg \<and> msg_location msg' = msg_location msg \<and> msg_format msg' = msg_format msg"
proof -
  obtain t where t: "dl_tb dci = [t, disabled_tb]" "dl_tb_ok t" "dci_cw_idx t = 0" using ok(2) by (auto simp: dl_single_ok_def)
  obtain a where a: "pack_alloc (nof_prb cell) dci = Some a"
    "length (pack_ra_header (nof_prb cell) dci @ a) = (if nof_prb cell > 10 then 1 else 0) + alloc_size (nof_prb cell)"
    and alloc: "\<And>d rest. type0_alloc d = type0_alloc zero_dci_dl \<Longrightarrow> type1_alloc d = type1_alloc zero_dci_dl \<Longrightarrow>
      unpack_alloc (nof_prb cell) (pack_ra_header (nof_prb cell) dci @ a @ rest) d =
        (d\<lparr>alloc_type := alloc_type dci, type0_alloc := type0_alloc dci, type1_alloc := type1_alloc dci\<rparr>, rest)"
    by (rule alloc_read [OF N ok(3)]) blast
  define len where "len = srsran_dci_format_sizeof cell (Some sf) (Some cfg) SRSRAN_DCI_FORMAT1"
  define y where "y = pack_cif dci @ pack_ra_header (nof_prb cell) dci @ a @ put_field (dci_mcs_idx t) 5 @
      put_field (pid dci) (HARQ_PID_LEN cell sf) @ [bit_of (ndi t)] @ put_int (dci_rv t) 2 @ put_field (tpc_pucch dci) 2"
  have run: "dci_format1_pack cell sf cfg dci msg = (set_payload msg (zero_pad y len), 0)"
    by (simp add: dci_format1_pack_def a(1) t(1) y_def len_def Let_def)
  have cif: "length (pack_cif dci) = (if cif_enabled cfg then 3 else 0)"
    using ok(1) by (simp add: dl_common_ok_def pack_cif_def)
  have "length y = length (pack_cif dci) + length (pack_ra_header (nof_prb cell) dci @ a) + 10 + HARQ_PID_LEN cell sf"
    by (simp add: y_def)
  moreover have "dci_format1_sizeof cell sf cfg = len"
    by (simp add: len_def srsran_dci_format_sizeof_def sf_or_zero_def cfg_or_zero_def)
  ultimately have "length y + (if IS_TDD cell then 2 else 0) \<le> len"
    using format_size_ge(3) [of cell sf cfg] unfolding cif a(2) by linarith
  then obtain rest where p: "msg_payload (set_payload msg (zero_pad y len)) = y @ replicate (if IS_TDD cell then 2 else 0) 0 @ rest"
    "msg_nof_bits (set_payload msg (zero_pad y len)) = len"
    by (rule padded_payload)
  define msg' where "msg' = set_payload msg (zero_pad y len)"
  have sel: "msg_rnti msg' = dl_rnti dci" "msg_location msg' = dl_location dci" "msg_format msg' = SRSRAN_DCI_FORMAT1"
    using msg by (simp_all add: msg'_def)
  define d0 where "d0 = init_dci_dl cell sf msg'"
  have d0: "d0 = zero_dci_dl\<lparr>dl_tb := [zero_dci_tb, disabled_tb], dl_rnti := dl_rnti dci, dl_location := dl_location dci,
      dl_format := SRSRAN_DCI_FORMAT1, is_dwpts := in_dwpts cell sf\<rparr>"
    by (simp add: d0_def init_dci_dl_def sel disabled_tb_def SRSRAN_DCI_TB_DISABLE_def)
  have payload: "msg_payload msg' = pack_cif dci @ pack_ra_header (nof_prb cell) dci @ a @ put_field (dci_mcs_idx t) 5 @
      put_field (pid dci) (HARQ_PID_LEN cell sf) @ [bit_of (ndi t)] @ put_int (dci_rv t) 2 @ put_field (tpc_pucch dci) 2 @
      replicate (if IS_TDD cell then 2 else 0) 0 @ rest"
    using p(1) by (simp add: msg'_def y_def)
  have f: "dl_cif_present dci = cif_enabled cfg" "if cif_enabled cfg then dl_cif dci < 8 else dl_cif dci = 0"
    "pid dci mod 2 ^ HARQ_PID_LEN cell sf = pid dci" "tpc_pucch dci mod 4 = tpc_pucch dci"
    "dci_mcs_idx t mod 32 = dci_mcs_idx t" "int (nat (dci_rv t mod 4)) = dci_rv t"
    using ok(1) t(2) by (auto simp: dl_common_ok_def dl_tb_ok_def)
  have "zero_dci_tb\<lparr>dci_mcs_idx := dci_mcs_idx t, ndi := ndi t, dci_rv := dci_rv t\<rparr> = t"
    using t(3) by (cases t) (simp add: zero_dci_tb_def)
  moreover have "type2_alloc dci = type2_alloc zero_dci_dl" using ok(3) by (simp add: alloc_ok_def Let_def)
  ultimately have rest_eq: "zero_dci_tb\<lparr>dci_mcs_idx := dci_mcs_idx t, ndi := ndi t, dci_rv := dci_rv t\<rparr> = t"
    "type2_alloc zero_dci_dl = type2_alloc dci" "dl_format dci = SRSRAN_DCI_FORMAT1" "dl_tb dci = [t, disabled_tb]"
    "0 \<le> dci_rv t"  "dl_is_tdd dci = IS_TDD cell" "is_dwpts dci = in_dwpts cell sf" "dl_ue_cc_idx dci = 0" "tb_cw_swap dci = False"
    "pinfo dci = 0" "pconf dci = False" "power_offset dci = False" "is_ra_order dci = False" "ra_preamble dci = 0" "ra_mask_idx dci = 0"
    "dl_srs_request dci = False" "dl_srs_request_present dci = False" "dl_dai dci = 0" "sram_id dci = False"
    using ok t fmt by (simp_all add: dl_common_ok_def dl_single_ok_def dl_tb_ok_def)
  note rest_eq = rest_eq zero_dci_sel
  have "dci_format1_unpack cell sf cfg msg' d0 = (msg', dci, 0)"
    unfolding dci_format1_unpack_def payload
    using p(2) f pid_len [of cell sf]
    by (simp add: msg'_def [symmetric] len_def [symmetric] cif_read d0 zero_dci_sel alloc field_read tdd_read Let_def)
      (intro conjI impI; rule srsran_dci_dl_t.equality; simp add: rest_eq)
  then show ?thesis unfolding run prod.case using p(2) sel msg by (simp add: msg'_def d0_def len_def)
qed

section \<open>Format 1A\<close>

definition alloc_1a_ok :: "nat \<Rightarrow> bool \<Rightarrow> srsran_dci_dl_t \<Rightarrow> bool" where
  "alloc_1a_ok N user dci \<longleftrightarrow>
     (let a = type2_alloc dci; nb_gap = (if user \<and> mode a = SRSRAN_RA_TYPE2_DIST \<and> N \<ge> 50 then 1 else 0) in
      alloc_type dci = SRSRAN_RA_ALLOC_TYPE2 \<and> type0_alloc dci = type0_alloc zero_dci_dl \<and> type1_alloc dci = type1_alloc zero_dci_dl \<and>
      riv a < 2 ^ (riv_nbits N - nb_gap) \<and> (mode a = SRSRAN_RA_TYPE2_LOC \<longrightarrow> riv a + 1 < 2 ^ riv_nbits N) \<and>
      (n_gap a = SRSRAN_RA_TYPE2_NG2 \<longrightarrow> mode a = SRSRAN_RA_TYPE2_DIST \<and> N \<ge> 50) \<and>
      (user \<longrightarrow> n_prb1a a = SRSRAN_RA_TYPE2_NPRB1A_2))"

text \<open>An indication value whose bits are not all ones is not taken for a random access order.\<close>

lemma scan_while_end: "scan_while y b n i = n \<Longrightarrow> i \<le> k \<Longrightarrow> k < n \<Longrightarrow> y ! k = b"
proof (induction y b n i rule: scan_while.induct)
  case (1 y b n i)
  show ?case
  proof (cases "i < n \<and> y ! i = b")
    case True
    then have "scan_while y b n (i + 1) = n" using "1.prems"(1) by (simp add: scan_while.simps [of y b n i])
    then show ?thesis using "1.IH" [OF True] "1.prems"(2,3) True by (cases "k = i") auto
  next
    case False
    then have "scan_while y b n i = i" by (subst scan_while.simps) (rule if_not_P)
    then show ?thesis using "1.prems" by simp
  qed
qed

lemma put_field_ones:
  assumes "\<And>k. k < n \<Longrightarrow> put_field v n ! k = 1" "n \<le> 32"
  shows "v mod 2 ^ n + 1 = 2 ^ n"
proof -
  have bits: "bit v j" if "j < n" for j
  proof -
    have "put_field v n ! (n - j - 1) = 1" using that by (intro assms(1)) simp
    moreover have "n - (n - j - 1) - 1 = j" using that by simp
    ultimately have "bit (of_nat v :: u32) j"
      using that by (simp add: put_field_def srsran_bit_unpack_msb bit_of_def split: if_splits)
    then show ?thesis by (simp add: bit_of_nat_iff)
  qed
  have "take_bit n v = mask n" by (rule bit_eqI) (auto simp: bit_take_bit_iff bit_mask_iff bits)
  then show ?thesis by (simp add: take_bit_eq_mod mask_eq_exp_minus_1)
qed

lemma not_pdcch_order:
  assumes "mode (type2_alloc dci) = SRSRAN_RA_TYPE2_LOC \<Longrightarrow> v + 1 < 2 ^ riv_nbits N" "riv_nbits N \<le> 32"
    and "d \<longleftrightarrow> mode (type2_alloc dci) = SRSRAN_RA_TYPE2_DIST"
    and "\<not> d \<Longrightarrow> rest = put_field v (riv_nbits N) @ rest'"
  shows "\<not> is_pdcch_order N m (bit_of d # rest)"
proof (cases d)
  case True
  then show ?thesis by (simp add: is_pdcch_order_def)
next
  case False
  then have loc: "mode (type2_alloc dci) = SRSRAN_RA_TYPE2_LOC" using assms(3) by (cases "mode (type2_alloc dci)") simp_all
  have "scan_while rest 1 (riv_nbits N) 0 \<noteq> riv_nbits N"
  proof
    assume "scan_while rest 1 (riv_nbits N) 0 = riv_nbits N"
    then have "put_field v (riv_nbits N) ! k = 1" if "k < riv_nbits N" for k
      using scan_while_end [of rest 1 "riv_nbits N" 0 k] that assms(4) [OF False] by (simp add: nth_append)
    then have "v mod 2 ^ riv_nbits N + 1 = 2 ^ riv_nbits N" using assms(2) by (intro put_field_ones)
    then show False using assms(1) [OF loc] by simp
  qed
  then show ?thesis by (simp add: is_pdcch_order_def Let_def)
qed

lemma get_flag_Cons: "get_flag (x # rest) = (x \<noteq> 0, rest)"
  by (simp add: get_flag_def)

lemma format1a_roundtrip:
  assumes N: "6 \<le> nof_prb cell" "nof_prb cell \<le> 110"
    and ok: "dl_common_ok cell sf cfg dci" "dl_single_ok dci" "alloc_1a_ok (nof_prb cell) (SRSRAN_RNTI_ISUSER (dl_rnti dci)) dci"
      "dl_is_tdd dci = IS_TDD cell" "tpc_pucch dci = 0" "\<not> SRSRAN_RNTI_ISUSER (dl_rnti dci) \<longrightarrow> \<not> ndi (dl_tb dci ! 0)"
    and fmt: "dl_format dci = SRSRAN_DCI_FORMAT1A"
    and msg: "msg_rnti msg = dl_rnti dci" "msg_location msg = dl_location dci" "msg_format msg = SRSRAN_DCI_FORMAT1A"
  shows "case dci_format1As_pack cell sf cfg dci msg of (msg', r) \<Rightarrow> r = 0 \<and>
    msg_nof_bits msg' = srsran_dci_format_sizeof cell (Some sf) (Some cfg) SRSRAN_DCI_FORMAT1A \<and>
    dci_format1As_unpack cell sf cfg msg' (init_dci_dl cell sf msg') = (msg', dci, 0) \<and>
    msg_rnti msg' = msg_rnti msg \<and> msg_location msg' = msg_location msg \<and> msg_format msg' = msg_format msg"
proof -
  obtain t where t: "dl_tb dci = [t, disabled_tb]" "dl_tb_ok t" "dci_cw_idx t = 0" using ok(2) by (auto simp: dl_single_ok_def)
  define n where "n = nof_prb cell"
  define user where "user = SRSRAN_RNTI_ISUSER (dl_rnti dci)"
  define dist where "dist \<longleftrightarrow> mode (type2_alloc dci) = SRSRAN_RA_TYPE2_DIST"
  define gap where "gap \<longleftrightarrow> n_gap (type2_alloc dci) = SRSRAN_RA_TYPE2_NG2"
  define nb_gap where "nb_gap = (if user \<and> dist \<and> n \<ge> 50 then 1 else 0 :: nat)"
  define len where "len = srsran_dci_format_sizeof cell (Some sf) (Some cfg) SRSRAN_DCI_FORMAT1A"
  define y0 where "y0 = pack_cif dci @ [1, bit_of dist] @ (if nb_gap = 1 then [bit_of gap] else []) @
      put_field (riv (type2_alloc dci)) (riv_nbits n - nb_gap) @ put_field (dci_mcs_idx t) 5 @ put_field (pid dci) (HARQ_PID_LEN cell sf)"
  obtain b c1 c0 where b: "user \<Longrightarrow> b = bit_of (ndi t)" "\<not> user \<Longrightarrow> n \<ge> 50 \<Longrightarrow> dist \<Longrightarrow> b = bit_of gap"
    "\<not> user \<Longrightarrow> c0 = bit_of (n_prb1a (type2_alloc dci) = SRSRAN_RA_TYPE2_NPRB1A_3)"
    and run: "dci_format1As_pack cell sf cfg dci msg = (set_payload msg (zero_pad (y0 @ [b] @ put_int (dci_rv t) 2 @ [c1, c0]) len), 0)"
  proof -
    have w: "sub32 (riv_nbits n) nb_gap = riv_nbits n - nb_gap"
      using riv_nbits_ge [OF N(1)] riv_nbits_le [OF N(2)] by (simp add: n_def nb_gap_def sub32_le)
    have two: "alloc_type dci = SRSRAN_RA_ALLOC_TYPE2" using ok(3) by (simp add: alloc_1a_ok_def Let_def)
    let ?b = "if \<not> user then if n \<ge> 50 \<and> dist then bit_of gap else msg_payload msg ! length y0 else bit_of (ndi t)"
    let ?c = "if user then [0, 0] else [msg_payload msg ! (length y0 + 3), bit_of (n_prb1a (type2_alloc dci) = SRSRAN_RA_TYPE2_NPRB1A_3)]"
    have pack: "dci_format1As_pack cell sf cfg dci msg = (set_payload msg (zero_pad (y0 @ [?b] @ put_int (dci_rv t) 2 @ ?c) len), 0)"
      using two
      unfolding dci_format1As_pack_def user_def [symmetric] n_def [symmetric] dist_def [symmetric] gap_def [symmetric] Let_def
        nb_gap_def [symmetric] len_def [symmetric] t(1) w
      by (simp add: y0_def ac_simps)
    show ?thesis
    proof (cases user)
      case True
      show ?thesis using True pack by (intro that [of "bit_of (ndi t)" 0 0]) simp_all
    next
      case False
      show ?thesis
        using False pack by (intro that [of "if n \<ge> 50 \<and> dist then bit_of gap else msg_payload msg ! length y0" _ "msg_payload msg ! (length y0 + 3)"]) simp_all
    qed
  qed
  have cif: "length (pack_cif dci) = (if cif_enabled cfg then 3 else 0)"
    using ok(1) by (simp add: dl_common_ok_def pack_cif_def)
  define y where "y = y0 @ [b] @ put_int (dci_rv t) 2 @ [c1, c0]"
  have w: "sub32 (riv_nbits n) nb_gap = riv_nbits n - nb_gap" "riv_nbits n - nb_gap \<le> 32" "riv_nbits n \<le> 32" "nb_gap \<le> riv_nbits n"
    using riv_nbits_ge [OF N(1)] riv_nbits_le [OF N(2)] by (simp_all add: n_def nb_gap_def sub32_le)
  have "length y = length (pack_cif dci) + (riv_nbits n + 12) + HARQ_PID_LEN cell sf"
    using w(4) by (simp add: y_def y0_def) (simp add: nb_gap_def)
  moreover have "dci_format1A_sizeof cell sf cfg = len"
    by (simp add: len_def srsran_dci_format_sizeof_def sf_or_zero_def cfg_or_zero_def)
  ultimately have "length y + (if IS_TDD cell then 2 else 0) \<le> len"
    using format_size_ge(2) [where cell = cell and sf = sf and cfg = cfg] unfolding cif n_def by linarith
  then obtain rest where p: "msg_payload (set_payload msg (zero_pad y len)) = y @ replicate (if IS_TDD cell then 2 else 0) 0 @ rest"
    "msg_nof_bits (set_payload msg (zero_pad y len)) = len"
    by (rule padded_payload)
  define msg' where "msg' = set_payload msg (zero_pad y len)"
  have sel: "msg_rnti msg' = dl_rnti dci" "msg_location msg' = dl_location dci" "msg_format msg' = SRSRAN_DCI_FORMAT1A"
    "msg'\<lparr>msg_format := SRSRAN_DCI_FORMAT1A\<rparr> = msg'"
    using msg by (simp_all add: msg'_def)
  define d0 where "d0 = init_dci_dl cell sf msg'"
  have d0: "d0 = zero_dci_dl\<lparr>dl_tb := [zero_dci_tb, disabled_tb], dl_rnti := dl_rnti dci, dl_location := dl_location dci,
      dl_format := SRSRAN_DCI_FORMAT1A, is_dwpts := in_dwpts cell sf\<rparr>"
    by (simp add: d0_def init_dci_dl_def sel disabled_tb_def SRSRAN_DCI_TB_DISABLE_def)
  define tail where "tail = (if nb_gap = 1 then [bit_of gap] else []) @
      put_field (riv (type2_alloc dci)) (riv_nbits n - nb_gap) @ put_field (dci_mcs_idx t) 5 @ put_field (pid dci) (HARQ_PID_LEN cell sf) @
      b # put_int (dci_rv t) 2 @ c1 # c0 # replicate (if IS_TDD cell then 2 else 0) 0 @ rest"
  have payload: "msg_payload msg' = pack_cif dci @ 1 # bit_of dist # tail"
    using p(1) by (simp add: msg'_def y_def y0_def tail_def)
  have a: "riv (type2_alloc dci) mod 2 ^ (riv_nbits n - nb_gap) = riv (type2_alloc dci)"
    "mode (type2_alloc dci) = SRSRAN_RA_TYPE2_LOC \<Longrightarrow> riv (type2_alloc dci) + 1 < 2 ^ riv_nbits n"
    "gap \<Longrightarrow> dist \<and> n \<ge> 50" "user \<Longrightarrow> n_prb1a (type2_alloc dci) = SRSRAN_RA_TYPE2_NPRB1A_2"
    using ok(3) by (simp_all add: alloc_1a_ok_def Let_def n_def user_def dist_def gap_def nb_gap_def split: if_splits)
  have no_order: "\<not> is_pdcch_order n m (bit_of dist # tail)" for m
    using w(3) by (intro not_pdcch_order [OF a(2), of dci]) (simp_all add: dist_def tail_def nb_gap_def)
  have f: "dl_cif_present dci = cif_enabled cfg" "if cif_enabled cfg then dl_cif dci < 8 else dl_cif dci = 0"
    "pid dci mod 2 ^ HARQ_PID_LEN cell sf = pid dci" "dci_mcs_idx t mod 32 = dci_mcs_idx t" "int (nat (dci_rv t mod 4)) = dci_rv t"
    using ok(1) t(2) by (auto simp: dl_common_ok_def dl_tb_ok_def)
  define tail' where "tail' = put_field (riv (type2_alloc dci)) (riv_nbits n - nb_gap) @ put_field (dci_mcs_idx t) 5 @
      put_field (pid dci) (HARQ_PID_LEN cell sf) @
      b # put_int (dci_rv t) 2 @ c1 # c0 # replicate (if IS_TDD cell then 2 else 0) 0 @ rest"
  have gap: "(if nb_gap = Suc 0 then get_flag tail else (False, tail)) = (nb_gap = Suc 0 \<and> gap, tail')"
    by (simp add: tail_def tail'_def field_read)
  have t1: "zero_dci_tb\<lparr>dci_mcs_idx := dci_mcs_idx t, ndi := (if user then b \<noteq> 0 else ndi zero_dci_tb), dci_rv := dci_rv t\<rparr> = t"
    using t ok(6) b(1) by (cases t) (auto simp: zero_dci_tb_def user_def bit_of_neq_0)
  have t2: "mode_of dist = mode (type2_alloc dci)"
    "n_gap_of (if \<not> user \<and> 50 \<le> n \<and> dist then b \<noteq> 0 else nb_gap = Suc 0 \<and> gap) = n_gap (type2_alloc dci)"
    "(if user then n_prb1a (type2_alloc zero_dci_dl) else n_prb1a_of (c0 \<noteq> 0)) = n_prb1a (type2_alloc dci)"
    "(type2_alloc zero_dci_dl)\<lparr>mode := mode (type2_alloc dci), n_gap := n_gap (type2_alloc dci), riv := riv (type2_alloc dci),
       n_prb1a := n_prb1a (type2_alloc dci)\<rparr> = type2_alloc dci"
  proof -
    show "mode_of dist = mode (type2_alloc dci)"
      by (cases "mode (type2_alloc dci)") (simp_all add: mode_of_def dist_def)
    show "n_gap_of (if \<not> user \<and> 50 \<le> n \<and> dist then b \<noteq> 0 else nb_gap = Suc 0 \<and> gap) = n_gap (type2_alloc dci)"
      using a(3) b(2) by (cases "n_gap (type2_alloc dci)") (auto simp: n_gap_of_def gap_def nb_gap_def bit_of_neq_0)
    show "(if user then n_prb1a (type2_alloc zero_dci_dl) else n_prb1a_of (c0 \<noteq> 0)) = n_prb1a (type2_alloc dci)"
      using a(4) b(3) by (cases "n_prb1a (type2_alloc dci)") (auto simp: n_prb1a_of_def zero_dci_dl_def zero_type2_def bit_of_neq_0)
  qed (rule srsran_ra_type2_t.equality, simp_all)
  have rv: "0 \<le> dci_rv t" using t(2) by (simp add: dl_tb_ok_def)
  have order: "is_pdcch_order n m (bit_of dist # tail) = False" for m using no_order by simp
  have read: "dci_format1As_unpack cell sf cfg msg' d0 =
    (msg', fst (unpack_tdd cell (replicate (if IS_TDD cell then 2 else 0) 0 @ rest)
      (d0\<lparr>dl_cif := dl_cif dci, dl_cif_present := dl_cif_present dci, is_ra_order := False, alloc_type := SRSRAN_RA_ALLOC_TYPE2,
         type2_alloc := type2_alloc dci, pid := pid dci, dl_tb := [t, disabled_tb]\<rparr>)), 0)"
    unfolding dci_format1As_unpack_def payload sel(1) user_def [symmetric] n_def [symmetric]
    using f pid_len [of cell sf] w a(1) rv
    by (simp add: cif_read d0 zero_dci_sel order sel(4) get_flag_bits gap field_read nb_gap_def [symmetric] split del: if_split)
      (simp add: tail'_def get_flag_Cons field_read t1 t2 zero_dci_sel split del: if_split cong: if_cong)
  have keep: "dl_format dci = SRSRAN_DCI_FORMAT1A" "dl_tb dci = [t, disabled_tb]" "type0_alloc dci = type0_alloc zero_dci_dl"
    "type1_alloc dci = type1_alloc zero_dci_dl" "alloc_type dci = SRSRAN_RA_ALLOC_TYPE2" "tpc_pucch dci = 0"
    "dl_is_tdd dci = IS_TDD cell" "is_dwpts dci = in_dwpts cell sf" "dl_ue_cc_idx dci = 0" "tb_cw_swap dci = False"
    "pinfo dci = 0" "pconf dci = False" "power_offset dci = False" "is_ra_order dci = False" "ra_preamble dci = 0" "ra_mask_idx dci = 0"
    "dl_srs_request dci = False" "dl_srs_request_present dci = False" "dl_dai dci = 0" "sram_id dci = False"
    using ok t fmt by (simp_all add: dl_common_ok_def dl_single_ok_def alloc_1a_ok_def Let_def)
  have "dci_format1As_unpack cell sf cfg msg' d0 = (msg', dci, 0)"
    unfolding read tdd_read fst_conv unfolding d0
    by (simp add: zero_dci_sel) (intro conjI impI; rule srsran_dci_dl_t.equality; simp add: keep zero_dci_sel)
  then show ?thesis
    unfolding run y_def [symmetric] msg'_def [symmetric] prod.case d0_def using p(2) sel msg by (simp add: msg'_def len_def)
qed

section \<open>Format 1C\<close>

definition alloc_1c_ok :: "nat \<Rightarrow> srsran_dci_dl_t \<Rightarrow> bool" where
  "alloc_1c_ok N dci \<longleftrightarrow>
     (let a = type2_alloc dci in
      alloc_type dci = SRSRAN_RA_ALLOC_TYPE2 \<and> type0_alloc dci = type0_alloc zero_dci_dl \<and> type1_alloc dci = type1_alloc zero_dci_dl \<and>
      mode a = SRSRAN_RA_TYPE2_DIST \<and> n_gap a = SRSRAN_RA_TYPE2_NG1 \<and> n_prb1a a = n_prb1a zero_type2 \<and>
      riv a < 2 ^ riv_nbits_1c N SRSRAN_RA_TYPE2_NG1)"

definition dl_1c_ok :: "srsran_cell_t \<Rightarrow> srsran_dl_sf_cfg_t \<Rightarrow> srsran_dci_dl_t \<Rightarrow> bool" where
  "dl_1c_ok cell sf dci \<longleftrightarrow>
     dl_common_ok cell sf zero_dci_cfg dci \<and> alloc_1c_ok (nof_prb cell) dci \<and> \<not> dl_is_tdd dci \<and> tpc_pucch dci = 0 \<and> pid dci = 0 \<and>
     \<not> tb_cw_swap dci \<and> \<not> sram_id dci \<and> pinfo dci = 0 \<and>
     (\<exists>m < 32. dl_tb dci = [zero_dci_tb\<lparr>dci_mcs_idx := m, dci_rv := -1\<rparr>, disabled_tb])"

lemma riv_nbits_1c_le: "N \<le> 110 \<Longrightarrow> riv_nbits_1c N SRSRAN_RA_TYPE2_NG1 \<le> 32"
proof -
  assume "N \<le> 110"
  then have "srsran_ra_type2_ngap N True \<le> 48"
    by (auto simp: srsran_ra_type2_ngap_def)
  then have "srsran_ra_type2_n_vrb_dl N True \<le> 110"
    by (auto simp: srsran_ra_type2_n_vrb_dl_def Let_def)
  with div_le_dividend have "srsran_ra_type2_n_vrb_dl N True div srsran_ra_type2_n_rb_step N \<le> 110"
    by (rule le_trans)
  from riv_nbits_le [OF this] show ?thesis by (simp add: riv_nbits_1c_def)
qed

lemma format1c_roundtrip:
  assumes N: "nof_prb cell \<le> 110" and ok: "dl_1c_ok cell sf dci" and fmt: "dl_format dci = SRSRAN_DCI_FORMAT1C"
    and msg: "msg_rnti msg = dl_rnti dci" "msg_location msg = dl_location dci" "msg_format msg = SRSRAN_DCI_FORMAT1C"
  shows "case dci_format1Cs_pack cell sf cfg dci msg of (msg', r) \<Rightarrow> r = 0 \<and>
    msg_nof_bits msg' = srsran_dci_format_sizeof cell (Some sf) (Some cfg) SRSRAN_DCI_FORMAT1C \<and>
    dci_format1Cs_unpack cell sf cfg msg' (init_dci_dl cell sf msg') = (msg', dci, 0) \<and>
    msg_rnti msg' = msg_rnti msg \<and> msg_location msg' = msg_location msg \<and> msg_format msg' = msg_format msg"
proof -
  define t where "t = dl_tb dci ! 0"
  have t: "dl_tb dci = [t, disabled_tb]" "dci_mcs_idx t mod 32 = dci_mcs_idx t"
    "zero_dci_tb\<lparr>dci_mcs_idx := dci_mcs_idx t, dci_rv := -1\<rparr> = t"
    using ok by (auto simp: dl_1c_ok_def t_def)
  define n where "n = nof_prb cell"
  define w where "w = riv_nbits_1c n SRSRAN_RA_TYPE2_NG1"
  have a: "alloc_type dci = SRSRAN_RA_ALLOC_TYPE2" "mode (type2_alloc dci) = SRSRAN_RA_TYPE2_DIST"
    "n_gap (type2_alloc dci) = SRSRAN_RA_TYPE2_NG1" "riv (type2_alloc dci) mod 2 ^ w = riv (type2_alloc dci)"
    "n_prb1a (type2_alloc dci) = n_prb1a zero_type2"
    using ok by (simp_all add: dl_1c_ok_def alloc_1c_ok_def w_def n_def Let_def)
  have cif: "pack_cif dci = []" using ok by (simp add: dl_1c_ok_def dl_common_ok_def pack_cif_def zero_dci_cfg_def)
  define y where "y = (if n \<ge> 50 then [bit_of False] else []) @ put_field (riv (type2_alloc dci)) w @ put_field (dci_mcs_idx t) 5"
  define msg' where "msg' = set_payload msg y"
  have run: "dci_format1Cs_pack cell sf cfg dci msg = (msg', 0)"
    by (simp add: dci_format1Cs_pack_def a cif n_def [symmetric] w_def [symmetric] t_def [symmetric] y_def msg'_def)
  have len: "length y = srsran_dci_format_sizeof cell (Some sf) (Some cfg) SRSRAN_DCI_FORMAT1C"
    by (simp add: y_def w_def riv_nbits_1c_def srsran_dci_format_sizeof_def dci_format1C_sizeof_def n_def Let_def)
  have p: "msg_nof_bits msg' = length y" "msg_payload msg' = y @ drop (length y) (msg_payload msg)"
    "msg_rnti msg' = dl_rnti dci" "msg_location msg' = dl_location dci" "msg_format msg' = SRSRAN_DCI_FORMAT1C"
    using msg by (simp_all add: msg'_def)
  have d0: "init_dci_dl cell sf msg' = zero_dci_dl\<lparr>dl_tb := [zero_dci_tb, disabled_tb], dl_rnti := dl_rnti dci,
      dl_location := dl_location dci, dl_format := SRSRAN_DCI_FORMAT1C, is_dwpts := in_dwpts cell sf\<rparr>"
    by (simp add: init_dci_dl_def p disabled_tb_def SRSRAN_DCI_TB_DISABLE_def)
  have keep: "dl_format dci = SRSRAN_DCI_FORMAT1C" "type0_alloc dci = type0_alloc zero_dci_dl"
    "type1_alloc dci = type1_alloc zero_dci_dl" "tpc_pucch dci = 0" "pid dci = 0" "dl_cif dci = 0" "dl_cif_present dci = False"
    "dl_is_tdd dci = False" "is_dwpts dci = in_dwpts cell sf" "dl_ue_cc_idx dci = 0" "tb_cw_swap dci = False"
    "pinfo dci = 0" "pconf dci = False" "power_offset dci = False" "is_ra_order dci = False" "ra_preamble dci = 0" "ra_mask_idx dci = 0"
    "dl_srs_request dci = False" "dl_srs_request_present dci = False" "dl_dai dci = 0" "sram_id dci = False"
    using ok fmt by (simp_all add: dl_common_ok_def dl_1c_ok_def alloc_1c_ok_def Let_def zero_dci_cfg_def)
  have t2: "(type2_alloc zero_dci_dl)\<lparr>mode := SRSRAN_RA_TYPE2_DIST, n_gap := SRSRAN_RA_TYPE2_NG1, riv := riv (type2_alloc dci)\<rparr> = type2_alloc dci"
    "(type2_alloc zero_dci_dl)\<lparr>mode := SRSRAN_RA_TYPE2_DIST, riv := riv (type2_alloc dci)\<rparr> = type2_alloc dci"
    using a by (cases "type2_alloc dci"; simp add: zero_dci_dl_def zero_type2_def)+
  have ng: "n_gap (type2_alloc zero_dci_dl) = SRSRAN_RA_TYPE2_NG1" "n_gap_of False = SRSRAN_RA_TYPE2_NG1"
    by (simp_all add: zero_dci_dl_def zero_type2_def n_gap_of_def)
  have w: "w \<le> 32" using riv_nbits_1c_le [OF N] by (simp add: w_def n_def)
  have nb: "msg'\<lparr>msg_nof_bits := length y\<rparr> = msg'" using p(1) by simp
  have "dci_format1Cs_unpack cell sf cfg msg' (init_dci_dl cell sf msg') = (msg', dci, 0)"
  proof (cases "n \<ge> 50")
    case True
    have y: "y = bit_of False # put_field (riv (type2_alloc dci)) w @ put_field (dci_mcs_idx t) 5"
      using True by (simp add: y_def)
    show ?thesis
      unfolding dci_format1Cs_unpack_def n_def [symmetric] p(2)
      using True a(4) t(2) w nb p(1)
      by (simp add: len d0) (simp add: y field_read ng w_def [symmetric] zero_dci_sel t(3) t2,
          rule srsran_dci_dl_t.equality; simp add: keep zero_dci_sel t(1) a(1))
  next
    case False
    have y: "y = put_field (riv (type2_alloc dci)) w @ put_field (dci_mcs_idx t) 5"
      using False by (simp add: y_def)
    show ?thesis
      unfolding dci_format1Cs_unpack_def n_def [symmetric] p(2)
      using False a(4) t(2) w nb p(1)
      by (simp add: len d0) (simp add: y field_read ng w_def [symmetric] zero_dci_sel t(3) t2,
          rule srsran_dci_dl_t.equality; simp add: keep zero_dci_sel t(1) a(1))
  qed
  then show ?thesis unfolding run prod.case using p len msg by simp
qed

section \<open>Formats 2, 2A and 2B\<close>

definition dl_2_ok :: "srsran_cell_t \<Rightarrow> srsran_dl_sf_cfg_t \<Rightarrow> srsran_dci_cfg_t \<Rightarrow> srsran_dci_dl_t \<Rightarrow> bool" where
  "dl_2_ok cell sf cfg dci \<longleftrightarrow>
     dl_common_ok cell sf cfg dci \<and> alloc_ok (nof_prb cell) dci \<and> \<not> IS_TDD cell \<and> \<not> dl_is_tdd dci \<and>
     (if dl_format dci = SRSRAN_DCI_FORMAT2B then \<not> tb_cw_swap dci else \<not> sram_id dci) \<and>
     pinfo dci < 2 ^ precoding_bits (dl_format dci) (nof_ports cell) \<and>
     (\<exists>t0 t1. dl_tb dci = [t0, t1] \<and> dl_tb_ok t0 \<and> dl_tb_ok t1) \<and> tb_codewords dci = dci"

lemma tb_read:
  "dl_tb_ok t \<Longrightarrow> unpack_tb (pack_tb t @ rest) d = (d\<lparr>dci_mcs_idx := dci_mcs_idx t, ndi := ndi t, dci_rv := dci_rv t\<rparr>, rest)"
  by (simp add: unpack_tb_def pack_tb_def dl_tb_ok_def field_read)

text \<open>The codeword of a block depends on which blocks are enabled and on the swap flag only.\<close>

lemma tb_codewords_again:
  assumes "dl_tb dci = [t0, t1]"
  shows "tb_codewords (dci\<lparr>dl_tb := [t0\<lparr>dci_cw_idx := c0\<rparr>, t1\<lparr>dci_cw_idx := c1\<rparr>]\<rparr>) = tb_codewords dci"
  using assms by (simp add: tb_codewords_def SRSRAN_DCI_IS_TB_EN_def upt_rec numeral_2_eq_2)

lemma format2_size_ge:
  assumes "fmt \<in> {SRSRAN_DCI_FORMAT2, SRSRAN_DCI_FORMAT2A, SRSRAN_DCI_FORMAT2B}"
  shows "(if nof_prb cell > 10 then 1 else 0) + alloc_size (nof_prb cell) + 2 + HARQ_PID_LEN cell sf + 1 + 16 +
    precoding_bits fmt (nof_ports cell) + (if cif_enabled cfg then 3 else 0) + (if IS_TDD cell then 2 else 0) \<le>
    srsran_dci_format_sizeof cell (Some sf) (Some cfg) fmt"
proof -
  have up: "k \<le> skip_sizes [] n" if "k \<le> n" for k n
    using that skip_sizes_spec [of "[]" n] by linarith
  show ?thesis
    using assms
    by (auto simp: srsran_dci_format_sizeof_def sf_or_zero_def cfg_or_zero_def precoding_bits_def
        dci_format2_sizeof_def dci_format2A_sizeof_def dci_format2B_sizeof_def Let_def split del: if_split
        intro!: up) auto
qed

lemma format2_roundtrip:
  assumes N: "6 \<le> nof_prb cell" "nof_prb cell \<le> 110" and ok: "dl_2_ok cell sf cfg dci"
    and fmt: "dl_format dci = fmt" "fmt \<in> {SRSRAN_DCI_FORMAT2, SRSRAN_DCI_FORMAT2A, SRSRAN_DCI_FORMAT2B}"
    and msg: "msg_rnti msg = dl_rnti dci" "msg_location msg = dl_location dci" "msg_format msg = fmt"
  shows "case dci_format2AB_pack cell sf cfg dci msg of (msg', r) \<Rightarrow> r = 0 \<and>
    msg_nof_bits msg' = srsran_dci_format_sizeof cell (Some sf) (Some cfg) fmt \<and>
    dci_format2AB_unpack cell sf cfg msg' (init_dci_dl cell sf msg') = (msg', dci, 0) \<and>
    msg_rnti msg' = msg_rnti msg \<and> msg_location msg' = msg_location msg \<and> msg_format msg' = msg_format msg"
proof -
  obtain t0 t1 where t: "dl_tb dci = [t0, t1]" "dl_tb_ok t0" "dl_tb_ok t1" using ok by (auto simp: dl_2_ok_def)
  have ok': "dl_common_ok cell sf cfg dci" "alloc_ok (nof_prb cell) dci" "\<not> IS_TDD cell" "\<not> dl_is_tdd dci"
    "if fmt = SRSRAN_DCI_FORMAT2B then \<not> tb_cw_swap dci else \<not> sram_id dci"
    "pinfo dci mod 2 ^ precoding_bits fmt (nof_ports cell) = pinfo dci" "tb_codewords dci = dci"
    "fmt = SRSRAN_DCI_FORMAT2B \<Longrightarrow> pinfo dci = 0"
    using ok fmt by (auto simp: dl_2_ok_def precoding_bits_def)
  obtain a where a: "pack_alloc (nof_prb cell) dci = Some a"
    "length (pack_ra_header (nof_prb cell) dci @ a) = (if nof_prb cell > 10 then 1 else 0) + alloc_size (nof_prb cell)"
    and alloc: "\<And>d rest. type0_alloc d = type0_alloc zero_dci_dl \<Longrightarrow> type1_alloc d = type1_alloc zero_dci_dl \<Longrightarrow>
      unpack_alloc (nof_prb cell) (pack_ra_header (nof_prb cell) dci @ a @ rest) d =
        (d\<lparr>alloc_type := alloc_type dci, type0_alloc := type0_alloc dci, type1_alloc := type1_alloc dci\<rparr>, rest)"
    by (rule alloc_read [OF N ok'(2)]) blast
  define len where "len = srsran_dci_format_sizeof cell (Some sf) (Some cfg) fmt"
  define flag where "flag = (if fmt = SRSRAN_DCI_FORMAT2B then sram_id dci else tb_cw_swap dci)"
  define bits where "bits = precoding_bits fmt (nof_ports cell)"
  define y where "y = pack_cif dci @ pack_ra_header (nof_prb cell) dci @ a @ put_field (tpc_pucch dci) 2 @
      put_field (pid dci) (HARQ_PID_LEN cell sf) @ bit_of flag # pack_tb t0 @ pack_tb t1 @ put_field (pinfo dci) bits"
  have run: "dci_format2AB_pack cell sf cfg dci msg = (set_payload msg (zero_pad y len), 0)"
    unfolding dci_format2AB_pack_def a(1) t(1) msg(3)
    by (simp add: y_def len_def flag_def bits_def Let_def split del: if_split)
  have cif: "length (pack_cif dci) = (if cif_enabled cfg then 3 else 0)"
    using ok'(1) by (simp add: dl_common_ok_def pack_cif_def)
  have "length y = length (pack_cif dci) + length (pack_ra_header (nof_prb cell) dci @ a) + 19 + HARQ_PID_LEN cell sf + bits"
    by (simp add: y_def pack_tb_def)
  then have "length y + 0 \<le> len"
    using format2_size_ge [OF fmt(2), of cell sf cfg] unfolding cif a(2) len_def [symmetric] bits_def [symmetric] by linarith
  then obtain rest where p: "msg_payload (set_payload msg (zero_pad y len)) = y @ replicate 0 0 @ rest"
    "msg_nof_bits (set_payload msg (zero_pad y len)) = len"
    by (rule padded_payload)
  define msg' where "msg' = set_payload msg (zero_pad y len)"
  have sel: "msg_rnti msg' = dl_rnti dci" "msg_location msg' = dl_location dci" "msg_format msg' = fmt"
    using msg by (simp_all add: msg'_def)
  define d0 where "d0 = init_dci_dl cell sf msg'"
  have d0: "d0 = zero_dci_dl\<lparr>dl_tb := [zero_dci_tb, disabled_tb], dl_rnti := dl_rnti dci, dl_location := dl_location dci,
      dl_format := fmt, is_dwpts := in_dwpts cell sf\<rparr>"
    by (simp add: d0_def init_dci_dl_def sel disabled_tb_def SRSRAN_DCI_TB_DISABLE_def)
  have payload: "msg_payload msg' = pack_cif dci @ pack_ra_header (nof_prb cell) dci @ a @ put_field (tpc_pucch dci) 2 @
      put_field (pid dci) (HARQ_PID_LEN cell sf) @ bit_of flag # pack_tb t0 @ pack_tb t1 @ put_field (pinfo dci) bits @ rest"
    using p(1) by (simp add: msg'_def y_def)
  have f: "dl_cif_present dci = cif_enabled cfg" "if cif_enabled cfg then dl_cif dci < 8 else dl_cif dci = 0"
    "pid dci mod 2 ^ HARQ_PID_LEN cell sf = pid dci" "tpc_pucch dci mod 4 = tpc_pucch dci"
    using ok'(1) by (auto simp: dl_common_ok_def)
  have bits: "bits \<le> 32" by (simp add: bits_def precoding_bits_def precoding_bits_f2_def precoding_bits_f2a_def)
  have tdd: "unpack_tdd cell z d = (d, z)" for z d using ok'(3) by (simp add: unpack_tdd_def)
  have tbs: "zero_dci_tb\<lparr>dci_mcs_idx := dci_mcs_idx t0, ndi := ndi t0, dci_rv := dci_rv t0\<rparr> = t0\<lparr>dci_cw_idx := 0\<rparr>"
    "disabled_tb\<lparr>dci_mcs_idx := dci_mcs_idx t1, ndi := ndi t1, dci_rv := dci_rv t1\<rparr> = t1\<lparr>dci_cw_idx := 0\<rparr>"
    by (cases t0, simp add: zero_dci_tb_def) (cases t1, simp add: disabled_tb_def zero_dci_tb_def)
  have keep: "type2_alloc dci = type2_alloc zero_dci_dl" "dl_format dci = fmt" "dl_tb dci = [t0, t1]"
    "dl_is_tdd dci = False" "is_dwpts dci = in_dwpts cell sf" "dl_ue_cc_idx dci = 0"
    "pconf dci = False" "power_offset dci = False" "is_ra_order dci = False" "ra_preamble dci = 0" "ra_mask_idx dci = 0"
    "dl_srs_request dci = False" "dl_srs_request_present dci = False" "dl_dai dci = 0"
    using ok'(1,2,4) t fmt by (simp_all add: dl_common_ok_def alloc_ok_def Let_def)
  have whole: "dci\<lparr>dl_tb := [t0\<lparr>dci_cw_idx := 0\<rparr>, t1\<lparr>dci_cw_idx := 0\<rparr>]\<rparr> =
    (let d = d0\<lparr>dl_cif := dl_cif dci, dl_cif_present := dl_cif_present dci, alloc_type := alloc_type dci,
         type0_alloc := type0_alloc dci, type1_alloc := type1_alloc dci, tpc_pucch := tpc_pucch dci, pid := pid dci\<rparr>;
         d = (if fmt = SRSRAN_DCI_FORMAT2B then d\<lparr>sram_id := flag\<rparr> else d\<lparr>tb_cw_swap := flag\<rparr>);
         d = d\<lparr>dl_tb := [t0\<lparr>dci_cw_idx := 0\<rparr>, t1\<lparr>dci_cw_idx := 0\<rparr>]\<rparr> in
     if fmt = SRSRAN_DCI_FORMAT2 \<or> fmt = SRSRAN_DCI_FORMAT2A then d\<lparr>pinfo := pinfo dci\<rparr> else d)"
    using fmt(2) ok'(5,8) unfolding Let_def d0
    by (intro srsran_dci_dl_t.equality) (auto simp: keep zero_dci_sel flag_def)
  have fmts: "fmt = SRSRAN_DCI_FORMAT2B \<and> \<not> (fmt = SRSRAN_DCI_FORMAT2 \<or> fmt = SRSRAN_DCI_FORMAT2A) \<or>
    fmt \<noteq> SRSRAN_DCI_FORMAT2B \<and> (fmt = SRSRAN_DCI_FORMAT2 \<or> fmt = SRSRAN_DCI_FORMAT2A)"
    using fmt(2) by auto
  have "dci_format2AB_unpack cell sf cfg msg' d0 = (msg', tb_codewords (dci\<lparr>dl_tb := [t0\<lparr>dci_cw_idx := 0\<rparr>, t1\<lparr>dci_cw_idx := 0\<rparr>]\<rparr>), 0)"
    using fmts
  proof (elim disjE conjE)
    assume 1: "fmt = SRSRAN_DCI_FORMAT2B" "\<not> (fmt = SRSRAN_DCI_FORMAT2 \<or> fmt = SRSRAN_DCI_FORMAT2A)"
    show ?thesis
      unfolding dci_format2AB_unpack_def payload sel(3) bits_def [symmetric] whole if_P [OF 1(1)] if_not_P [OF 1(2)]
      using f pid_len [of cell sf] bits t(2,3)
      by (simp add: cif_read d0 zero_dci_sel alloc field_read tdd tb_read tbs Let_def split del: if_split)
  qed (unfold dci_format2AB_unpack_def payload sel(3) bits_def [symmetric] whole,
      use f pid_len [of cell sf] bits ok'(6) [folded bits_def] t(2,3) in
      \<open>simp_all add: cif_read d0 zero_dci_sel alloc field_read tdd tb_read tbs Let_def split del: if_split\<close>)
  then have "dci_format2AB_unpack cell sf cfg msg' d0 = (msg', dci, 0)"
    unfolding tb_codewords_again [OF t(1)] ok'(7) .
  then show ?thesis unfolding run prod.case using p(2) sel msg by (simp add: msg'_def d0_def len_def)
qed

end
