(* ===== verification/Dci_Dl_Roundtrip.thy ===== *)
theory Dci_Dl_Roundtrip
  imports Dci_Codec_Dl
begin

text \<open>
  The properties of the downlink packers and readers of \<open>lib/src/phy/phch/dci.c\<close>: the round trip through
  \<open>srsran_dci_msg_pack_pdsch\<close> and \<open>srsran_dci_msg_unpack_pdsch\<close> for every format that is packed, and where
  the two disagree: formats 2, 2A and 2B in TDD cells, and format 1C with the second gap.
\<close>

section \<open>Properties\<close>

definition dci_dl_ok :: "srsran_cell_t \<Rightarrow> srsran_dl_sf_cfg_t \<Rightarrow> srsran_dci_cfg_t \<Rightarrow> srsran_dci_dl_t \<Rightarrow> bool" where
  "dci_dl_ok cell sf cfg dci \<longleftrightarrow>
     (case dl_format dci of
        SRSRAN_DCI_FORMAT1 \<Rightarrow>
          dl_common_ok cell sf cfg dci \<and> dl_single_ok dci \<and> alloc_ok (nof_prb cell) dci \<and> dl_is_tdd dci = IS_TDD cell
      | SRSRAN_DCI_FORMAT1A \<Rightarrow>
          dl_common_ok cell sf cfg dci \<and> dl_single_ok dci \<and>
          alloc_1a_ok (nof_prb cell) (SRSRAN_RNTI_ISUSER (dl_rnti dci)) dci \<and> dl_is_tdd dci = IS_TDD cell \<and> tpc_pucch dci = 0 \<and>
          (\<not> SRSRAN_RNTI_ISUSER (dl_rnti dci) \<longrightarrow> \<not> ndi (dl_tb dci ! 0))
      | SRSRAN_DCI_FORMAT1C \<Rightarrow> dl_1c_ok cell sf dci
      | SRSRAN_DCI_FORMAT2 \<Rightarrow> dl_2_ok cell sf cfg dci
      | SRSRAN_DCI_FORMAT2A \<Rightarrow> dl_2_ok cell sf cfg dci
      | SRSRAN_DCI_FORMAT2B \<Rightarrow> dl_2_ok cell sf cfg dci
      | _ \<Rightarrow> False)"

lemma format_sizeof_cfg: "srsran_dci_format_sizeof cell sf (Some (cfg_or_zero cfg)) fmt = srsran_dci_format_sizeof cell sf cfg fmt"
  by (simp add: srsran_dci_format_sizeof_def cfg_or_zero_def)

text \<open>No packer writes the downlink assignment index.\<close>

lemma pack_pdsch_dai:
  "srsran_dci_msg_pack_pdsch cell sf cfg (dci\<lparr>dl_dai := k\<rparr>) msg = srsran_dci_msg_pack_pdsch cell sf cfg dci msg"
proof -
  have "pack_alloc N (dci\<lparr>dl_dai := k\<rparr>) = pack_alloc N dci" for N
    by (cases "alloc_type dci") (simp_all add: pack_alloc_def)
  moreover have "pack_cif (dci\<lparr>dl_dai := k\<rparr>) = pack_cif dci" "pack_ra_header N (dci\<lparr>dl_dai := k\<rparr>) = pack_ra_header N dci" for N
    by (simp_all add: pack_cif_def pack_ra_header_def)
  ultimately show ?thesis
    by (cases "dl_format dci"; cases "pack_alloc (nof_prb cell) dci")
      (simp_all add: srsran_dci_msg_pack_pdsch_def dci_format1_pack_def dci_format1As_pack_def dci_format1Cs_pack_def
        dci_format2AB_pack_def Let_def)
qed

text \<open>
  C4: What the packer of downlink control information writes, the reader reads back, for the formats 1, 1A, 1C,
  2, 2A and 2B, every cell of 6 to 110 blocks and every configuration: the payload has the size of the
  format, the packer returns success and the reader returns success and the same DCI, if its fields fit and
  the members its format does not carry are as the reader leaves them. \<open>dci_dl_ok\<close> leaves out what the two
  functions do not agree on: a downlink assignment index other than 0, which no packer writes (the last
  conclusion), so that in a TDD cell formats 1 and 1A arrive with the index 0 whatever was sent; formats 2, 2A
  and 2B in TDD cells, where the reader is two bits off; and the second gap of format 1C, whose payload the
  reader rejects (\<open>dci_format1C_gap2_rejected\<close>).
\<close>
theorem dci_dl_roundtrip:
  assumes N: "6 \<le> nof_prb cell" "nof_prb cell \<le> 110" and ok: "dci_dl_ok cell sf (cfg_or_zero cfg) dci"
  shows "let (msg', r) = srsran_dci_msg_pack_pdsch cell sf cfg dci msg in
    r = 0 \<and> msg_nof_bits msg' = srsran_dci_format_sizeof cell (Some sf) cfg (dl_format dci) \<and>
    srsran_dci_msg_unpack_pdsch cell sf cfg msg' = (msg', dci, 0) \<and>
    (\<forall>k. srsran_dci_msg_pack_pdsch cell sf cfg (dci\<lparr>dl_dai := k\<rparr>) msg = (msg', r))"
proof -
  define c where "c = cfg_or_zero cfg"
  define msg0 where "msg0 = msg\<lparr>msg_rnti := dl_rnti dci, msg_location := dl_location dci, msg_format := dl_format dci\<rparr>"
  have m: "msg_rnti msg0 = dl_rnti dci" "msg_location msg0 = dl_location dci" "msg_format msg0 = dl_format dci"
    by (simp_all add: msg0_def)
  note len = format_sizeof_cfg [of cell "Some sf" cfg, folded c_def, symmetric]
  have run: "srsran_dci_msg_pack_pdsch cell sf cfg dci msg =
    (case dl_format dci of
       SRSRAN_DCI_FORMAT1 \<Rightarrow> dci_format1_pack cell sf c dci msg0
     | SRSRAN_DCI_FORMAT1A \<Rightarrow> dci_format1As_pack cell sf c dci msg0
     | SRSRAN_DCI_FORMAT1C \<Rightarrow> dci_format1Cs_pack cell sf c dci msg0
     | SRSRAN_DCI_FORMAT2 \<Rightarrow> dci_format2AB_pack cell sf c dci msg0
     | SRSRAN_DCI_FORMAT2A \<Rightarrow> dci_format2AB_pack cell sf c dci msg0
     | SRSRAN_DCI_FORMAT2B \<Rightarrow> dci_format2AB_pack cell sf c dci msg0
     | _ \<Rightarrow> (msg0, -1))"
    unfolding srsran_dci_msg_pack_pdsch_def Let_def c_def [symmetric] msg0_def [symmetric] m(3) ..
  note defs = srsran_dci_msg_unpack_pdsch_def run len Let_def c_def [symmetric]
  note ok = ok [folded c_def, unfolded dci_dl_ok_def]
  have "let (msg', r) = srsran_dci_msg_pack_pdsch cell sf cfg dci msg in
    r = 0 \<and> msg_nof_bits msg' = srsran_dci_format_sizeof cell (Some sf) cfg (dl_format dci) \<and>
    srsran_dci_msg_unpack_pdsch cell sf cfg msg' = (msg', dci, 0)"
  proof (cases "dl_format dci")
    case SRSRAN_DCI_FORMAT1
    then show ?thesis
      using format1_roundtrip [OF N _ _ _ _ SRSRAN_DCI_FORMAT1 m(1,2), of sf c] ok m
      by (auto simp: defs split: prod.splits)
  next
    case SRSRAN_DCI_FORMAT1A
    then show ?thesis
      using format1a_roundtrip [OF N _ _ _ _ _ _ SRSRAN_DCI_FORMAT1A m(1,2), of sf c] ok m
      by (auto simp: defs split: prod.splits)
  next
    case SRSRAN_DCI_FORMAT1C
    then show ?thesis
      using format1c_roundtrip [OF N(2) _ SRSRAN_DCI_FORMAT1C m(1,2), of sf c] ok m
      by (auto simp: defs split: prod.splits)
  next
    case SRSRAN_DCI_FORMAT2
    then show ?thesis
      using format2_roundtrip [OF N _ SRSRAN_DCI_FORMAT2 _ m(1,2), of sf c] ok m
      by (auto simp: defs split: prod.splits)
  next
    case SRSRAN_DCI_FORMAT2A
    then show ?thesis
      using format2_roundtrip [OF N _ SRSRAN_DCI_FORMAT2A _ m(1,2), of sf c] ok m
      by (auto simp: defs split: prod.splits)
  next
    case SRSRAN_DCI_FORMAT2B
    then show ?thesis
      using format2_roundtrip [OF N _ SRSRAN_DCI_FORMAT2B _ m(1,2), of sf c] ok m
      by (auto simp: defs split: prod.splits)
  qed (use ok in simp_all)
  then show ?thesis by (cases "srsran_dci_msg_pack_pdsch cell sf cfg dci msg") (simp add: pack_pdsch_dai)
qed

definition example_format2a :: srsran_dci_dl_t where
  "example_format2a = zero_dci_dl\<lparr>dl_format := SRSRAN_DCI_FORMAT2A, dl_rnti := 70,
     type0_alloc := \<lparr>rbg_bitmask = 0x1a5\<rparr>, tpc_pucch := 1, pid := 5, tb_cw_swap := True,
     dl_tb := [zero_dci_tb\<lparr>dci_mcs_idx := 11, ndi := True, dci_cw_idx := 1\<rparr>, zero_dci_tb\<lparr>dci_mcs_idx := 20, dci_rv := 2\<rparr>]\<rparr>"

lemma example_format2a_ok: "dci_dl_ok example_cell_fdd zero_dl_sf zero_dci_cfg example_format2a"
proof -
  have P: "srsran_ra_type0_P 25 = 2" "ceil_log2 2 = 1" "alloc_size 25 = 13"
    by (simp_all add: srsran_ra_type0_P_def ceil_log2.simps alloc_size_def ceil_div_def)
  have N: "nof_prb example_cell_fdd = 25" "\<not> IS_TDD example_cell_fdd" "frame_type example_cell_fdd = SRSRAN_FDD"
    by (simp_all add: example_cell_fdd_def example_cell_tdd_def IS_TDD_def)
  show ?thesis
    by (simp add: dci_dl_ok_def dl_2_ok_def dl_common_ok_def alloc_ok_def example_format2a_def zero_dci_dl_def
        zero_dci_cfg_def in_dwpts_def N P HARQ_PID_LEN_def IS_TDD_CFG0_def dl_tb_ok_def tb_codewords_def
        SRSRAN_DCI_IS_TB_EN_def upt_rec zero_dci_tb_def precoding_bits_def Let_def)
qed

theorem dci_dl_roundtrip_witness:
  "\<exists>msg'. srsran_dci_msg_pack_pdsch example_cell_fdd zero_dl_sf None example_format2a example_msg = (msg', 0) \<and>
     srsran_dci_msg_unpack_pdsch example_cell_fdd zero_dl_sf None msg' = (msg', example_format2a, 0)"
proof -
  have "nof_prb example_cell_fdd = 25" by (simp add: example_cell_fdd_def example_cell_tdd_def)
  then show ?thesis
    using dci_dl_roundtrip [of example_cell_fdd zero_dl_sf None example_format2a example_msg] example_format2a_ok
    by (auto simp: cfg_or_zero_def split: prod.splits)
qed

definition dl_2_tdd_ok :: "srsran_cell_t \<Rightarrow> srsran_dl_sf_cfg_t \<Rightarrow> srsran_dci_cfg_t \<Rightarrow> srsran_dci_dl_t \<Rightarrow> bool" where
  "dl_2_tdd_ok cell sf cfg dci \<longleftrightarrow>
     IS_TDD cell \<and> dl_format dci \<in> {SRSRAN_DCI_FORMAT2, SRSRAN_DCI_FORMAT2A, SRSRAN_DCI_FORMAT2B} \<and>
     dl_common_ok cell sf cfg dci \<and> alloc_ok (nof_prb cell) dci \<and> (\<exists>t0 t1. dl_tb dci = [t0, t1] \<and> dl_tb_ok t0)"

text \<open>
  C33: In a TDD cell the packer of formats 2, 2A and 2B leaves out the two bits of the downlink assignment index
  that the size counts and the reader reads before the HARQ process: the reader takes the upper half of the
  process for the index, and for the process its lower half, the swap flag and the first bit of the scheme.
\<close>
theorem dci_format2_tdd_shifted:
  assumes N: "6 \<le> nof_prb cell" "nof_prb cell \<le> 110" and ok: "dl_2_tdd_ok cell sf (cfg_or_zero cfg) dci"
  shows "let (msg', r) = srsran_dci_msg_pack_pdsch cell sf cfg dci msg;
      (msg'', d, r') = srsran_dci_msg_unpack_pdsch cell sf cfg msg';
      flag = (if dl_format dci = SRSRAN_DCI_FORMAT2B then sram_id dci else tb_cw_swap dci) in
    r = 0 \<and> r' = 0 \<and> tpc_pucch d = tpc_pucch dci \<and> dl_dai d = pid dci div 4 \<and>
    pid d = (pid dci mod 4) * 4 + of_bool flag * 2 + dci_mcs_idx (dl_tb dci ! 0) div 16"
proof -
  define c where "c = cfg_or_zero cfg"
  define fmt where "fmt = dl_format dci"
  define msg0 where "msg0 = msg\<lparr>msg_rnti := dl_rnti dci, msg_location := dl_location dci, msg_format := dl_format dci\<rparr>"
  note ok = ok [folded c_def]
  obtain t0 t1 where t: "dl_tb dci = [t0, t1]" "dl_tb_ok t0" using ok by (auto simp: dl_2_tdd_ok_def)
  have ok': "dl_common_ok cell sf c dci" "alloc_ok (nof_prb cell) dci" "IS_TDD cell"
    "fmt = SRSRAN_DCI_FORMAT2 \<or> fmt = SRSRAN_DCI_FORMAT2A \<or> fmt = SRSRAN_DCI_FORMAT2B"
    using ok by (auto simp: dl_2_tdd_ok_def fmt_def)
  obtain a where a: "pack_alloc (nof_prb cell) dci = Some a"
    and alloc: "\<And>d rest. type0_alloc d = type0_alloc zero_dci_dl \<Longrightarrow> type1_alloc d = type1_alloc zero_dci_dl \<Longrightarrow>
      unpack_alloc (nof_prb cell) (pack_ra_header (nof_prb cell) dci @ a @ rest) d =
        (d\<lparr>alloc_type := alloc_type dci, type0_alloc := type0_alloc dci, type1_alloc := type1_alloc dci\<rparr>, rest)"
    by (rule alloc_read [OF N ok'(2)]) blast
  define flag where "flag = (if fmt = SRSRAN_DCI_FORMAT2B then sram_id dci else tb_cw_swap dci)"
  define shifted where "shifted = (pid dci mod 4 * 2 + of_bool flag) * 2 + dci_mcs_idx t0 div 16"
  have pid: "HARQ_PID_LEN cell sf = 4" "pid dci < 16" using ok'(1,3) by (simp_all add: HARQ_PID_LEN_def dl_common_ok_def)
  have mcs: "dci_mcs_idx t0 < 32" using t(2) by (simp add: dl_tb_ok_def)
  have split: "put_field (pid dci) 4 = put_field (pid dci div 4) 2 @ put_field (pid dci) 2"
    using put_field_append [of 2 2 "pid dci div 4" "pid dci"] by simp
  have split': "put_field (dci_mcs_idx t0) 5 = put_field (dci_mcs_idx t0 div 16) 1 @ put_field (dci_mcs_idx t0) 4"
    using put_field_append [of 1 4 "dci_mcs_idx t0 div 16" "dci_mcs_idx t0"] by simp
  have join: "put_field (pid dci) 2 @ bit_of flag # put_field (dci_mcs_idx t0 div 16) 1 = put_field shifted 4"
  proof -
    have "put_field (pid dci) 2 = put_field (pid dci mod 4) 2"
      using put_field_mod [of 2 "pid dci"] by simp
    then have "put_field (pid dci) 2 @ bit_of flag # put_field (dci_mcs_idx t0 div 16) 1 =
        (put_field (pid dci mod 4) 2 @ put_field (of_bool flag) 1) @ put_field (dci_mcs_idx t0 div 16) 1"
      by (simp add: put_field_flag)
    also have "\<dots> = put_field shifted 4"
      using mcs by (simp add: put_field_append shifted_def)
    finally show ?thesis .
  qed
  define rest where "rest = put_field (dci_mcs_idx t0) 4 @ bit_of (ndi t0) # put_int (dci_rv t0) 2"
  have "put_field (pid dci) 4 @ bit_of flag # pack_tb t0 = put_field (pid dci div 4) 2 @
      (put_field (pid dci) 2 @ bit_of flag # put_field (dci_mcs_idx t0 div 16) 1) @ rest"
    by (simp add: pack_tb_def split split' rest_def)
  then have fields: "put_field (pid dci) 4 @ bit_of flag # pack_tb t0 = put_field (pid dci div 4) 2 @ put_field shifted 4 @ rest"
    unfolding join .
  have shifted: "shifted < 16" using mcs by (simp add: shifted_def of_bool_def) (use mcs in linarith)
  define len where "len = srsran_dci_format_sizeof cell (Some sf) (Some c) fmt"
  define y where "y = pack_cif dci @ pack_ra_header (nof_prb cell) dci @ a @ put_field (tpc_pucch dci) 2 @
      (put_field (pid dci) 4 @ bit_of flag # pack_tb t0) @ pack_tb t1 @ put_field (pinfo dci) (precoding_bits fmt (nof_ports cell))"
  define msg' where "msg' = set_payload msg0 (zero_pad y len)"
  have "dci_format2AB_pack cell sf c dci msg0 = (msg', 0)"
    unfolding dci_format2AB_pack_def a t(1)
    by (simp add: msg'_def y_def len_def flag_def fmt_def msg0_def pid(1) Let_def split del: if_split)
  then have run: "srsran_dci_msg_pack_pdsch cell sf cfg dci msg = (msg', 0)"
    using ok'(4) unfolding srsran_dci_msg_pack_pdsch_def Let_def c_def [symmetric] msg0_def [symmetric] by (auto simp: msg0_def fmt_def)
  have sel: "msg_format msg' = fmt" by (simp add: msg'_def msg0_def fmt_def)
  obtain tail where payload: "msg_payload msg' = pack_cif dci @ pack_ra_header (nof_prb cell) dci @ a @ put_field (tpc_pucch dci) 2 @
      put_field (pid dci div 4) 2 @ put_field shifted 4 @ tail"
    by (simp add: msg'_def y_def zero_pad_def fields)
  have f: "dl_cif_present dci = cif_enabled c" "if cif_enabled c then dl_cif dci < 8 else dl_cif dci = 0"
    "tpc_pucch dci mod 4 = tpc_pucch dci"
    using ok'(1) by (auto simp: dl_common_ok_def)
  have d0: "dl_cif (init_dci_dl cell sf msg') = 0" "\<not> dl_cif_present (init_dci_dl cell sf msg')"
    "type0_alloc (init_dci_dl cell sf msg') = type0_alloc zero_dci_dl" "type1_alloc (init_dci_dl cell sf msg') = type1_alloc zero_dci_dl"
    by (simp_all add: init_dci_dl_def zero_dci_sel)
  have cw: "dl_dai (tb_codewords d) = dl_dai d" "pid (tb_codewords d) = pid d" "tpc_pucch (tb_codewords d) = tpc_pucch d" for d
    by (simp_all add: tb_codewords_def Let_def)
  have "srsran_dci_msg_unpack_pdsch cell sf cfg msg' = dci_format2AB_unpack cell sf c msg' (init_dci_dl cell sf msg')"
    using ok'(4) unfolding srsran_dci_msg_unpack_pdsch_def Let_def c_def [symmetric] sel by auto
  moreover have "case dci_format2AB_unpack cell sf c msg' (init_dci_dl cell sf msg') of (msg'', d, r') \<Rightarrow>
      r' = 0 \<and> tpc_pucch d = tpc_pucch dci \<and> dl_dai d = pid dci div 4 \<and> pid d = shifted"
    unfolding dci_format2AB_unpack_def payload cif_read [OF f(1,2) d0(1,2)] prod.case
    using f(3) pid shifted ok'(3)
    by (simp add: alloc d0 field_read unpack_tdd_def cw split_beta Let_def)
  ultimately show ?thesis
    unfolding run fmt_def [symmetric] flag_def [symmetric] t(1)
    by (auto simp: shifted_def algebra_simps Let_def split: prod.splits)
qed


lemma example_format2a_tdd_ok: "dl_2_tdd_ok example_cell_tdd zero_dl_sf zero_dci_cfg example_format2a"
proof -
  have P: "srsran_ra_type0_P 25 = 2" "ceil_log2 2 = 1" "alloc_size 25 = 13"
    by (simp_all add: srsran_ra_type0_P_def ceil_log2.simps alloc_size_def ceil_div_def)
  have N: "nof_prb example_cell_tdd = 25" "IS_TDD example_cell_tdd" "frame_type example_cell_tdd = SRSRAN_TDD"
    by (simp_all add: example_cell_tdd_def IS_TDD_def)
  have "\<not> in_dwpts example_cell_tdd zero_dl_sf"
    by (simp add: in_dwpts_def N zero_dl_sf_def srsran_sfidx_tdd_type_def)
  then show ?thesis
    by (simp add: dl_2_tdd_ok_def dl_common_ok_def alloc_ok_def example_format2a_def zero_dci_dl_def
        zero_dci_cfg_def N P HARQ_PID_LEN_def IS_TDD_CFG0_def dl_tb_ok_def zero_dci_tb_def Let_def)
qed

theorem dci_format2_tdd_shifted_witness:
  "case srsran_dci_msg_unpack_pdsch example_cell_tdd zero_dl_sf None
      (fst (srsran_dci_msg_pack_pdsch example_cell_tdd zero_dl_sf None example_format2a example_msg)) of
     (_, d, r) \<Rightarrow> r = 0 \<and> pid example_format2a = 5 \<and> dl_dai d = 1 \<and> pid d = 6"
proof -
  have "nof_prb example_cell_tdd = 25" by (simp add: example_cell_tdd_def)
  then show ?thesis
    using dci_format2_tdd_shifted [of example_cell_tdd zero_dl_sf None example_format2a example_msg] example_format2a_tdd_ok
    by (auto simp: cfg_or_zero_def example_format2a_def Let_def split: prod.splits)
qed

text \<open>In a cell of 50 blocks the payload of format 1C with the second gap is a bit too long, and the reader rejects it.\<close>

lemma dci_format1C_gap2_rejected:
  assumes N: "nof_prb cell = 50"
    and dci: "alloc_type dci = SRSRAN_RA_ALLOC_TYPE2" "mode (type2_alloc dci) = SRSRAN_RA_TYPE2_DIST"
      "n_gap (type2_alloc dci) = SRSRAN_RA_TYPE2_NG2" "\<not> dl_cif_present dci" "msg_format msg = SRSRAN_DCI_FORMAT1C"
  shows "case dci_format1Cs_pack cell sf cfg dci msg of (msg', r) \<Rightarrow>
    r = 0 \<and> dci_format1Cs_unpack cell sf cfg msg' d = (msg', d, -1)"
proof -
  have w: "riv_nbits_1c 50 SRSRAN_RA_TYPE2_NG1 = 7" "riv_nbits_1c 50 SRSRAN_RA_TYPE2_NG2 = 8"
    by (simp_all add: riv_nbits_1c_def srsran_ra_type2_n_vrb_dl_def srsran_ra_type2_ngap_def srsran_ra_type2_n_rb_step_def
        riv_nbits_def ceil_log2.simps sub32_def mul32_def Let_def)
  have "srsran_dci_format_sizeof cell (Some sf) (Some cfg) SRSRAN_DCI_FORMAT1C = riv_nbits_1c 50 SRSRAN_RA_TYPE2_NG1 + 6"
    by (simp add: srsran_dci_format_sizeof_def dci_format1C_sizeof_def riv_nbits_1c_def N Let_def)
  then show ?thesis
    by (simp add: dci_format1Cs_pack_def dci_format1Cs_unpack_def N dci pack_cif_def w)
qed

end
