(* ===== verification/Cqi.thy ===== *)
theory Cqi
  imports Bit_Fields Phy_Types
begin

text \<open>
  Channel quality reports, \<open>lib/src/phy/phch/cqi.c\<close>: packing and reading of the report types, their sizes, the
  subframes periodic reports are sent in, and the subbands they are about. The members of the union of
  \<open>srsran_cqi_value_t\<close> are kept apart. A division by zero is \<open>None\<close>; the results of \<open>ceil\<close> and \<open>log2\<close>, which
  the code applies to quotients of small integers, are integers. Conversions to and from coding rates and
  signal-to-noise ratios, which are floating point tables, and to strings are not modelled.
\<close>

section \<open>Structures\<close>

datatype srsran_cqi_type_t =
  SRSRAN_CQI_TYPE_WIDEBAND | SRSRAN_CQI_TYPE_SUBBAND_UE | SRSRAN_CQI_TYPE_SUBBAND_UE_DIFF | SRSRAN_CQI_TYPE_SUBBAND_HL

datatype srsran_cqi_report_mode_t =
  SRSRAN_CQI_MODE_10 | SRSRAN_CQI_MODE_11 | SRSRAN_CQI_MODE_12 | SRSRAN_CQI_MODE_20 | SRSRAN_CQI_MODE_21 |
  SRSRAN_CQI_MODE_22 | SRSRAN_CQI_MODE_30 | SRSRAN_CQI_MODE_31 | SRSRAN_CQI_MODE_NA

record srsran_cqi_report_cfg_t =
  periodic_configured :: bool
  aperiodic_configured :: bool
  pmi_idx :: nat
  ri_idx :: nat
  ri_idx_present :: bool
  format_is_subband :: bool
  subband_wideband_ratio :: nat
  periodic_mode :: srsran_cqi_report_mode_t
  aperiodic_mode :: srsran_cqi_report_mode_t

record srsran_cqi_hl_subband_t =
  wideband_cqi_cw0 :: nat
  subband_diff_cqi_cw0 :: nat
  wideband_cqi_cw1 :: nat
  subband_diff_cqi_cw1 :: nat
  hl_pmi :: nat

record srsran_cqi_ue_diff_subband_t =
  diff_wideband_cqi :: nat
  subband_diff_cqi :: nat
  position_subband :: nat

record srsran_cqi_format2_wideband_t =
  wideband_cqi :: nat
  spatial_diff_cqi :: nat
  wideband_pmi :: nat

record srsran_cqi_ue_subband_t =
  subband_cqi :: nat
  subband_label :: nat

record srsran_cqi_cfg_t =
  data_enable :: bool
  pmi_present :: bool
  four_antenna_ports :: bool
  rank_is_not_one :: bool
  subband_label_2_bits :: bool
  scell_index :: nat
  cqi_L :: nat
  cqi_N :: nat
  cqi_sb_idx :: nat
  cqi_type :: srsran_cqi_type_t
  ri_len :: nat

record srsran_cqi_value_t =
  cqi_wideband :: srsran_cqi_format2_wideband_t
  cqi_subband_ue :: srsran_cqi_ue_subband_t
  cqi_subband_ue_diff :: srsran_cqi_ue_diff_subband_t
  cqi_subband_hl :: srsran_cqi_hl_subband_t
  data_crc :: bool

text \<open>The conversion to \<open>uint8_t\<close>.\<close>

definition cast8 :: "nat \<Rightarrow> nat" where
  "cast8 v = v mod 2 ^ 8"

section \<open>Packing\<close>

text \<open>
  The packers write from the start of an array of \<open>SRSRAN_CQI_MAX_BITS\<close> bytes without looking at its end; bits
  that do not fit are \<open>None\<close>.
\<close>

definition SRSRAN_CQI_MAX_BITS :: nat where
  "SRSRAN_CQI_MAX_BITS = 64"

definition write_bits :: "u8 list \<Rightarrow> u8 list \<Rightarrow> nat \<Rightarrow> (u8 list \<times> nat) option" where
  "write_bits buff y n = (if length y \<le> length buff then Some (store buff 0 y, n) else None)"

definition cqi_hl_subband_pack :: "srsran_cqi_cfg_t \<Rightarrow> srsran_cqi_hl_subband_t \<Rightarrow> u8 list \<Rightarrow> (u8 list \<times> nat) option" where
  "cqi_hl_subband_pack cfg msg buff =
     (let N = cqi_N cfg;
          y = put_field (wideband_cqi_cw0 msg) 4 @ put_field (subband_diff_cqi_cw0 msg) (2 * N);
          bit_count = 4 + 2 * N;
          (y, bit_count) =
            (if rank_is_not_one cfg then
               (y @ put_field (wideband_cqi_cw1 msg) 4 @ put_field (subband_diff_cqi_cw1 msg) (2 * N), bit_count + (4 + 2 * N))
             else (y, bit_count));
          (y, bit_count) =
            (if pmi_present cfg then
               if four_antenna_ports cfg then (y @ put_field (hl_pmi msg) 4, bit_count + 4)
               else if rank_is_not_one cfg then (y @ put_field (hl_pmi msg) 1, bit_count + 1)
               else (y @ put_field (hl_pmi msg) 2, bit_count + 2)
             else (y, bit_count)) in
      write_bits buff y bit_count)"

definition cqi_ue_subband_pack :: "srsran_cqi_cfg_t \<Rightarrow> srsran_cqi_ue_diff_subband_t \<Rightarrow> u8 list \<Rightarrow> (u8 list \<times> nat) option" where
  "cqi_ue_subband_pack cfg msg buff =
     write_bits buff (put_field (diff_wideband_cqi msg) 4 @ put_field (subband_diff_cqi msg) 2 @
       put_field (subband_diff_cqi msg) (cqi_L cfg)) (4 + 2 + cqi_L cfg)"

definition cqi_format2_wideband_pack :: "srsran_cqi_cfg_t \<Rightarrow> srsran_cqi_format2_wideband_t \<Rightarrow> u8 list \<Rightarrow> (u8 list \<times> nat) option" where
  "cqi_format2_wideband_pack cfg msg buff =
     (let y = put_field (wideband_cqi msg) 4;
          y = (if pmi_present cfg then
                 if four_antenna_ports cfg then
                   (if rank_is_not_one cfg then y @ put_field (spatial_diff_cqi msg) 3 else y) @ put_field (wideband_pmi msg) 4
                 else if rank_is_not_one cfg then
                   y @ put_field (spatial_diff_cqi msg) 3 @ put_field (wideband_pmi msg) 1
                 else y @ put_field (wideband_pmi msg) 2
               else y) in
      write_bits buff y (length y))"

definition cqi_format2_subband_pack :: "srsran_cqi_cfg_t \<Rightarrow> srsran_cqi_ue_subband_t \<Rightarrow> u8 list \<Rightarrow> (u8 list \<times> nat) option" where
  "cqi_format2_subband_pack cfg msg buff =
     write_bits buff (put_field (subband_cqi msg) 4 @ put_field (subband_label msg) (if subband_label_2_bits cfg then 2 else 1))
       (4 + (if subband_label_2_bits cfg then 2 else 1))"

definition srsran_cqi_value_pack :: "srsran_cqi_cfg_t \<Rightarrow> srsran_cqi_value_t \<Rightarrow> u8 list \<Rightarrow> (u8 list \<times> nat) option" where
  "srsran_cqi_value_pack cfg value buff =
     (case cqi_type cfg of
        SRSRAN_CQI_TYPE_WIDEBAND \<Rightarrow> cqi_format2_wideband_pack cfg (cqi_wideband value) buff
      | SRSRAN_CQI_TYPE_SUBBAND_UE \<Rightarrow> cqi_format2_subband_pack cfg (cqi_subband_ue value) buff
      | SRSRAN_CQI_TYPE_SUBBAND_UE_DIFF \<Rightarrow> cqi_ue_subband_pack cfg (cqi_subband_ue_diff value) buff
      | SRSRAN_CQI_TYPE_SUBBAND_HL \<Rightarrow> cqi_hl_subband_pack cfg (cqi_subband_hl value) buff)"

section \<open>Reading\<close>

text \<open>The readers take the bits in the order the packers wrote them, from an array that holds as many.\<close>

definition cqi_hl_subband_unpack :: "srsran_cqi_cfg_t \<Rightarrow> u8 list \<Rightarrow> srsran_cqi_hl_subband_t \<Rightarrow> srsran_cqi_hl_subband_t \<times> nat" where
  "cqi_hl_subband_unpack cfg buff msg =
     (let N = cqi_N cfg;
          (w, y) = get_field buff 4; (d, y) = get_field y (2 * N);
          msg = msg\<lparr>wideband_cqi_cw0 := cast8 w, subband_diff_cqi_cw0 := d\<rparr>;
          bit_count = 4 + 2 * N;
          (msg, y, bit_count) =
            (if rank_is_not_one cfg then
               let (w, y) = get_field y 4; (d, y) = get_field y (2 * N) in
               (msg\<lparr>wideband_cqi_cw1 := cast8 w, subband_diff_cqi_cw1 := d\<rparr>, y, bit_count + (4 + 2 * N))
             else (msg, y, bit_count)) in
      if pmi_present cfg then
        if four_antenna_ports cfg then (msg\<lparr>hl_pmi := cast8 (fst (get_field y 4))\<rparr>, bit_count + 4)
        else if rank_is_not_one cfg then (msg\<lparr>hl_pmi := cast8 (fst (get_field y 1))\<rparr>, bit_count + 1)
        else (msg\<lparr>hl_pmi := cast8 (fst (get_field y 2))\<rparr>, bit_count + 2)
      else (msg, bit_count))"

definition cqi_ue_subband_unpack ::
  "srsran_cqi_cfg_t \<Rightarrow> u8 list \<Rightarrow> srsran_cqi_ue_diff_subband_t \<Rightarrow> srsran_cqi_ue_diff_subband_t \<times> nat" where
  "cqi_ue_subband_unpack cfg buff msg =
     (let (w, y) = get_field buff 4;
          (d, y) = get_field y 2;
          msg = msg\<lparr>diff_wideband_cqi := cast8 w, subband_diff_cqi := cast8 d\<rparr>;
          (d, y) = get_field y (cqi_L cfg) in
      (msg\<lparr>subband_diff_cqi := cast8 d\<rparr>, 4 + 2 + cqi_L cfg))"

definition cqi_format2_wideband_unpack ::
  "srsran_cqi_cfg_t \<Rightarrow> u8 list \<Rightarrow> srsran_cqi_format2_wideband_t \<Rightarrow> srsran_cqi_format2_wideband_t \<times> nat" where
  "cqi_format2_wideband_unpack cfg buff msg =
     (let (w, y) = get_field buff 4;
          msg = msg\<lparr>wideband_cqi := cast8 w\<rparr>;
          msg =
            (if pmi_present cfg then
               if four_antenna_ports cfg then
                 let (msg, y) = (if rank_is_not_one cfg then let (s, y) = get_field y 3 in (msg\<lparr>spatial_diff_cqi := cast8 s\<rparr>, y)
                                 else (msg, y)) in
                 msg\<lparr>wideband_pmi := cast8 (fst (get_field y 4))\<rparr>
               else if rank_is_not_one cfg then
                 let (s, y) = get_field y 3 in
                 msg\<lparr>spatial_diff_cqi := cast8 s, wideband_pmi := cast8 (fst (get_field y 1))\<rparr>
               else msg\<lparr>wideband_pmi := cast8 (fst (get_field y 2))\<rparr>
             else msg) in
      (msg, 4))"

definition cqi_format2_subband_unpack ::
  "srsran_cqi_cfg_t \<Rightarrow> u8 list \<Rightarrow> srsran_cqi_ue_subband_t \<Rightarrow> srsran_cqi_ue_subband_t \<times> nat" where
  "cqi_format2_subband_unpack cfg buff msg =
     (let (c, y) = get_field buff 4;
          (l, y) = get_field y (if subband_label_2_bits cfg then 2 else 1) in
      (msg\<lparr>subband_cqi := cast8 c, subband_label := cast8 l\<rparr>, 4 + (if subband_label_2_bits cfg then 2 else 1)))"

definition srsran_cqi_value_unpack :: "srsran_cqi_cfg_t \<Rightarrow> u8 list \<Rightarrow> srsran_cqi_value_t \<Rightarrow> srsran_cqi_value_t \<times> nat" where
  "srsran_cqi_value_unpack cfg buff value =
     (case cqi_type cfg of
        SRSRAN_CQI_TYPE_WIDEBAND \<Rightarrow>
          let (m, n) = cqi_format2_wideband_unpack cfg buff (cqi_wideband value) in (value\<lparr>cqi_wideband := m\<rparr>, n)
      | SRSRAN_CQI_TYPE_SUBBAND_UE \<Rightarrow>
          let (m, n) = cqi_format2_subband_unpack cfg buff (cqi_subband_ue value) in (value\<lparr>cqi_subband_ue := m\<rparr>, n)
      | SRSRAN_CQI_TYPE_SUBBAND_UE_DIFF \<Rightarrow>
          let (m, n) = cqi_ue_subband_unpack cfg buff (cqi_subband_ue_diff value) in (value\<lparr>cqi_subband_ue_diff := m\<rparr>, n)
      | SRSRAN_CQI_TYPE_SUBBAND_HL \<Rightarrow>
          let (m, n) = cqi_hl_subband_unpack cfg buff (cqi_subband_hl value) in (value\<lparr>cqi_subband_hl := m\<rparr>, n))"

definition srsran_cqi_size :: "srsran_cqi_cfg_t \<Rightarrow> nat" where
  "srsran_cqi_size cfg =
     (if \<not> data_enable cfg then ri_len cfg
      else
        case cqi_type cfg of
          SRSRAN_CQI_TYPE_WIDEBAND \<Rightarrow>
            (if pmi_present cfg then
               if four_antenna_ports cfg then 4 + (if rank_is_not_one cfg then 3 else 0) + 4
               else if rank_is_not_one cfg then 4 + 3 + 1
               else 4 + 0 + 2
             else 4)
        | SRSRAN_CQI_TYPE_SUBBAND_UE \<Rightarrow> 4 + (if subband_label_2_bits cfg then 2 else 1)
        | SRSRAN_CQI_TYPE_SUBBAND_UE_DIFF \<Rightarrow> 4 + 2 + cqi_L cfg
        | SRSRAN_CQI_TYPE_SUBBAND_HL \<Rightarrow>
            4 + 2 * cqi_N cfg +
            (if rank_is_not_one cfg \<and> pmi_present cfg then 4 + 2 * cqi_N cfg else 0) +
            (if pmi_present cfg then if four_antenna_ports cfg then 4 else if rank_is_not_one cfg then 1 else 2 else 0))"

section \<open>Periodic reports\<close>

text \<open>
  The results are \<open>N_p\<close> and \<open>N_offset\<close>; an index no branch of the table has leaves both at the 0 the callers
  initialise them with.
\<close>

definition cqi_get_N_fdd :: "nat \<Rightarrow> (nat \<times> nat) option" where
  "cqi_get_N_fdd i =
     (if i \<le> 1 then Some (2, i)
      else if i \<le> 6 then Some (5, i - 2)
      else if i \<le> 16 then Some (10, i - 7)
      else if i \<le> 36 then Some (20, i - 17)
      else if i \<le> 76 then Some (40, i - 37)
      else if i \<le> 156 then Some (80, i - 77)
      else if i \<le> 316 then Some (160, i - 157)
      else if i = 317 then None
      else if i \<le> 349 then Some (32, i - 318)
      else if i \<le> 413 then Some (64, i - 350)
      else if i \<le> 541 then Some (128, i - 414)
      else if i \<le> 1023 then None
      else Some (0, 0))"

definition cqi_get_N_tdd :: "nat \<Rightarrow> (nat \<times> nat) option" where
  "cqi_get_N_tdd i =
     (if i = 0 then Some (1, i)
      else if i \<le> 5 then Some (5, i - 1)
      else if i \<le> 15 then Some (10, i - 5)
      else if i \<le> 35 then Some (20, i - 16)
      else if i \<le> 75 then Some (40, i - 36)
      else if i \<le> 155 then Some (80, i - 76)
      else if i \<le> 315 then Some (160, i - 156)
      else if i = 1023 then None
      else Some (0, 0))"

definition cqi_send :: "nat \<Rightarrow> nat \<Rightarrow> bool \<Rightarrow> nat \<Rightarrow> bool option" where
  "cqi_send i t is_fdd H =
     (case (if is_fdd then cqi_get_N_fdd i else cqi_get_N_tdd i) of
        None \<Rightarrow> Some False
      | Some (N_p, N_offset) \<Rightarrow>
          if N_p \<noteq> 0 then
            if mul32 H N_p = 0 then None else Some (sub32 t N_offset mod mul32 H N_p = 0)
          else Some False)"

text \<open>The pair of \<open>M_ri\<close> and the base that \<open>I_ri\<close> is counted from.\<close>

definition ri_table :: "nat \<Rightarrow> (nat \<times> nat) option" where
  "ri_table I_ri =
     (if I_ri \<le> 160 then Some (1, 0)
      else if I_ri \<le> 321 then Some (2, 161)
      else if I_ri \<le> 482 then Some (4, 322)
      else if I_ri \<le> 643 then Some (8, 483)
      else if I_ri \<le> 804 then Some (16, 644)
      else if I_ri \<le> 965 then Some (32, 805)
      else None)"

definition ri_send :: "nat \<Rightarrow> nat \<Rightarrow> nat \<Rightarrow> bool \<Rightarrow> bool" where
  "ri_send i I_ri t is_fdd =
     (case (if is_fdd then cqi_get_N_fdd i else cqi_get_N_tdd i) of
        None \<Rightarrow> False
      | Some (N_p, N_offset_p) \<Rightarrow>
          (case ri_table I_ri of
             None \<Rightarrow> False
           | Some (M_ri, base) \<Rightarrow>
               let N_offset_ri = sub32 0 (sub32 I_ri base) in
               M_ri \<noteq> 0 \<and> N_p \<noteq> 0 \<and> sub32 (sub32 t N_offset_p) N_offset_ri mod mul32 N_p M_ri = 0))"

definition srsran_cqi_periodic_ri_send :: "srsran_cqi_report_cfg_t \<Rightarrow> nat \<Rightarrow> srsran_frame_type_t \<Rightarrow> bool" where
  "srsran_cqi_periodic_ri_send cfg t frame \<longleftrightarrow>
     periodic_configured cfg \<and> ri_idx_present cfg \<and> ri_send (pmi_idx cfg) (ri_idx cfg) t (frame = SRSRAN_FDD)"

definition srsran_cqi_periodic_send :: "srsran_cqi_report_cfg_t \<Rightarrow> nat \<Rightarrow> srsran_frame_type_t \<Rightarrow> bool option" where
  "srsran_cqi_periodic_send cfg t frame =
     (if periodic_configured cfg then cqi_send (pmi_idx cfg) t (frame = SRSRAN_FDD) 1 else Some False)"

section \<open>Subbands\<close>

definition cqi_hl_get_subband_size :: "int \<Rightarrow> int" where
  "cqi_hl_get_subband_size N =
     (if N < 7 then -1 else if N \<le> 26 then 4 else if N \<le> 63 then 6 else if N \<le> 110 then 8 else -1)"

definition cqi_hl_get_bwp_J :: "int \<Rightarrow> int" where
  "cqi_hl_get_bwp_J N =
     (if N < 7 then -1 else if N \<le> 10 then 1 else if N \<le> 26 then 2 else if N \<le> 63 then 3 else if N \<le> 110 then 4 else -1)"

definition cqi_sb_get_Nj :: "nat \<Rightarrow> nat \<Rightarrow> nat" where
  "cqi_sb_get_Nj j N =
     (let J = cqi_hl_get_bwp_J (int N); K = cqi_hl_get_subband_size (int N) in
      if J \<le> 0 \<or> K \<le> 0 then 0
      else if J = 1 then ceil_div N (nat K)
      else let Nj = ceil_div N (nat (K * J)) in if j < nat (J - 1) then Nj else Nj - 1)"

text \<open>The conversion of an \<open>int\<close> to \<open>uint32_t\<close>.\<close>

definition u32_of :: "int \<Rightarrow> nat" where
  "u32_of i = nat (i mod 2 ^ 32)"

definition cqi_sb_get_H :: "srsran_cqi_report_cfg_t \<Rightarrow> nat \<Rightarrow> nat" where
  "cqi_sb_get_H cfg N =
     (let J = u32_of (cqi_hl_get_bwp_J (int N)) in
      if J \<le> 0 then 0 else add32 (mul32 J (subband_wideband_ratio cfg)) 1)"

definition srsran_cqi_periodic_is_subband ::
  "srsran_cqi_report_cfg_t \<Rightarrow> nat \<Rightarrow> nat \<Rightarrow> srsran_frame_type_t \<Rightarrow> bool option" where
  "srsran_cqi_periodic_is_subband cfg t N frame =
     (let H = cqi_sb_get_H cfg N in
      Option.bind (srsran_cqi_periodic_send cfg t frame) (\<lambda>b.
        if b then map_option Not (cqi_send (pmi_idx cfg) t (frame = SRSRAN_FDD) H) else Some False))"

definition srsran_cqi_periodic_sb_bw_part_idx ::
  "srsran_cqi_report_cfg_t \<Rightarrow> nat \<Rightarrow> nat \<Rightarrow> srsran_frame_type_t \<Rightarrow> nat option" where
  "srsran_cqi_periodic_sb_bw_part_idx cfg t N frame =
     (let H = cqi_sb_get_H cfg N in
      case (if frame = SRSRAN_FDD then cqi_get_N_fdd (pmi_idx cfg) else cqi_get_N_tdd (pmi_idx cfg)) of
        None \<Rightarrow> Some 0
      | Some (N_p, N_offset) \<Rightarrow>
          if N_p = 0 \<or> H = 0 then None
          else
            let x = sub32 t N_offset div N_p mod H in
            if x > 0 then
              let J = cqi_hl_get_bwp_J (int N) in if J \<le> 0 then Some 0 else Some ((x - 1) mod nat J)
            else Some 0)"

definition srsran_cqi_get_sb_idx :: "nat \<Rightarrow> nat \<Rightarrow> srsran_cqi_report_cfg_t \<Rightarrow> srsran_cell_t \<Rightarrow> nat option" where
  "srsran_cqi_get_sb_idx t label cfg cell =
     Option.bind (srsran_cqi_periodic_sb_bw_part_idx cfg t (nof_prb cell) (frame_type cell)) (\<lambda>j.
       Some (add32 label (mul32 j (cqi_sb_get_Nj j (nof_prb cell)))))"

definition srsran_cqi_hl_get_L :: "nat \<Rightarrow> int" where
  "srsran_cqi_hl_get_L N =
     (let K = cqi_hl_get_subband_size (int N); J = cqi_hl_get_bwp_J (int N) in
      if K \<le> 0 \<or> J \<le> 0 then -1 else int (ceil_log2 (ceil_div N (nat (K * J)))))"

definition srsran_cqi_hl_get_no_subbands :: "nat \<Rightarrow> nat" where
  "srsran_cqi_hl_get_no_subbands N =
     (let K = cqi_hl_get_subband_size (int N) in if K > 0 then ceil_div N (nat K) else 0)"

section \<open>Round trip\<close>

definition pmi_bits :: "srsran_cqi_cfg_t \<Rightarrow> nat" where
  "pmi_bits cfg = (if four_antenna_ports cfg then 4 else if rank_is_not_one cfg then 1 else 2)"

text \<open>The fields a report carries fit their bits.\<close>

definition cqi_fits :: "srsran_cqi_cfg_t \<Rightarrow> srsran_cqi_value_t \<Rightarrow> bool" where
  "cqi_fits cfg v \<longleftrightarrow>
     (case cqi_type cfg of
        SRSRAN_CQI_TYPE_WIDEBAND \<Rightarrow>
          wideband_cqi (cqi_wideband v) < 16 \<and> spatial_diff_cqi (cqi_wideband v) < 8 \<and> wideband_pmi (cqi_wideband v) < 2 ^ pmi_bits cfg
      | SRSRAN_CQI_TYPE_SUBBAND_UE \<Rightarrow>
          subband_cqi (cqi_subband_ue v) < 16 \<and> subband_label (cqi_subband_ue v) < (if subband_label_2_bits cfg then 4 else 2)
      | SRSRAN_CQI_TYPE_SUBBAND_UE_DIFF \<Rightarrow> False
      | SRSRAN_CQI_TYPE_SUBBAND_HL \<Rightarrow>
          wideband_cqi_cw0 (cqi_subband_hl v) < 16 \<and> wideband_cqi_cw1 (cqi_subband_hl v) < 16 \<and>
          subband_diff_cqi_cw0 (cqi_subband_hl v) < 2 ^ (2 * cqi_N cfg) \<and> subband_diff_cqi_cw1 (cqi_subband_hl v) < 2 ^ (2 * cqi_N cfg) \<and>
          hl_pmi (cqi_subband_hl v) < 2 ^ pmi_bits cfg)"

text \<open>What arrives: the fields the configuration has in the report, over the previous value.\<close>

definition cqi_received :: "srsran_cqi_cfg_t \<Rightarrow> srsran_cqi_value_t \<Rightarrow> srsran_cqi_value_t \<Rightarrow> srsran_cqi_value_t" where
  "cqi_received cfg v old =
     (case cqi_type cfg of
        SRSRAN_CQI_TYPE_WIDEBAND \<Rightarrow> old\<lparr>cqi_wideband := \<lparr>
          wideband_cqi = wideband_cqi (cqi_wideband v),
          spatial_diff_cqi = spatial_diff_cqi (cqi_wideband (if pmi_present cfg \<and> rank_is_not_one cfg then v else old)),
          wideband_pmi = wideband_pmi (cqi_wideband (if pmi_present cfg then v else old))\<rparr>\<rparr>
      | SRSRAN_CQI_TYPE_SUBBAND_UE \<Rightarrow> old\<lparr>cqi_subband_ue := cqi_subband_ue v\<rparr>
      | SRSRAN_CQI_TYPE_SUBBAND_UE_DIFF \<Rightarrow> old\<lparr>cqi_subband_ue_diff := cqi_subband_ue_diff v\<rparr>
      | SRSRAN_CQI_TYPE_SUBBAND_HL \<Rightarrow>
          let second = (if rank_is_not_one cfg then v else old) in
          old\<lparr>cqi_subband_hl := \<lparr>
            wideband_cqi_cw0 = wideband_cqi_cw0 (cqi_subband_hl v), subband_diff_cqi_cw0 = subband_diff_cqi_cw0 (cqi_subband_hl v),
            wideband_cqi_cw1 = wideband_cqi_cw1 (cqi_subband_hl second), subband_diff_cqi_cw1 = subband_diff_cqi_cw1 (cqi_subband_hl second),
            hl_pmi = hl_pmi (cqi_subband_hl (if pmi_present cfg then v else old))\<rparr>\<rparr>)"

lemma cast8_small [simp]: "v < 2 ^ 8 \<Longrightarrow> cast8 v = v"
  by (simp add: cast8_def)

lemma wideband_roundtrip:
  assumes "cqi_type cfg = SRSRAN_CQI_TYPE_WIDEBAND" "cqi_fits cfg v" "length buff = SRSRAN_CQI_MAX_BITS" "data_enable cfg"
  shows "\<exists>bits. srsran_cqi_value_pack cfg v buff = Some (bits, srsran_cqi_size cfg) \<and> length bits = length buff \<and>
    fst (srsran_cqi_value_unpack cfg bits old) = cqi_received cfg v old"
proof -
  have f: "wideband_cqi (cqi_wideband v) < 16" "spatial_diff_cqi (cqi_wideband v) < 8" "wideband_pmi (cqi_wideband v) < 2 ^ pmi_bits cfg"
    using assms by (simp_all add: cqi_fits_def)
  have m: "wideband_cqi (cqi_wideband v) mod 16 = wideband_cqi (cqi_wideband v)" "spatial_diff_cqi (cqi_wideband v) mod 8 = spatial_diff_cqi (cqi_wideband v)"
    using f by simp_all
  have p: "four_antenna_ports cfg \<Longrightarrow> wideband_pmi (cqi_wideband v) < 16"
    "\<not> four_antenna_ports cfg \<Longrightarrow> rank_is_not_one cfg \<Longrightarrow> wideband_pmi (cqi_wideband v) < 2"
    "\<not> four_antenna_ports cfg \<Longrightarrow> \<not> rank_is_not_one cfg \<Longrightarrow> wideband_pmi (cqi_wideband v) < 4"
    using f(3) by (simp_all add: pmi_bits_def)
  show ?thesis
    using assms(1,3,4) f(1,2) m p
    by (cases "pmi_present cfg"; cases "four_antenna_ports cfg"; cases "rank_is_not_one cfg")
      (simp_all add: srsran_cqi_value_unpack_def srsran_cqi_value_pack_def cqi_format2_wideband_pack_def write_bits_def
        cqi_format2_wideband_unpack_def cqi_received_def store_def field_read split_beta srsran_cqi_size_def SRSRAN_CQI_MAX_BITS_def)
qed

lemma subband_ue_roundtrip:
  assumes "cqi_type cfg = SRSRAN_CQI_TYPE_SUBBAND_UE" "cqi_fits cfg v" "length buff = SRSRAN_CQI_MAX_BITS" "data_enable cfg"
  shows "\<exists>bits. srsran_cqi_value_pack cfg v buff = Some (bits, srsran_cqi_size cfg) \<and> length bits = length buff \<and>
    fst (srsran_cqi_value_unpack cfg bits old) = cqi_received cfg v old"
  using assms
  by (simp add: srsran_cqi_value_unpack_def srsran_cqi_value_pack_def cqi_format2_subband_pack_def cqi_fits_def write_bits_def
      cqi_format2_subband_unpack_def cqi_received_def store_def field_read split_beta srsran_cqi_size_def Let_def
      SRSRAN_CQI_MAX_BITS_def split: if_splits)

text \<open>The bits of a report that higher layers configured.\<close>

definition hl_bits :: "srsran_cqi_cfg_t \<Rightarrow> nat" where
  "hl_bits cfg = (4 + 2 * cqi_N cfg) * (if rank_is_not_one cfg then 2 else 1) + (if pmi_present cfg then pmi_bits cfg else 0)"

definition hl_fields :: "srsran_cqi_cfg_t \<Rightarrow> srsran_cqi_hl_subband_t \<Rightarrow> u8 list" where
  "hl_fields cfg msg =
     put_field (wideband_cqi_cw0 msg) 4 @ put_field (subband_diff_cqi_cw0 msg) (2 * cqi_N cfg) @
     (if rank_is_not_one cfg then put_field (wideband_cqi_cw1 msg) 4 @ put_field (subband_diff_cqi_cw1 msg) (2 * cqi_N cfg) else []) @
     (if pmi_present cfg then put_field (hl_pmi msg) (pmi_bits cfg) else [])"

lemma length_hl_fields: "length (hl_fields cfg msg) = hl_bits cfg"
  by (simp add: hl_fields_def hl_bits_def)

lemma hl_subband_pack: "cqi_hl_subband_pack cfg msg buff = write_bits buff (hl_fields cfg msg) (hl_bits cfg)"
  by (cases "pmi_present cfg"; cases "four_antenna_ports cfg"; cases "rank_is_not_one cfg")
    (simp_all add: cqi_hl_subband_pack_def hl_fields_def hl_bits_def pmi_bits_def Let_def)

lemma hl_pack:
  assumes "cqi_type cfg = SRSRAN_CQI_TYPE_SUBBAND_HL"
  shows "srsran_cqi_value_pack cfg v buff =
    (if hl_bits cfg \<le> length buff then Some (store buff 0 (hl_fields cfg (cqi_subband_hl v)), hl_bits cfg) else None)"
  using assms by (simp add: srsran_cqi_value_pack_def hl_subband_pack write_bits_def length_hl_fields)

lemma subband_hl_roundtrip:
  assumes "cqi_type cfg = SRSRAN_CQI_TYPE_SUBBAND_HL" "cqi_fits cfg v" "cqi_N cfg \<le> 16"
  shows "fst (srsran_cqi_value_unpack cfg (store buff 0 (hl_fields cfg (cqi_subband_hl v))) old) = cqi_received cfg v old"
proof -
  let ?v = "cqi_subband_hl v"
  have f: "wideband_cqi_cw0 ?v < 16" "wideband_cqi_cw1 ?v < 16" "hl_pmi ?v < 2 ^ pmi_bits cfg"
    "subband_diff_cqi_cw0 ?v mod 2 ^ (2 * cqi_N cfg) = subband_diff_cqi_cw0 ?v" "subband_diff_cqi_cw1 ?v mod 2 ^ (2 * cqi_N cfg) = subband_diff_cqi_cw1 ?v"
    using assms(1,2) by (simp_all add: cqi_fits_def)
  have m: "wideband_cqi_cw0 ?v mod 16 = wideband_cqi_cw0 ?v" "wideband_cqi_cw1 ?v mod 16 = wideband_cqi_cw1 ?v"
    using f by simp_all
  have p: "four_antenna_ports cfg \<Longrightarrow> hl_pmi ?v < 16"
    "\<not> four_antenna_ports cfg \<Longrightarrow> rank_is_not_one cfg \<Longrightarrow> hl_pmi ?v < 2"
    "\<not> four_antenna_ports cfg \<Longrightarrow> \<not> rank_is_not_one cfg \<Longrightarrow> hl_pmi ?v < 4"
    using f(3) by (simp_all add: pmi_bits_def)
  have N: "2 * cqi_N cfg \<le> 32" using assms(3) by simp
  show ?thesis
    using assms(1) f(1,2,4,5) m p N
    by (cases "pmi_present cfg"; cases "four_antenna_ports cfg"; cases "rank_is_not_one cfg")
      (simp_all add: srsran_cqi_value_unpack_def hl_fields_def pmi_bits_def
        cqi_hl_subband_unpack_def cqi_received_def store_def field_read split_beta)
qed

section \<open>Schedule\<close>

text \<open>Table 7.2.2-1A of TS 36.213 for FDD and 7.2.2-1C for TDD: the first index of each period, and the period.\<close>

definition ref_periods :: "srsran_frame_type_t \<Rightarrow> (nat \<times> nat) list" where
  "ref_periods frame =
     (if frame = SRSRAN_FDD
      then [(0, 2), (2, 5), (7, 10), (17, 20), (37, 40), (77, 80), (157, 160), (318, 32), (350, 64), (414, 128)]
      else [(0, 1), (1, 5), (6, 10), (16, 20), (36, 40), (76, 80), (156, 160)])"

definition ref_schedule :: "srsran_frame_type_t \<Rightarrow> nat \<Rightarrow> (nat \<times> nat) option" where
  "ref_schedule frame i =
     map_option (\<lambda>(low, period). (period, i - low)) (find (\<lambda>(low, period). low \<le> i \<and> i < low + period) (ref_periods frame))"

definition code_schedule :: "srsran_frame_type_t \<Rightarrow> nat \<Rightarrow> (nat \<times> nat) option" where
  "code_schedule frame i = (if frame = SRSRAN_FDD then cqi_get_N_fdd i else cqi_get_N_tdd i)"

lemma code_schedule_ref:
  assumes "ref_schedule frame i = Some (period, offset)"
  shows "0 < period" "offset < period" "period \<le> 160"
    "code_schedule frame i = Some (period, if frame = SRSRAN_TDD \<and> period = 10 then offset + 1 else offset)"
proof -
  have "0 < period \<and> offset < period \<and> period \<le> 160 \<and>
      code_schedule frame i = Some (period, if frame = SRSRAN_TDD \<and> period = 10 then offset + 1 else offset)"
  proof (cases frame)
    case SRSRAN_FDD
    then show ?thesis using assms
      by (auto simp: ref_schedule_def ref_periods_def code_schedule_def cqi_get_N_fdd_def split: if_splits)
  next
    case SRSRAN_TDD
    then show ?thesis using assms
      by (auto simp: ref_schedule_def ref_periods_def code_schedule_def cqi_get_N_tdd_def split: if_splits)
  qed
  then show "0 < period" "offset < period" "period \<le> 160"
    "code_schedule frame i = Some (period, if frame = SRSRAN_TDD \<and> period = 10 then offset + 1 else offset)" by blast+
qed

lemma cqi_send_schedule:
  "cqi_send i t (frame = SRSRAN_FDD) H =
     (case code_schedule frame i of None \<Rightarrow> Some False
      | Some (N_p, N_offset) \<Rightarrow>
          if N_p \<noteq> 0 then if mul32 H N_p = 0 then None else Some (sub32 t N_offset mod mul32 H N_p = 0) else Some False)"
  by (simp add: cqi_send_def code_schedule_def)

lemma mod_offset: "offset \<le> t \<Longrightarrow> (t - offset) mod p = 0 \<longleftrightarrow> t mod p = offset mod (p :: nat)"
  by (metis le_add_diff_inverse2 mod_add_left_eq mod_eq_dvd_iff_nat mod_0_imp_dvd dvd_imp_mod_0)

section \<open>Bandwidth parts\<close>

lemma bwp_J:
  assumes "7 \<le> N" "N \<le> 110"
  shows "1 \<le> cqi_hl_get_bwp_J (int N)" "cqi_hl_get_bwp_J (int N) \<le> 4"
  using assms by (auto simp: cqi_hl_get_bwp_J_def)

lemma sb_H:
  assumes "7 \<le> N" "N \<le> 110" "subband_wideband_ratio cfg < 2 ^ 8"
  shows "cqi_sb_get_H cfg N = nat (cqi_hl_get_bwp_J (int N)) * subband_wideband_ratio cfg + 1"
proof -
  define J where "J = nat (cqi_hl_get_bwp_J (int N))"
  have J: "1 \<le> J" "J \<le> 4" "u32_of (cqi_hl_get_bwp_J (int N)) = J"
    using bwp_J [OF assms(1,2)] by (simp_all add: J_def u32_of_def)
  have "J * subband_wideband_ratio cfg \<le> 4 * 2 ^ 8" using J assms(3) by (intro mult_le_mono) simp_all
  then show ?thesis using J by (simp add: cqi_sb_get_H_def J_def [symmetric] mul32_small add32_small)
qed

text \<open>The subframe of the \<open>x\<close>-th report after the \<open>m\<close>-th wideband report.\<close>

definition report_tti :: "nat \<times> nat \<Rightarrow> nat \<Rightarrow> nat \<Rightarrow> nat \<Rightarrow> nat" where
  "report_tti sched H m x = snd sched + (H * m + x) * fst sched"

lemma report_at:
  assumes N: "7 \<le> N" "N \<le> 110" and K: "1 \<le> subband_wideband_ratio cfg" "subband_wideband_ratio cfg < 2 ^ 8"
    and cfg: "periodic_configured cfg" "ref_schedule frame (pmi_idx cfg) = Some (period, offset)"
    and sched: "code_schedule frame (pmi_idx cfg) = Some sched"
    and t: "t = report_tti sched (cqi_sb_get_H cfg N) m x" "t < 2 ^ 32" "x < cqi_sb_get_H cfg N"
  shows "srsran_cqi_periodic_is_subband cfg t N frame = Some (0 < x)"
    "srsran_cqi_periodic_sb_bw_part_idx cfg t N frame =
      Some (if x = 0 then 0 else (x - 1) mod nat (cqi_hl_get_bwp_J (int N)))"
proof -
  define H where "H = cqi_sb_get_H cfg N"
  define J where "J = nat (cqi_hl_get_bwp_J (int N))"
  obtain off where sc: "sched = (period, off)" "0 < period" "period \<le> 160"
    using code_schedule_ref [OF cfg(2)] sched by auto
  have H: "H = J * subband_wideband_ratio cfg + 1" using sb_H [OF N K(2)] by (simp add: H_def J_def)
  have J: "1 \<le> J" "J \<le> 4" "\<not> cqi_hl_get_bwp_J (int N) \<le> 0" using bwp_J [OF N] by (simp_all add: J_def)
  have "J * subband_wideband_ratio cfg \<le> 4 * 2 ^ 8" using J K by (intro mult_le_mono) simp_all
  then have "H * period \<le> 1025 * 160" using H sc(3) by (intro mult_le_mono) simp_all
  then have mul: "mul32 1 period = period" "mul32 H period = H * period" "H * period \<noteq> 0"
    using sc H by (simp_all add: mul32_small)
  have diff: "sub32 t off = (H * m + x) * period"
    using t(1,2) by (simp add: sub32_le report_tti_def sc(1) H_def)
  have x: "x < H" using t(3) by (simp add: H_def)
  have all: "sub32 t off mod (H * period) = 0 \<longleftrightarrow> x = 0"
  proof -
    have "sub32 t off mod (H * period) = ((H * m + x) mod H) * period"
      unfolding diff by (metis mult_mod_left)
    also have "(H * m + x) mod H = x" using x by simp
    finally show ?thesis using sc(2) by simp
  qed
  have one: "sub32 t off mod period = 0" unfolding diff by simp
  show "srsran_cqi_periodic_is_subband cfg t N frame = Some (0 < x)"
    using cfg(1) one all mul sc(2)
    by (simp add: srsran_cqi_periodic_is_subband_def srsran_cqi_periodic_send_def cqi_send_schedule sched sc(1) H_def [symmetric])
  have "sub32 t off div period mod H = x" unfolding diff using sc(2) x by simp
  then show "srsran_cqi_periodic_sb_bw_part_idx cfg t N frame =
      Some (if x = 0 then 0 else (x - 1) mod nat (cqi_hl_get_bwp_J (int N)))"
    using sched sc H J(3) unfolding srsran_cqi_periodic_sb_bw_part_idx_def code_schedule_def
    by (simp add: H_def [symmetric] J_def [symmetric] Let_def)
qed

section \<open>Properties\<close>

text \<open>
  C35: A wideband report, a subband report and a report that higher layers configured for at most 13 subbands (a cell
  of up to 100 blocks has no more) is read back as it was packed: the bits fit the array, the receiver has the
  transmitted fields, and keeps the others. The number of bits is the one \<open>srsran_cqi_size\<close> announces, except
  for a report configured by higher layers of rank above one without precoding indicator, where the second codeword
  is packed but not counted. With two codewords and 15 subbands the packer writes past the end of the array, as it
  does with 14 subbands and a precoding indicator. Reports on subbands the terminal selects are not read back; they
  are the subject of the next property.
\<close>
theorem cqi_value_roundtrip:
  assumes "length buff = SRSRAN_CQI_MAX_BITS"
  shows "(cqi_fits cfg v \<and> cqi_type cfg \<noteq> SRSRAN_CQI_TYPE_SUBBAND_UE_DIFF \<and> data_enable cfg \<and>
      (cqi_type cfg = SRSRAN_CQI_TYPE_SUBBAND_HL \<longrightarrow> cqi_N cfg \<le> 13) \<longrightarrow>
      (\<exists>bits n. srsran_cqi_value_pack cfg v buff = Some (bits, n) \<and> length bits = length buff \<and>
        fst (srsran_cqi_value_unpack cfg bits old) = cqi_received cfg v old \<and>
        n = srsran_cqi_size cfg +
          (if cqi_type cfg = SRSRAN_CQI_TYPE_SUBBAND_HL \<and> rank_is_not_one cfg \<and> \<not> pmi_present cfg then 4 + 2 * cqi_N cfg else 0))) \<and>
    (cqi_type cfg = SRSRAN_CQI_TYPE_SUBBAND_HL \<and> rank_is_not_one cfg \<and> (15 \<le> cqi_N cfg \<or> 14 \<le> cqi_N cfg \<and> pmi_present cfg) \<longrightarrow>
      srsran_cqi_value_pack cfg v buff = None)"
proof (rule conjI; rule impI; elim conjE)
  assume a: "cqi_fits cfg v" "cqi_type cfg \<noteq> SRSRAN_CQI_TYPE_SUBBAND_UE_DIFF" "data_enable cfg"
    "cqi_type cfg = SRSRAN_CQI_TYPE_SUBBAND_HL \<longrightarrow> cqi_N cfg \<le> 13"
  show "\<exists>bits n. srsran_cqi_value_pack cfg v buff = Some (bits, n) \<and> length bits = length buff \<and>
      fst (srsran_cqi_value_unpack cfg bits old) = cqi_received cfg v old \<and>
      n = srsran_cqi_size cfg +
        (if cqi_type cfg = SRSRAN_CQI_TYPE_SUBBAND_HL \<and> rank_is_not_one cfg \<and> \<not> pmi_present cfg then 4 + 2 * cqi_N cfg else 0)"
  proof (cases "cqi_type cfg")
    case SRSRAN_CQI_TYPE_WIDEBAND
    then show ?thesis using wideband_roundtrip [OF _ a(1) assms a(3)] by simp
  next
    case SRSRAN_CQI_TYPE_SUBBAND_UE
    then show ?thesis using subband_ue_roundtrip [OF _ a(1) assms a(3)] by simp
  next
    case SRSRAN_CQI_TYPE_SUBBAND_UE_DIFF
    then show ?thesis using a(2) by simp
  next
    case hl: SRSRAN_CQI_TYPE_SUBBAND_HL
    have N: "cqi_N cfg \<le> 13" using a(4) hl by simp
    have size: "hl_bits cfg = srsran_cqi_size cfg + (if rank_is_not_one cfg \<and> \<not> pmi_present cfg then 4 + 2 * cqi_N cfg else 0)"
      using hl a(3) by (simp add: hl_bits_def pmi_bits_def srsran_cqi_size_def)
    have "hl_bits cfg \<le> length buff"
      using N assms by (simp add: hl_bits_def pmi_bits_def SRSRAN_CQI_MAX_BITS_def)
    moreover have "length (store buff 0 (hl_fields cfg (cqi_subband_hl v))) = length buff"
      using calculation by (simp add: store_def length_hl_fields)
    moreover have "cqi_N cfg \<le> 16" using N by simp
    ultimately show ?thesis using subband_hl_roundtrip [OF hl a(1)] hl size by (simp add: hl_pack [OF hl])
  qed
next
  assume a: "cqi_type cfg = SRSRAN_CQI_TYPE_SUBBAND_HL" "rank_is_not_one cfg" "15 \<le> cqi_N cfg \<or> 14 \<le> cqi_N cfg \<and> pmi_present cfg"
  have "length buff < hl_bits cfg"
    using a(2,3) assms by (auto simp: hl_bits_def pmi_bits_def SRSRAN_CQI_MAX_BITS_def)
  then show "srsran_cqi_value_pack cfg v buff = None" by (simp add: hl_pack [OF a(1)])
qed

definition example_cqi_cfg :: srsran_cqi_cfg_t where
  "example_cqi_cfg = \<lparr>data_enable = True, pmi_present = True, four_antenna_ports = False, rank_is_not_one = True,
     subband_label_2_bits = False, scell_index = 0, cqi_L = 2, cqi_N = 7, cqi_sb_idx = 0,
     cqi_type = SRSRAN_CQI_TYPE_SUBBAND_HL, ri_len = 1\<rparr>"

definition example_cqi_value :: srsran_cqi_value_t where
  "example_cqi_value = \<lparr>cqi_wideband = \<lparr>wideband_cqi = 0, spatial_diff_cqi = 0, wideband_pmi = 0\<rparr>,
     cqi_subband_ue = \<lparr>subband_cqi = 0, subband_label = 0\<rparr>,
     cqi_subband_ue_diff = \<lparr>diff_wideband_cqi = 9, subband_diff_cqi = 3, position_subband = 1\<rparr>,
     cqi_subband_hl = \<lparr>wideband_cqi_cw0 = 13, subband_diff_cqi_cw0 = 0x2a51, wideband_cqi_cw1 = 4, subband_diff_cqi_cw1 = 77, hl_pmi = 1\<rparr>,
     data_crc = True\<rparr>"

theorem cqi_value_roundtrip_witness:
  "(\<exists>bits. srsran_cqi_value_pack example_cqi_cfg example_cqi_value (replicate 64 0) = Some (bits, 37) \<and>
      fst (srsran_cqi_value_unpack example_cqi_cfg bits example_cqi_value) = example_cqi_value) \<and>
   srsran_cqi_value_pack (example_cqi_cfg\<lparr>cqi_N := 14\<rparr>) example_cqi_value (replicate 64 0) = None"
proof -
  have l: "length (replicate 64 (0 :: u8)) = SRSRAN_CQI_MAX_BITS" by (simp add: SRSRAN_CQI_MAX_BITS_def)
  have cfg: "cqi_type example_cqi_cfg = SRSRAN_CQI_TYPE_SUBBAND_HL" "cqi_N example_cqi_cfg = 7" "data_enable example_cqi_cfg"
    "rank_is_not_one example_cqi_cfg" "pmi_present example_cqi_cfg" "cqi_fits example_cqi_cfg example_cqi_value"
    "srsran_cqi_size example_cqi_cfg = 37"
    by (simp_all add: example_cqi_cfg_def example_cqi_value_def cqi_fits_def pmi_bits_def srsran_cqi_size_def)
  have same: "cqi_received example_cqi_cfg example_cqi_value example_cqi_value = example_cqi_value"
    by (simp add: cqi_received_def cfg)
  show ?thesis
    using cqi_value_roundtrip [OF l, of example_cqi_cfg example_cqi_value example_cqi_value]
      cqi_value_roundtrip [OF l, of "example_cqi_cfg\<lparr>cqi_N := 14\<rparr>" example_cqi_value] cfg same
    by auto
qed

text \<open>
  C36: A report on subbands the terminal selects loses the position of the subbands: the packer writes the
  differential value a second time, cut to the bits of the position, and the reader takes it for the
  differential value and leaves the position as it was.
\<close>
theorem cqi_position_lost:
  assumes "cqi_type cfg = SRSRAN_CQI_TYPE_SUBBAND_UE_DIFF" "cqi_L cfg \<le> 8" "length buff = SRSRAN_CQI_MAX_BITS"
    and "diff_wideband_cqi (cqi_subband_ue_diff v) < 16"
  shows "\<exists>bits n. srsran_cqi_value_pack cfg v buff = Some (bits, n) \<and>
    srsran_cqi_value_pack cfg (v\<lparr>cqi_subband_ue_diff := (cqi_subband_ue_diff v)\<lparr>position_subband := p\<rparr>\<rparr>) buff = Some (bits, n) \<and>
    cqi_subband_ue_diff (fst (srsran_cqi_value_unpack cfg bits old)) =
      \<lparr>diff_wideband_cqi = diff_wideband_cqi (cqi_subband_ue_diff v),
         subband_diff_cqi = subband_diff_cqi (cqi_subband_ue_diff v) mod 2 ^ cqi_L cfg,
         position_subband = position_subband (cqi_subband_ue_diff old)\<rparr>"
proof -
  have "k mod 2 ^ cqi_L cfg < 2 ^ 8" for k :: nat
  proof -
    have "k mod 2 ^ cqi_L cfg < 2 ^ cqi_L cfg" by simp
    also have "(2 :: nat) ^ cqi_L cfg \<le> 2 ^ 8" using assms(2) by (intro power_increasing) simp_all
    finally show ?thesis .
  qed
  then show ?thesis
    using assms by (simp add: srsran_cqi_value_pack_def srsran_cqi_value_unpack_def cqi_ue_subband_pack_def write_bits_def
      cqi_ue_subband_unpack_def store_def field_read split_beta SRSRAN_CQI_MAX_BITS_def)
qed

theorem cqi_position_lost_witness:
  "\<exists>bits n. srsran_cqi_value_pack (example_cqi_cfg\<lparr>cqi_type := SRSRAN_CQI_TYPE_SUBBAND_UE_DIFF\<rparr>) example_cqi_value (replicate 64 0) = Some (bits, n) \<and>
    cqi_subband_ue_diff (fst (srsran_cqi_value_unpack (example_cqi_cfg\<lparr>cqi_type := SRSRAN_CQI_TYPE_SUBBAND_UE_DIFF\<rparr>) bits
      (example_cqi_value\<lparr>cqi_subband_ue_diff := \<lparr>diff_wideband_cqi = 0, subband_diff_cqi = 0, position_subband = 0\<rparr>\<rparr>))) =
      \<lparr>diff_wideband_cqi = 9, subband_diff_cqi = 3, position_subband = 0\<rparr>"
  using cqi_position_lost [of "example_cqi_cfg\<lparr>cqi_type := SRSRAN_CQI_TYPE_SUBBAND_UE_DIFF\<rparr>" "replicate 64 0" example_cqi_value 0
      "example_cqi_value\<lparr>cqi_subband_ue_diff := \<lparr>diff_wideband_cqi = 0, subband_diff_cqi = 0, position_subband = 0\<rparr>\<rparr>"]
  by (auto simp: example_cqi_cfg_def example_cqi_value_def SRSRAN_CQI_MAX_BITS_def)

text \<open>
  C37: A terminal configured for periodic reports sends one in each period of its index, in the subframe
  TS 36.213 7.2.2 gives, from the offset on. The TDD indices of period 10 are one subframe late; and before
  the offset the difference wraps around, so that a report is due when the wrapped difference is a multiple
  of the period, which for periods that do not divide \<open>2 ^ 32\<close> is another subframe.
\<close>
theorem cqi_periodic_schedule:
  assumes "periodic_configured cfg" "ref_schedule frame (pmi_idx cfg) = Some (period, offset)" "t < 2 ^ 32"
  shows "let late = (if frame = SRSRAN_TDD \<and> period = 10 then 1 else 0) in
    srsran_cqi_periodic_send cfg t frame =
      Some (if offset + late \<le> t then t mod period = (offset + late) mod period
            else (t + 2 ^ 32 - (offset + late)) mod period = 0)"
proof -
  define off where "off = offset + (if frame = SRSRAN_TDD \<and> period = 10 then 1 else 0)"
  note r = code_schedule_ref [OF assms(2)]
  have code: "code_schedule frame (pmi_idx cfg) = Some (period, off)" using r(4) by (simp add: off_def)
  have p: "mul32 1 period = period" "period \<noteq> 0" using r(1,3) by (simp_all add: mul32_small)
  have off: "off < 2 ^ 32" using r(2,3) by (simp add: off_def)
  have "srsran_cqi_periodic_send cfg t frame = Some (sub32 t off mod period = 0)"
    unfolding srsran_cqi_periodic_send_def cqi_send_schedule code if_P [OF assms(1)] using p by simp
  moreover have "sub32 t off mod period = 0 \<longleftrightarrow> t mod period = off mod period" if "off \<le> t"
    using that assms(3) by (simp add: sub32_le mod_offset)
  moreover have "sub32 t off = t + 2 ^ 32 - off" if "\<not> off \<le> t"
    using that off by (intro sub32_underflow) simp_all
  ultimately show ?thesis unfolding Let_def off_def [symmetric] by simp
qed

definition example_report :: srsran_cqi_report_cfg_t where
  "example_report = \<lparr>periodic_configured = True, aperiodic_configured = False, pmi_idx = 14, ri_idx = 0, ri_idx_present = False,
     format_is_subband = True, subband_wideband_ratio = 1, periodic_mode = SRSRAN_CQI_MODE_20, aperiodic_mode = SRSRAN_CQI_MODE_NA\<rparr>"

theorem cqi_periodic_schedule_witness:
  "srsran_cqi_periodic_send example_report 27 SRSRAN_FDD = Some True \<and>
   srsran_cqi_periodic_send example_report 1 SRSRAN_FDD = Some True \<and>
   srsran_cqi_periodic_send example_report 28 SRSRAN_FDD = Some False"
proof -
  have "ref_schedule SRSRAN_FDD (pmi_idx example_report) = Some (10, 7)" "periodic_configured example_report"
    by (simp_all add: ref_schedule_def ref_periods_def example_report_def)
  then show ?thesis
    using cqi_periodic_schedule [of example_report SRSRAN_FDD 10 7 27] cqi_periodic_schedule [of example_report SRSRAN_FDD 10 7 1]
      cqi_periodic_schedule [of example_report SRSRAN_FDD 10 7 28] by (simp add: Let_def)
qed

text \<open>
  C38: Where subband reports are configured, one report in \<open>J K + 1\<close> is a wideband report, and the \<open>J K\<close> reports
  after it go through the \<open>J\<close> bandwidth parts of the cell in order, \<open>K\<close> times (TS 36.213 7.2.2), for every
  cell of 7 to 110 blocks and every valid index.
\<close>
theorem cqi_subband_cycle:
  assumes "7 \<le> N" "N \<le> 110" "1 \<le> subband_wideband_ratio cfg" "subband_wideband_ratio cfg < 2 ^ 8"
    and "periodic_configured cfg" "ref_schedule frame (pmi_idx cfg) = Some (period, offset)"
    and "code_schedule frame (pmi_idx cfg) = Some sched"
    and "J = nat (cqi_hl_get_bwp_J (int N))" "H = J * subband_wideband_ratio cfg + 1"
    and "j < J" "k < subband_wideband_ratio cfg" "report_tti sched H m (1 + k * J + j) < 2 ^ 32"
  shows "srsran_cqi_periodic_is_subband cfg (report_tti sched H m 0) N frame = Some False \<and>
    srsran_cqi_periodic_is_subband cfg (report_tti sched H m (1 + k * J + j)) N frame = Some True \<and>
    srsran_cqi_periodic_sb_bw_part_idx cfg (report_tti sched H m (1 + k * J + j)) N frame = Some j"
proof -
  have H: "cqi_sb_get_H cfg N = H" using sb_H [OF assms(1,2,4)] assms(8,9) by simp
  have "(k + 1) * J \<le> subband_wideband_ratio cfg * J" using assms(11) by (intro mult_le_mono1) simp
  then have x: "1 + k * J + j < H" using assms(9,10) by (simp add: ac_simps)
  have "(H * m + 0) * fst sched \<le> (H * m + (1 + k * J + j)) * fst sched" by (intro mult_le_mono1) simp
  then have "report_tti sched H m 0 < 2 ^ 32" using assms(12) by (simp add: report_tti_def)
  then have "srsran_cqi_periodic_is_subband cfg (report_tti sched H m 0) N frame = Some (0 < (0 :: nat))"
    using report_at(1) [OF assms(1-7), of "report_tti sched H m 0" m 0] x unfolding H by simp
  moreover have "(1 + k * J + j - 1) mod J = j" using assms(10) by simp
  ultimately show ?thesis
    using report_at [OF assms(1-7), of "report_tti sched H m (1 + k * J + j)" m "1 + k * J + j"] x assms(8,12)
    unfolding H by simp
qed

theorem cqi_subband_cycle_witness:
  "srsran_cqi_periodic_is_subband example_report 17 50 SRSRAN_FDD = Some True \<and>
   srsran_cqi_periodic_sb_bw_part_idx example_report 37 50 SRSRAN_FDD = Some 2"
proof -
  have r: "ref_schedule SRSRAN_FDD (pmi_idx example_report) = Some (10, 7)" "code_schedule SRSRAN_FDD (pmi_idx example_report) = Some (10, 7)"
    "periodic_configured example_report" "subband_wideband_ratio example_report = 1"
    by (simp_all add: ref_schedule_def ref_periods_def example_report_def code_schedule_def cqi_get_N_fdd_def)
  have J: "nat (cqi_hl_get_bwp_J (int 50)) = 3" by (simp add: cqi_hl_get_bwp_J_def)
  note cycle = cqi_subband_cycle [of 50 example_report SRSRAN_FDD 10 7 "(10, 7)" 3 4 _ 0 0]
  show ?thesis using cycle [of 0] cycle [of 2] r J by (simp add: report_tti_def)
qed

text \<open>
  C39: The indices of the subbands collide in cells of more than 10 blocks: the last bandwidth part has one subband
  less than the others, and \<open>srsran_cqi_get_sb_idx\<close> multiplies this smaller number with the number of parts
  before it, so that the last part starts at the index of a subband of an earlier part.
\<close>
theorem cqi_sb_idx_collision:
  assumes "11 \<le> nof_prb cell" "nof_prb cell \<le> 110"
    and "J = nat (cqi_hl_get_bwp_J (int (nof_prb cell)))" "Nj = cqi_sb_get_Nj 0 (nof_prb cell)"
    and "srsran_cqi_periodic_sb_bw_part_idx cfg t (nof_prb cell) (frame_type cell) = Some (J - 1)"
    and "srsran_cqi_periodic_sb_bw_part_idx cfg t' (nof_prb cell) (frame_type cell) = Some ((J - 1) * (Nj - 1) div Nj)"
  shows "let label = (J - 1) * (Nj - 1) mod Nj in
    (J - 1) * (Nj - 1) div Nj < J - 1 \<and> label < Nj \<and>
    srsran_cqi_get_sb_idx t 0 cfg cell = srsran_cqi_get_sb_idx t' label cfg cell"
proof -
  define N where "N = nof_prb cell"
  have J: "2 \<le> J" "J \<le> 4" "cqi_hl_get_bwp_J (int N) = int J"
    using assms(1-3) by (auto simp: cqi_hl_get_bwp_J_def N_def)
  have K: "0 < cqi_hl_get_subband_size (int N)" using assms(1,2) by (auto simp: cqi_hl_get_subband_size_def N_def)
  have KJ: "0 < nat (cqi_hl_get_subband_size (int N) * int J)" using K J by simp
  have Nj: "Nj = ceil_div N (nat (cqi_hl_get_subband_size (int N) * int J))"
    using J K assms(4) by (simp add: cqi_sb_get_Nj_def Let_def N_def [symmetric])
  have "\<not> ceil_div N (nat (cqi_hl_get_subband_size (int N) * int J)) \<le> 0"
    unfolding ceil_div_le_iff [OF KJ] using assms(1) by (simp add: N_def)
  then have pos: "0 < Nj" using Nj by simp
  have "ceil_div N (nat (cqi_hl_get_subband_size (int N) * int J)) \<le> 110"
  proof (subst ceil_div_le_iff [OF KJ])
    have "N * 1 \<le> 110 * nat (cqi_hl_get_subband_size (int N) * int J)"
      using assms(2) KJ by (intro mult_le_mono) (simp_all add: N_def)
    then show "N \<le> 110 * nat (cqi_hl_get_subband_size (int N) * int J)" by simp
  qed
  then have small: "Nj \<le> 110" using Nj by simp
  have part: "cqi_sb_get_Nj j N = (if j < J - 1 then Nj else Nj - 1)" for j
    using J K Nj by (simp add: cqi_sb_get_Nj_def Let_def nat_diff_distrib)
  define j where "j = (J - 1) * (Nj - 1) div Nj"
  define label where "label = (J - 1) * (Nj - 1) mod Nj"
  have split: "j * Nj + label = (J - 1) * (Nj - 1)" by (simp add: j_def label_def)
  have le: "(J - 1) * (Nj - 1) \<le> 3 * 110" using J small by (intro mult_le_mono) simp_all
  have "(J - 1) * (Nj - 1) < (J - 1) * Nj" using J pos by simp
  then have jJ: "j < J - 1" unfolding j_def by (rule less_mult_imp_div_less)
  have "mul32 (J - 1) (Nj - 1) = (J - 1) * (Nj - 1)" "mul32 j Nj = j * Nj"
    using le split by (simp_all add: mul32_small)
  moreover have "add32 label (j * Nj) = j * Nj + label" "add32 0 ((J - 1) * (Nj - 1)) = (J - 1) * (Nj - 1)"
    using le split by (simp_all add: add32_small ac_simps)
  ultimately have "srsran_cqi_get_sb_idx t 0 cfg cell = srsran_cqi_get_sb_idx t' label cfg cell"
    using assms(5) assms(6) [folded j_def] jJ split by (simp add: srsran_cqi_get_sb_idx_def N_def [symmetric] part)
  then show ?thesis using jJ pos by (simp add: j_def label_def Let_def)
qed

definition example_cell50 :: srsran_cell_t where
  "example_cell50 = \<lparr>nof_prb = 50, nof_ports = 2, cell_id = 1, cell_cp = SRSRAN_CP_NORM, frame_type = SRSRAN_FDD\<rparr>"

theorem cqi_sb_idx_collision_witness:
  "srsran_cqi_get_sb_idx 37 0 example_report example_cell50 = srsran_cqi_get_sb_idx 27 1 example_report example_cell50"
proof -
  have part: "srsran_cqi_periodic_sb_bw_part_idx example_report 37 50 SRSRAN_FDD = Some 2"
    "srsran_cqi_periodic_sb_bw_part_idx example_report 27 50 SRSRAN_FDD = Some 1"
    by (simp_all add: srsran_cqi_periodic_sb_bw_part_idx_def cqi_sb_get_H_def cqi_hl_get_bwp_J_def u32_of_def example_report_def
        cqi_get_N_fdd_def mul32_def add32_def sub32_def Let_def)
  have cell: "nof_prb example_cell50 = 50" "frame_type example_cell50 = SRSRAN_FDD" by (simp_all add: example_cell50_def)
  have "nat (cqi_hl_get_bwp_J (int 50)) = 3" "cqi_sb_get_Nj 0 50 = 3"
    by (simp_all add: cqi_sb_get_Nj_def cqi_hl_get_bwp_J_def cqi_hl_get_subband_size_def ceil_div_def)
  note J = this [folded cell(1), symmetric]
  have "let label = (3 - 1) * (3 - 1) mod 3 in (3 - 1) * (3 - 1) div 3 < (3 :: nat) - 1 \<and> label < 3 \<and>
      srsran_cqi_get_sb_idx 37 0 example_report example_cell50 = srsran_cqi_get_sb_idx 27 label example_report example_cell50"
    by (rule cqi_sb_idx_collision [OF _ _ J]) (simp_all add: cell part)
  then show ?thesis by simp
qed

text \<open>
  In a cell of 6 blocks, which has no subband reports, the error of \<open>cqi_hl_get_bwp_J\<close> is converted to an
  unsigned number and not caught: with one subband report per wideband report the number of reports wraps
  around to 0 and the terminal divides by it in the first subframe a report is due.
\<close>
theorem cqi_small_cell_division:
  assumes "N < 7" "subband_wideband_ratio cfg = 1" "code_schedule frame (pmi_idx cfg) = Some (period, offset)" "0 < period"
    and "srsran_cqi_periodic_send cfg t frame = Some True"
  shows "srsran_cqi_periodic_is_subband cfg t N frame = None \<and> srsran_cqi_periodic_sb_bw_part_idx cfg t N frame = None"
proof -
  have J: "cqi_hl_get_bwp_J (int N) = -1" using assms(1) by (simp add: cqi_hl_get_bwp_J_def)
  have "cqi_sb_get_H cfg N = 0"
    using assms(2) unfolding cqi_sb_get_H_def J by (simp add: u32_of_def mul32_def add32_def)
  then show ?thesis
    using assms(3-5)
    by (simp add: srsran_cqi_periodic_is_subband_def cqi_send_schedule srsran_cqi_periodic_sb_bw_part_idx_def
        code_schedule_def mul32_def split: if_splits)
qed

theorem cqi_small_cell_division_witness:
  "srsran_cqi_periodic_is_subband example_report 17 6 SRSRAN_FDD = None"
proof -
  have "code_schedule SRSRAN_FDD (pmi_idx example_report) = Some (10, 7)" "subband_wideband_ratio example_report = 1"
    "srsran_cqi_periodic_send example_report 17 SRSRAN_FDD = Some True"
    by (simp_all add: code_schedule_def cqi_get_N_fdd_def example_report_def srsran_cqi_periodic_send_def cqi_send_def mul32_small sub32_le)
  then show ?thesis using cqi_small_cell_division [of 6 example_report SRSRAN_FDD 10 7 17] by simp
qed

end
