(* ===== verification/Polar_Encoder.thy ===== *)
theory Polar_Encoder
  imports Phy_Prelude
begin

text \<open>
  The pipelined polar encoder, \<open>lib/src/phy/fec/polar/polar_encoder_pipelined.c\<close>, with its interface
  \<open>polar_encoder.c\<close>, and its reference, the generator matrix of TS 38.212 5.3.1.2.
\<close>

unbundle bit_operations_syntax

section \<open>Encoder\<close>

record pPIPELINED =
  code_size :: nat
  code_size_log :: nat
  code_half_size :: nat
  i_even :: "nat list"
  i_odd :: "nat list"
  tmp :: "u8 list"

text \<open>
  \<open>mem i\<close> says whether the \<open>i\<close>-th allocation succeeds; \<open>uninit\<close> is the content of the temporary buffer. A size
  is a \<open>uint16_t\<close>.
\<close>

definition create_polar_encoder_pipelined :: "(nat \<Rightarrow> bool) \<Rightarrow> u8 list \<Rightarrow> nat \<Rightarrow> pPIPELINED option" where
  "create_polar_encoder_pipelined mem uninit n =
     (let code_size = 2 ^ n mod 2 ^ 16; half = code_size div 2 in
      if \<not> mem 0 \<or> \<not> mem 1 \<or> \<not> mem 2 \<or> \<not> mem 3 then None
      else Some \<lparr>code_size = code_size, code_size_log = n, code_half_size = half,
        i_even = map (\<lambda>i. 2 * i) [0..<half], i_odd = map (\<lambda>i. 2 * i + 1) [0..<half], tmp = take code_size uninit\<rparr>)"

definition pipelined_split :: "pPIPELINED \<Rightarrow> nat \<Rightarrow> u8 list \<Rightarrow> u8 list" where
  "pipelined_split q half xs =
     foldl (\<lambda>t j. t[j := xs ! (i_even q ! j), j + half := xs ! (i_odd q ! j)]) (tmp q) [0..<half]"

definition pipelined_xor :: "pPIPELINED \<Rightarrow> nat \<Rightarrow> u8 list \<Rightarrow> u8 list \<Rightarrow> u8 list" where
  "pipelined_xor q half t out =
     foldl (\<lambda>o' j. o'[i_odd q ! j := t ! (i_odd q ! j), i_even q ! j := t ! (i_even q ! j) XOR t ! (i_odd q ! j)]) out [0..<half]"

definition pipelined_stage :: "nat \<Rightarrow> u8 list \<Rightarrow> pPIPELINED \<times> u8 list \<Rightarrow> pPIPELINED \<times> u8 list" where
  "pipelined_stage half xs s =
     (case s of (q, out) \<Rightarrow> let t = pipelined_split q half xs in (q\<lparr>tmp := t\<rparr>, pipelined_xor q half t out))"

text \<open>
  A null pointer is the argument \<open>None\<close>. A size of \<open>2 ^ 0\<close>, for which the code shifts by \<open>2 ^ 32 - 1\<close>, is the result
  \<open>None\<close>; \<open>input\<close> and \<open>out\<close> hold \<open>2 ^ n\<close> bytes, which the code does not check.
\<close>

definition polar_encoder_encode_pipelined ::
  "pPIPELINED option \<Rightarrow> u8 list \<Rightarrow> u8 list \<Rightarrow> nat \<Rightarrow> (pPIPELINED option \<times> u8 list \<times> int) option" where
  "polar_encoder_encode_pipelined p input out n =
     (case p of None \<Rightarrow> Some (None, out, -1)
      | Some q \<Rightarrow>
        if n = 0 then None
        else
          let half = 2 ^ (n - 1) mod 2 ^ 16 in
          if half > code_half_size q then Some (Some q, out, -1)
          else
            let (q, out) = pipelined_stage half input (q, out);
                (q, out) = foldl (\<lambda>(q, out) i. pipelined_stage half out (q, out)) (q, out) [1..<n] in
            Some (Some q, out, 0))"

text \<open>
  The interface of \<open>polar_encoder.c\<close>; the branches for AVX2 are not compiled in. When the encoder cannot be
  created, \<open>free_pipelined\<close> frees the fields of a null pointer, which is \<open>None\<close>.
\<close>

datatype srsran_polar_encoder_type_t = SRSRAN_POLAR_ENCODER_PIPELINED | SRSRAN_POLAR_ENCODER_AVX2

definition delete_polar_encoder_pipelined :: "pPIPELINED option \<Rightarrow> unit option" where
  "delete_polar_encoder_pipelined q = map_option (\<lambda>q. ()) q"

definition init_pipelined :: "(nat \<Rightarrow> bool) \<Rightarrow> u8 list \<Rightarrow> nat \<Rightarrow> (pPIPELINED option \<times> int) option" where
  "init_pipelined mem uninit n =
     (case create_polar_encoder_pipelined mem uninit n of
        None \<Rightarrow> map_option (\<lambda>_. (None, -1)) (delete_polar_encoder_pipelined None)
      | Some q \<Rightarrow> Some (Some q, 0))"

definition srsran_polar_encoder_init ::
  "srsran_polar_encoder_type_t \<Rightarrow> (nat \<Rightarrow> bool) \<Rightarrow> u8 list \<Rightarrow> nat \<Rightarrow> (pPIPELINED option \<times> int) option" where
  "srsran_polar_encoder_init type mem uninit n =
     (case type of SRSRAN_POLAR_ENCODER_PIPELINED \<Rightarrow> init_pipelined mem uninit n | _ \<Rightarrow> Some (None, -1))"

definition srsran_polar_encoder_free :: "pPIPELINED option \<Rightarrow> pPIPELINED option option" where
  "srsran_polar_encoder_free q = map_option (\<lambda>_. None) (delete_polar_encoder_pipelined q)"

definition encode_pipelined ::
  "pPIPELINED option \<Rightarrow> u8 list \<Rightarrow> u8 list \<Rightarrow> nat \<Rightarrow> (pPIPELINED option \<times> u8 list \<times> int) option" where
  "encode_pipelined q input out n =
     map_option (\<lambda>(q, out, r). (q, out, 0)) (polar_encoder_encode_pipelined q input out n)"

definition srsran_polar_encoder_encode ::
  "pPIPELINED option \<Rightarrow> u8 list \<Rightarrow> u8 list \<Rightarrow> nat \<Rightarrow> (pPIPELINED option \<times> u8 list \<times> int) option" where
  "srsran_polar_encoder_encode = encode_pipelined"

section \<open>One stage\<close>

definition encoder_ok :: "pPIPELINED \<Rightarrow> bool" where
  "encoder_ok q \<longleftrightarrow> code_size q < 2 ^ 16 \<and> code_size q = 2 * code_half_size q \<and> length (tmp q) = code_size q \<and>
     i_even q = map (\<lambda>i. 2 * i) [0..<code_half_size q] \<and> i_odd q = map (\<lambda>i. 2 * i + 1) [0..<code_half_size q]"

text \<open>The index a stage reads: a rotation of its bits to the left.\<close>

definition rot_left :: "nat \<Rightarrow> nat \<Rightarrow> nat" where
  "rot_left half m = (if m < half then 2 * m else 2 * (m - half) + 1)"

lemma split_nth:
  assumes "encoder_ok q" "half \<le> code_half_size q"
  shows "length (pipelined_split q half xs) = code_size q"
    "k < 2 * half \<Longrightarrow> pipelined_split q half xs ! k = xs ! rot_left half k"
proof -
  have tab: "j < half \<Longrightarrow> i_even q ! j = 2 * j" "j < half \<Longrightarrow> i_odd q ! j = 2 * j + 1" for j
    using assms by (simp_all add: encoder_ok_def)
  have len: "length (tmp q) = code_size q" "2 * half \<le> code_size q" using assms by (simp_all add: encoder_ok_def)
  define F where "F = (\<lambda>n. foldl (\<lambda>t j. t[j := xs ! (i_even q ! j), j + half := xs ! (i_odd q ! j)]) (tmp q) [0..<n])"
  have inv: "length (F n) = code_size q \<and>
      (\<forall>k < 2 * half. (k < n \<or> half \<le> k \<and> k < half + n) \<longrightarrow> F n ! k = xs ! rot_left half k)" if "n \<le> half" for n
    using that
  proof (induction n)
    case 0
    then show ?case using len by (auto simp: F_def)
  next
    case (Suc n)
    then have IH: "length (F n) = code_size q"
      "\<And>k. k < 2 * half \<Longrightarrow> k < n \<or> half \<le> k \<and> k < half + n \<Longrightarrow> F n ! k = xs ! rot_left half k" by auto
    have step: "F (Suc n) = (F n)[n := xs ! (2 * n), n + half := xs ! (2 * n + 1)]"
      using Suc.prems tab by (simp add: F_def)
    show ?case unfolding step using IH Suc.prems len by (auto simp: nth_list_update rot_left_def less_Suc_eq)
  qed
  show "length (pipelined_split q half xs) = code_size q" using inv [of half] by (simp add: pipelined_split_def F_def)
  show "k < 2 * half \<Longrightarrow> pipelined_split q half xs ! k = xs ! rot_left half k"
    using inv [of half] by (auto simp: pipelined_split_def F_def)
qed

lemma xor_nth:
  assumes "encoder_ok q" "half \<le> code_half_size q" "2 * half \<le> length out"
  shows "length (pipelined_xor q half t out) = length out"
    "k < 2 * half \<Longrightarrow> pipelined_xor q half t out ! k = (if even k then t ! k XOR t ! (k + 1) else t ! k)"
proof -
  have tab: "j < half \<Longrightarrow> i_even q ! j = 2 * j" "j < half \<Longrightarrow> i_odd q ! j = 2 * j + 1" for j
    using assms by (simp_all add: encoder_ok_def)
  define F where "F = (\<lambda>n. foldl (\<lambda>o' j. o'[i_odd q ! j := t ! (i_odd q ! j),
      i_even q ! j := t ! (i_even q ! j) XOR t ! (i_odd q ! j)]) out [0..<n])"
  have inv: "length (F n) = length out \<and> (\<forall>k < 2 * n. F n ! k = (if even k then t ! k XOR t ! (k + 1) else t ! k))"
    if "n \<le> half" for n
    using that
  proof (induction n)
    case 0
    then show ?case by (simp add: F_def)
  next
    case (Suc n)
    then have IH: "length (F n) = length out" "\<And>k. k < 2 * n \<Longrightarrow> F n ! k = (if even k then t ! k XOR t ! (k + 1) else t ! k)"
      by auto
    have step: "F (Suc n) = (F n)[2 * n + 1 := t ! (2 * n + 1), 2 * n := t ! (2 * n) XOR t ! (2 * n + 1)]"
      using Suc.prems tab by (simp add: F_def)
    have cases: "k < 2 * n \<or> k = 2 * n \<or> k = 2 * n + 1" if "k < 2 * Suc n" for k using that by presburger
    show ?case unfolding step using IH Suc.prems assms(3) cases by (fastforce simp: nth_list_update)
  qed
  show "length (pipelined_xor q half t out) = length out" using inv [of half] by (simp add: pipelined_xor_def F_def)
  show "k < 2 * half \<Longrightarrow> pipelined_xor q half t out ! k = (if even k then t ! k XOR t ! (k + 1) else t ! k)"
    using inv [of half] by (auto simp: pipelined_xor_def F_def)
qed

lemma stage_nth:
  assumes "encoder_ok q" "half \<le> code_half_size q" "2 * half \<le> length out" "pipelined_stage half xs (q, out) = (q', out')"
  shows "encoder_ok q'" "code_half_size q' = code_half_size q" "length out' = length out"
    "k < 2 * half \<Longrightarrow> out' ! k = (if even k then xs ! rot_left half k XOR xs ! rot_left half (k + 1) else xs ! rot_left half k)"
proof -
  have q': "q' = q\<lparr>tmp := pipelined_split q half xs\<rparr>" and out': "out' = pipelined_xor q half (pipelined_split q half xs) out"
    using assms(4) by (simp_all add: pipelined_stage_def Let_def)
  show "encoder_ok q'" "code_half_size q' = code_half_size q" "length out' = length out"
    using assms(1) split_nth(1) [OF assms(1,2)] xor_nth(1) [OF assms(1-3)] by (simp_all add: q' out' encoder_ok_def)
  assume k: "k < 2 * half"
  then have "even k \<Longrightarrow> k + 1 < 2 * half" by presburger
  then show "out' ! k = (if even k then xs ! rot_left half k XOR xs ! rot_left half (k + 1) else xs ! rot_left half k)"
    using k xor_nth(2) [OF assms(1-3)] split_nth(2) [OF assms(1,2)] by (simp add: out')
qed

section \<open>All stages\<close>

lemma bit_rot_left:
  assumes "m < 2 ^ Suc n" "p < Suc n"
  shows "bit (rot_left (2 ^ n) m) p = bit m (if p = 0 then n else p - 1)" "rot_left (2 ^ n) m < 2 ^ Suc n"
proof -
  define h where "h = (2 :: nat) ^ n"
  have m: "m < 2 * h" using assms(1) by (simp add: h_def)
  have hi: "bit m n \<longleftrightarrow> h \<le> m"
  proof -
    have "m div h = (if h \<le> m then 1 else 0)"
      using m by (auto simp: h_def div_nat_eqI intro: div_nat_eqI)
    then show ?thesis by (simp add: bit_iff_odd h_def)
  qed
  have low: "bit (m - h) j = bit m j" if "h \<le> m" "j < n" for j
  proof -
    have "take_bit n (m - h) = take_bit n m"
      using that(1) by (simp add: take_bit_eq_mod h_def le_mod_geq)
    then show ?thesis using that(2) by (metis bit_take_bit_iff)
  qed
  show "bit (rot_left (2 ^ n) m) p = bit m (if p = 0 then n else p - 1)"
    using hi low assms(2) unfolding rot_left_def h_def [symmetric]
    by (cases p) (auto simp: bit_Suc bit_0)
  show "rot_left (2 ^ n) m < 2 ^ Suc n" using m unfolding rot_left_def h_def [symmetric] by (auto simp: h_def)
qed

lemma bit_rot_left_pow:
  assumes "m < 2 ^ Suc n" "s \<le> Suc n"
  shows "(rot_left (2 ^ n) ^^ s) m < 2 ^ Suc n \<and>
    (\<forall>p < Suc n. bit ((rot_left (2 ^ n) ^^ s) m) p = bit m (if s \<le> p then p - s else p + Suc n - s))"
  using assms(2)
proof (induction s)
  case 0
  then show ?case using assms(1) by simp
next
  case (Suc s)
  define r where "r = (rot_left (2 ^ n) ^^ s) m"
  have IH: "r < 2 ^ Suc n" "p < Suc n \<Longrightarrow> bit r p = bit m (if s \<le> p then p - s else p + Suc n - s)" for p
    using Suc by (simp_all add: r_def)
  have "bit (rot_left (2 ^ n) r) p = bit m (if Suc s \<le> p then p - Suc s else p + Suc n - Suc s)" if p: "p < Suc n" for p
  proof (cases "p = 0")
    case True
    then show ?thesis using bit_rot_left(1) [OF IH(1) p] IH(2) [of n] Suc.prems by simp
  next
    case False
    then show ?thesis using bit_rot_left(1) [OF IH(1) p] IH(2) [of "p - 1"] Suc.prems p
      by (auto simp: Suc_diff_le)
  qed
  then show ?case using bit_rot_left(2) [OF IH(1), of 0] by (simp add: r_def)
qed

lemma rot_left_pow_id: "m < 2 ^ Suc n \<Longrightarrow> (rot_left (2 ^ n) ^^ Suc n) m = m"
proof -
  assume m: "m < 2 ^ Suc n"
  define r where "r = (rot_left (2 ^ n) ^^ Suc n) m"
  have r: "r < 2 ^ Suc n" "\<And>p. p < Suc n \<Longrightarrow> bit r p = bit m p" using bit_rot_left_pow [OF m, of "Suc n"] by (simp_all add: r_def)
  have "r = m"
  proof (rule bit_eqI)
    fix p
    show "bit r p = bit m p"
    proof (cases "p < Suc n")
      case False
      then have "2 ^ Suc n \<le> (2 :: nat) ^ p" by (intro power_increasing) simp_all
      then have "r < 2 ^ p" "m < 2 ^ p" using r(1) m by linarith+
      then show ?thesis by (simp add: bit_iff_odd)
    qed (rule r(2))
  qed
  then show ?thesis by (simp add: r_def)
qed

text \<open>
  The input positions whose bits are summed into position \<open>k\<close> after \<open>s\<close> stages: the positions of the rotated
  \<open>k\<close> on the bits not yet processed, and above it on the others.
\<close>

definition below :: "nat \<Rightarrow> nat \<Rightarrow> nat \<Rightarrow> nat set" where
  "below n s k = {i. i < 2 ^ Suc n \<and> (\<forall>p < Suc n.
     let b = bit ((rot_left (2 ^ n) ^^ s) k) p in
     if p \<noteq> 0 \<and> p \<le> s \<or> p = 0 \<and> s = Suc n then b \<longrightarrow> bit i p else bit i p = b)}"

lemma finite_below [simp]: "finite (below n s k)"
  by (rule finite_subset [of _ "{..<2 ^ Suc n}"]) (auto simp: below_def)

lemma bit_above: "(i :: nat) < 2 ^ n \<Longrightarrow> n \<le> p \<Longrightarrow> \<not> bit i p"
proof -
  assume "i < 2 ^ n" "n \<le> p"
  moreover from this(2) have "2 ^ n \<le> (2 :: nat) ^ p" by (intro power_increasing) simp_all
  ultimately have "i < 2 ^ p" by linarith
  then show "\<not> bit i p" by (simp add: bit_iff_odd)
qed

lemma below_0: "k < 2 ^ Suc n \<Longrightarrow> below n 0 k = {k}"
proof -
  assume k: "k < 2 ^ Suc n"
  have "i = k" if "i < 2 ^ Suc n" "\<forall>p < Suc n. bit i p = bit k p" for i
  proof (rule bit_eqI)
    fix p show "bit i p = bit k p"
      using that k bit_above [of i "Suc n" p] bit_above [of k "Suc n" p] by (cases "p < Suc n") simp_all
  qed
  moreover have "p \<noteq> 0 \<and> p \<le> 0 \<or> p = 0 \<and> 0 = Suc n \<longleftrightarrow> False" for p :: nat by auto
  ultimately show ?thesis using k unfolding below_def by (auto simp: Let_def)
qed

lemma below_all: "k < 2 ^ Suc n \<Longrightarrow> below n (Suc n) k = {i. i < 2 ^ Suc n \<and> i AND k = k}"
proof -
  assume k: "k < 2 ^ Suc n"
  have "(i AND k = k) \<longleftrightarrow> (\<forall>p < Suc n. bit k p \<longrightarrow> bit i p)" for i
  proof
    assume "i AND k = k"
    then show "\<forall>p < Suc n. bit k p \<longrightarrow> bit i p" by (metis bit_and_iff)
  next
    assume h: "\<forall>p < Suc n. bit k p \<longrightarrow> bit i p"
    show "i AND k = k"
    proof (rule bit_eqI)
      fix p show "bit (i AND k) p = bit k p"
        using h bit_above [OF k, of p] by (cases "p < Suc n") (auto simp: bit_and_iff)
    qed
  qed
  moreover have "p \<noteq> 0 \<and> p \<le> Suc n \<or> p = 0 \<and> Suc n = Suc n" if "p < Suc n" for p using that by auto
  ultimately show ?thesis unfolding below_def rot_left_pow_id [OF k] by (simp add: Let_def)
qed

lemma below_Suc:
  assumes k: "k < 2 ^ Suc n" and s: "s \<le> n"
  defines "new \<equiv> if s = n then 0 else Suc s"
  shows "below n s (rot_left (2 ^ n) k) = {i \<in> below n (Suc s) k. bit i new = odd k}"
    "even k \<Longrightarrow> below n s (rot_left (2 ^ n) (k + 1)) = {i \<in> below n (Suc s) k. bit i new}"
    "odd k \<Longrightarrow> i \<in> below n (Suc s) k \<Longrightarrow> bit i new"
proof -
  define idx where "idx = (\<lambda>p. if Suc s \<le> p then p - Suc s else p + Suc n - Suc s)"
  have pow: "(rot_left (2 ^ n) ^^ s) (rot_left (2 ^ n) m) = (rot_left (2 ^ n) ^^ Suc s) m" for m
    by (simp only: funpow_Suc_right o_apply)
  have bits: "bit ((rot_left (2 ^ n) ^^ Suc s) m) p = bit m (idx p)" if "m < 2 ^ Suc n" "p < Suc n" for m p
    using bit_rot_left_pow [OF that(1), of "Suc s"] that(2) s by (simp add: idx_def)
  have idx: "idx p = 0 \<longleftrightarrow> p = new" if "p < Suc n" for p
    using that s by (auto simp: idx_def new_def)
  have new: "new < Suc n" using s by (simp add: new_def)
  have Q: "(p \<noteq> 0 \<and> p \<le> Suc s \<or> p = 0 \<and> Suc s = Suc n) \<longleftrightarrow> (p \<noteq> 0 \<and> p \<le> s \<or> p = 0 \<and> s = Suc n) \<or> p = new" if "p < Suc n" for p
    using that s by (auto simp: new_def)
  have nQ: "\<not> (new \<noteq> 0 \<and> new \<le> s \<or> new = 0 \<and> s = Suc n)" using s by (auto simp: new_def)
  have split: "(\<forall>p < Suc n. P p) \<longleftrightarrow> P new \<and> (\<forall>p < Suc n. p \<noteq> new \<longrightarrow> P p)" for P using new by blast
  define T where "T = (\<lambda>t p. p \<noteq> (0 :: nat) \<and> p \<le> t \<or> p = 0 \<and> t = Suc n)"
  define E where "E = (\<lambda>t i p b. if T t p then b \<longrightarrow> bit (i :: nat) p else bit i p = b)"
  have member: "i \<in> below n t j \<longleftrightarrow> i < 2 ^ Suc n \<and> (\<forall>p < Suc n. E t i p (bit ((rot_left (2 ^ n) ^^ t) j) p))" for i t j
    unfolding below_def E_def T_def Let_def by (rule mem_Collect_eq)
  have rotated: "(\<forall>p < Suc n. E t i p (bit ((rot_left (2 ^ n) ^^ Suc s) m) p)) \<longleftrightarrow> (\<forall>p < Suc n. E t i p (bit m (idx p)))"
    if "m < 2 ^ Suc n" for t i m
    by (rule all_cong) (simp only: bits [OF that])
  have others: "(\<forall>p < Suc n. p \<noteq> new \<longrightarrow> E (Suc s) i p (b p)) \<longleftrightarrow> (\<forall>p < Suc n. p \<noteq> new \<longrightarrow> E s i p (b p))" for i b
  proof -
    have "T (Suc s) p = T s p" if "p < Suc n" "p \<noteq> new" for p using Q [OF that(1)] that(2) by (simp add: T_def)
    then show ?thesis by (simp add: E_def)
  qed
  have at_new: "idx new = 0" "T (Suc s) new" "\<not> T s new" using idx [OF new] Q [OF new] nQ by (simp_all add: T_def)
  have E_new: "E (Suc s) i new b \<longleftrightarrow> (b \<longrightarrow> bit i new)" "E s i new b \<longleftrightarrow> bit i new = b" for i b using at_new by (simp_all add: E_def)
  have mem: "i \<in> below n s (rot_left (2 ^ n) m) \<longleftrightarrow> i < 2 ^ Suc n \<and> bit i new = bit m 0 \<and>
      (\<forall>p < Suc n. p \<noteq> new \<longrightarrow> E s i p (bit m (idx p)))" if "m < 2 ^ Suc n" for m i
    unfolding member pow rotated [OF that] by (subst split) (simp only: at_new(1) E_new)
  have mem': "i \<in> below n (Suc s) k \<longleftrightarrow> i < 2 ^ Suc n \<and> (bit k 0 \<longrightarrow> bit i new) \<and>
      (\<forall>p < Suc n. p \<noteq> new \<longrightarrow> E s i p (bit k (idx p)))" for i
    unfolding member rotated [OF k] by (subst split) (simp only: others at_new(1) E_new)
  show "below n s (rot_left (2 ^ n) k) = {i \<in> below n (Suc s) k. bit i new = odd k}"
    using mem [OF k] mem' by (auto simp: bit_0)
  show "bit i new" if "odd k" "i \<in> below n (Suc s) k" using that mem' by (simp add: bit_0)
  assume even: "even k"
  have k1: "k + 1 < 2 ^ Suc n" using k even by (metis Suc_eq_plus1 Suc_lessI dvd_triv_left even_Suc power_Suc)
  have "bit (k + 1) (idx p) = bit k (idx p)" if "p < Suc n" "p \<noteq> new" for p
    using even idx that by (cases "idx p") (auto simp: bit_Suc)
  then show "below n s (rot_left (2 ^ n) (k + 1)) = {i \<in> below n (Suc s) k. bit i new}"
    using mem [OF k1] mem' even by (auto simp: bit_0)
qed

text \<open>The sum, in every bit, of the entries at a set of positions.\<close>

definition sum_bit :: "u8 list \<Rightarrow> nat set \<Rightarrow> nat \<Rightarrow> bool" where
  "sum_bit xs A b \<longleftrightarrow> odd (card {i \<in> A. bit (xs ! i) b})"

lemma sum_bit_Un: "finite A \<Longrightarrow> finite B \<Longrightarrow> A \<inter> B = {} \<Longrightarrow> sum_bit xs (A \<union> B) b \<longleftrightarrow> sum_bit xs A b \<noteq> sum_bit xs B b"
proof -
  assume "finite A" "finite B" "A \<inter> B = {}"
  then have "card {i \<in> A \<union> B. bit (xs ! i) b} = card {i \<in> A. bit (xs ! i) b} + card {i \<in> B. bit (xs ! i) b}"
    by (subst card_Un_disjoint [symmetric]) (auto intro!: arg_cong [of _ _ card])
  then show ?thesis by (simp add: sum_bit_def)
qed

lemma sum_bit_stage:
  assumes "k < 2 ^ Suc n" "s \<le> n"
  shows "sum_bit xs (below n (Suc s) k) b =
    (if even k then sum_bit xs (below n s (rot_left (2 ^ n) k)) b \<noteq> sum_bit xs (below n s (rot_left (2 ^ n) (k + 1))) b
     else sum_bit xs (below n s (rot_left (2 ^ n) k)) b)"
proof (cases "even k")
  case True
  note b = below_Suc [OF assms]
  have "below n (Suc s) k = below n s (rot_left (2 ^ n) k) \<union> below n s (rot_left (2 ^ n) (k + 1))"
    "below n s (rot_left (2 ^ n) k) \<inter> below n s (rot_left (2 ^ n) (k + 1)) = {}"
    unfolding b(1) b(2) [OF True] using True by auto
  then show ?thesis using True sum_bit_Un [of "below n s (rot_left (2 ^ n) k)" "below n s (rot_left (2 ^ n) (k + 1))"] by simp
next
  case False
  note b = below_Suc [OF assms]
  have "below n s (rot_left (2 ^ n) k) = below n (Suc s) k" unfolding b(1) using b(3) [OF False] False by auto
  then show ?thesis using False by simp
qed

lemma encode_stages:
  assumes "encoder_ok q" "2 ^ n \<le> code_half_size q" "2 ^ Suc n \<le> length out" "s \<le> n"
  shows "case foldl (\<lambda>(q, out) i. pipelined_stage (2 ^ n) out (q, out)) (pipelined_stage (2 ^ n) input (q, out)) [1..<Suc s] of
    (q', out') \<Rightarrow> encoder_ok q' \<and> code_half_size q' = code_half_size q \<and> length out' = length out \<and>
      (\<forall>k < 2 ^ Suc n. \<forall>b. bit (out' ! k) b = sum_bit input (below n (Suc s) k) b)"
  using assms(4)
proof (induction s)
  case 0
  obtain q' out' where run: "pipelined_stage (2 ^ n) input (q, out) = (q', out')" by fastforce
  have len: "2 * 2 ^ n \<le> length out" using assms(3) by simp
  note st = stage_nth [OF assms(1,2) len run]
  have one: "sum_bit input (below n 0 k) b \<longleftrightarrow> bit (input ! k) b" if "k < 2 ^ Suc n" for k b
    using that by (cases "bit (input ! k) b") (simp_all add: below_0 sum_bit_def cong: conj_cong)
  have "bit (out' ! k) b = sum_bit input (below n (Suc 0) k) b" if k: "k < 2 ^ Suc n" for k b
  proof -
    have k1: "even k \<Longrightarrow> k + 1 < 2 ^ Suc n" using k by (metis Suc_eq_plus1 Suc_lessI dvd_triv_left even_Suc power_Suc)
    show ?thesis
      using sum_bit_stage [OF k, of 0 input b] st(4) [of k] k one [OF bit_rot_left(2) [OF k, of 0]] one [OF bit_rot_left(2) [OF k1, of 0]]
      by (simp add: bit_xor_iff)
  qed
  then show ?case using st by (simp add: run)
next
  case (Suc s)
  obtain q1 out1 where run1: "foldl (\<lambda>(q, out) i. pipelined_stage (2 ^ n) out (q, out)) (pipelined_stage (2 ^ n) input (q, out)) [1..<Suc s] = (q1, out1)"
    by fastforce
  have IH: "encoder_ok q1" "code_half_size q1 = code_half_size q" "length out1 = length out"
    "\<And>k b. k < 2 ^ Suc n \<Longrightarrow> bit (out1 ! k) b = sum_bit input (below n (Suc s) k) b"
    using Suc run1 by auto
  obtain q' out' where run: "pipelined_stage (2 ^ n) out1 (q1, out1) = (q', out')" by fastforce
  have len: "2 ^ n \<le> code_half_size q1" "2 * 2 ^ n \<le> length out1" using assms(2,3) IH by simp_all
  note st = stage_nth [OF IH(1) len run]
  have "bit (out' ! k) b = sum_bit input (below n (Suc (Suc s)) k) b" if k: "k < 2 ^ Suc n" for k b
  proof -
    have k1: "even k \<Longrightarrow> k + 1 < 2 ^ Suc n" using k by (metis Suc_eq_plus1 Suc_lessI dvd_triv_left even_Suc power_Suc)
    show ?thesis
      using sum_bit_stage [OF k, of "Suc s" input b] Suc.prems st(4) [of k] k IH(4) [OF bit_rot_left(2) [OF k, of 0]]
        IH(4) [OF bit_rot_left(2) [OF k1, of 0]]
      by (simp add: bit_xor_iff)
  qed
  then show ?case using st IH run1 run by simp
qed

lemma create_encoder_ok:
  assumes "srsran_polar_encoder_init type mem uninit m = Some (Some q, r)" "0 < m" "m < 16" "2 ^ m \<le> length uninit"
  shows "encoder_ok q" "code_half_size q = 2 ^ (m - 1)" "r = 0"
proof -
  have lt: "(2 :: nat) ^ m < 2 ^ 16" using assms(3) by (rule power_strict_increasing) simp
  have pow: "2 ^ m mod 2 ^ 16 = (2 :: nat) ^ m" "2 ^ m = 2 * (2 :: nat) ^ (m - 1)"
    by (rule mod_less [OF lt]) (rule power_eq_if [of 2 m, unfolded if_not_P [OF assms(2) [THEN less_imp_neq, symmetric]]])
  have made: "create_polar_encoder_pipelined mem uninit m = Some q \<and> r = 0"
    using assms(1) by (auto simp: srsran_polar_encoder_init_def init_pipelined_def delete_polar_encoder_pipelined_def
        split: srsran_polar_encoder_type_t.splits option.splits)
  then have q: "q = \<lparr>code_size = 2 ^ m, code_size_log = m, code_half_size = 2 ^ m div 2,
        i_even = map (\<lambda>i. 2 * i) [0..<2 ^ m div 2], i_odd = map (\<lambda>i. 2 * i + 1) [0..<2 ^ m div 2], tmp = take (2 ^ m) uninit\<rparr>"
    unfolding create_polar_encoder_pipelined_def pow(1) Let_def by (simp split: if_splits)
  show "r = 0" using made by simp
  show "code_half_size q = 2 ^ (m - 1)" by (simp add: q pow(2))
  show "encoder_ok q" using assms(4) pow(2) lt unfolding encoder_ok_def by (simp add: q)
qed

section \<open>Properties\<close>

text \<open>
  C40: The pipelined encoder multiplies with the generator matrix of TS 38.212 5.3.1.2, the \<open>n\<close>-th Kronecker
  power of \<open>((1, 0), (1, 1))\<close>: every bit of output \<open>k\<close> is the sum of the inputs at the positions whose binary
  digits include those of \<open>k\<close>, for every code size up to the one the encoder was created for, whatever the
  temporary buffer held. An encoder that \<open>srsran_polar_encoder_init\<close> made for up to \<open>2 ^ 15\<close> bits encodes so
  (second conclusion), and can be used again. The arrays hold \<open>2 ^ n\<close> bytes.
\<close>
theorem polar_encoder_correct:
  assumes "0 < n" "2 ^ n \<le> length input" "2 ^ n \<le> length out"
  shows "(encoder_ok q \<and> 2 ^ (n - 1) \<le> code_half_size q \<longrightarrow>
      (\<exists>q' out'. srsran_polar_encoder_encode (Some q) input out n = Some (Some q', out', 0) \<and>
        encoder_ok q' \<and> code_half_size q' = code_half_size q \<and> length out' = length out \<and>
        (\<forall>k < 2 ^ n. \<forall>b. bit (out' ! k) b = odd (card {i. i < 2 ^ n \<and> i AND k = k \<and> bit (input ! i) b})))) \<and>
    (srsran_polar_encoder_init type mem uninit m = Some (Some q, r) \<and> n \<le> m \<and> m < 16 \<and> 2 ^ m \<le> length uninit \<longrightarrow>
      r = 0 \<and> encoder_ok q \<and> 2 ^ (n - 1) \<le> code_half_size q)"
proof (rule conjI; rule impI; elim conjE)
  assume q: "encoder_ok q" "2 ^ (n - 1) \<le> code_half_size q"
  obtain h where n: "n = Suc h" using assms(1) by (cases n) auto
  have half: "2 ^ h mod 2 ^ 16 = (2 :: nat) ^ h" using q by (intro mod_less) (simp add: n encoder_ok_def)
  obtain q' out' where run: "foldl (\<lambda>(q, out) i. pipelined_stage (2 ^ h) out (q, out)) (pipelined_stage (2 ^ h) input (q, out))
      [1..<Suc h] = (q', out')" by fastforce
  have stages: "encoder_ok q'" "code_half_size q' = code_half_size q" "length out' = length out"
    "\<And>k b. k < 2 ^ Suc h \<Longrightarrow> bit (out' ! k) b = sum_bit input (below h (Suc h) k) b"
    using encode_stages [OF q(1) _ _ order_refl, of h out input] q(2) assms(3) unfolding run n by (simp_all del: upt_Suc)
  have "srsran_polar_encoder_encode (Some q) input out n = Some (Some q', out', 0)"
    using q(2) half run unfolding srsran_polar_encoder_encode_def encode_pipelined_def polar_encoder_encode_pipelined_def n
    by (cases "pipelined_stage (2 ^ h) input (q, out)") (simp del: upt_Suc)
  moreover have "bit (out' ! k) b = odd (card {i. i < 2 ^ n \<and> i AND k = k \<and> bit (input ! i) b})" if "k < 2 ^ n" for k b
  proof -
    have k: "k < 2 ^ Suc h" using that by (simp only: n)
    show ?thesis unfolding stages(4) [OF k] sum_bit_def below_all [OF k] n by (simp only: mem_Collect_eq conj_assoc)
  qed
  ultimately show "\<exists>q' out'. srsran_polar_encoder_encode (Some q) input out n = Some (Some q', out', 0) \<and>
      encoder_ok q' \<and> code_half_size q' = code_half_size q \<and> length out' = length out \<and>
      (\<forall>k < 2 ^ n. \<forall>b. bit (out' ! k) b = odd (card {i. i < 2 ^ n \<and> i AND k = k \<and> bit (input ! i) b}))"
    using stages(1-3) by blast
next
  assume a: "srsran_polar_encoder_init type mem uninit m = Some (Some q, r)" "n \<le> m" "m < 16" "2 ^ m \<le> length uninit"
  have "0 < m" using assms(1) a(2) by simp
  note made = create_encoder_ok [OF a(1) this a(3,4)]
  have "(2 :: nat) ^ (n - 1) \<le> 2 ^ (m - 1)" using a(2) by (intro power_increasing) simp_all
  then show "r = 0 \<and> encoder_ok q \<and> 2 ^ (n - 1) \<le> code_half_size q" using made by simp
qed

definition example_encoder :: pPIPELINED where
  "example_encoder = the (fst (the (srsran_polar_encoder_init SRSRAN_POLAR_ENCODER_PIPELINED (\<lambda>_. True) [0xAA, 0xAA, 0xAA, 0xAA] 2)))"

lemma example_encoder_ok: "encoder_ok example_encoder" "code_half_size example_encoder = 2"
  by (simp_all add: example_encoder_def srsran_polar_encoder_init_def init_pipelined_def create_polar_encoder_pipelined_def
      encoder_ok_def Let_def)

theorem polar_encoder_correct_witness:
  "(\<exists>q' out'. srsran_polar_encoder_encode (Some example_encoder) [1, 0, 1, 1] [0, 0, 0, 0] 2 = Some (Some q', out', 0) \<and>
      encoder_ok q' \<and> code_half_size q' = 2 \<and> length out' = 4 \<and>
      (\<forall>k < 4. \<forall>b. bit (out' ! k) b = odd (card {i. i < 4 \<and> i AND k = k \<and> bit ([1, 0, 1, 1 :: u8] ! i) b}))) \<and>
   map_option (\<lambda>(q, out, r). out) (srsran_polar_encoder_encode (Some example_encoder) [1, 0, 1, 1] [0, 0, 0, 0] 2) = Some [1, 1, 0, 1]"
  (is "?general \<and> ?encoded")
proof
  have made: "srsran_polar_encoder_init SRSRAN_POLAR_ENCODER_PIPELINED (\<lambda>_. True) [0xAA, 0xAA, 0xAA, 0xAA] 2 = Some (Some example_encoder, 0)"
    by (simp add: example_encoder_def srsran_polar_encoder_init_def init_pipelined_def create_polar_encoder_pipelined_def Let_def)
  have "encoder_ok example_encoder" using made polar_encoder_correct [of 2 "[1, 0, 1, 1]" "[0, 0, 0, 0]" example_encoder SRSRAN_POLAR_ENCODER_PIPELINED
      "\<lambda>_. True" "[0xAA, 0xAA, 0xAA, 0xAA]" 2 0] by simp
  then show ?general
    using polar_encoder_correct [of 2 "[1, 0, 1, 1]" "[0, 0, 0, 0]" example_encoder]
    by (simp add: example_encoder_ok(2) numeral_eq_Suc)
  show ?encoded
    by (simp add: example_encoder_def srsran_polar_encoder_init_def init_pipelined_def create_polar_encoder_pipelined_def
        srsran_polar_encoder_encode_def encode_pipelined_def polar_encoder_encode_pipelined_def pipelined_stage_def pipelined_split_def pipelined_xor_def
        upt_rec)
qed

text \<open>
  The errors of the encoder do not reach its callers: a code that is too long for the encoder leaves the
  output unwritten, and \<open>srsran_polar_encoder_encode\<close> returns 0 as if it had been encoded; and where memory
  runs out, \<open>srsran_polar_encoder_init\<close> dereferences the null pointer it is to report.
\<close>
theorem polar_encoder_errors_lost:
  assumes "srsran_polar_encoder_init SRSRAN_POLAR_ENCODER_PIPELINED mem uninit m = Some (Some q, 0)"
    "0 < m" "m < n" "n \<le> 16" "2 ^ m \<le> length uninit" "\<not> mem' i" "i < 4"
  shows "polar_encoder_encode_pipelined (Some q) input out n = Some (Some q, out, -1) \<and>
    srsran_polar_encoder_encode (Some q) input out n = Some (Some q, out, 0) \<and>
    srsran_polar_encoder_init SRSRAN_POLAR_ENCODER_PIPELINED mem' uninit m = None"
proof (intro conjI)
  have half: "code_half_size q = 2 ^ (m - 1)" using create_encoder_ok(2) [OF assms(1,2) _ assms(5)] assms(3,4) by simp
  have "(2 :: nat) ^ (n - 1) < 2 ^ 16" using assms(2-4) by (intro power_strict_increasing) auto
  moreover have "(2 :: nat) ^ (m - 1) < 2 ^ (n - 1)" using assms(2,3) by (intro power_strict_increasing) auto
  ultimately show "polar_encoder_encode_pipelined (Some q) input out n = Some (Some q, out, -1)"
    using assms(3) half by (simp add: polar_encoder_encode_pipelined_def)
  then show "srsran_polar_encoder_encode (Some q) input out n = Some (Some q, out, 0)" by (simp add: srsran_polar_encoder_encode_def encode_pipelined_def)
  have "i = 0 \<or> i = 1 \<or> i = 2 \<or> i = 3" using assms(7) by auto
  then show "srsran_polar_encoder_init SRSRAN_POLAR_ENCODER_PIPELINED mem' uninit m = None"
    using assms(6) by (auto simp: srsran_polar_encoder_init_def init_pipelined_def create_polar_encoder_pipelined_def
        delete_polar_encoder_pipelined_def Let_def)
qed

theorem polar_encoder_errors_lost_witness:
  "srsran_polar_encoder_encode (Some example_encoder) (replicate 16 1) (replicate 16 7) 4 = Some (Some example_encoder, replicate 16 7, 0) \<and>
   srsran_polar_encoder_init SRSRAN_POLAR_ENCODER_PIPELINED (\<lambda>i. i \<noteq> 2) [0xAA, 0xAA, 0xAA, 0xAA] 2 = None"
proof -
  have made: "srsran_polar_encoder_init SRSRAN_POLAR_ENCODER_PIPELINED (\<lambda>_. True) [0xAA, 0xAA, 0xAA, 0xAA] 2 = Some (Some example_encoder, 0)"
    by (simp add: example_encoder_def srsran_polar_encoder_init_def init_pipelined_def create_polar_encoder_pipelined_def Let_def)
  show ?thesis using polar_encoder_errors_lost [OF made, of 4 "\<lambda>i. i \<noteq> 2" 2] by simp
qed

end
