(* ===== verification/Spec2Isabelle.thy ===== *)
theory Spec2Isabelle
  imports Crc Sequence Scrambling Cbsegm Turbo_Interl Turbo_Coder Ring_Threads Ra_Alloc Ra_Dl_Count Ra_Dl_Grant Ra_Ul Dci_Dl_Roundtrip Cqi Polar_Encoder
begin

text \<open>
  A verification library of the physical layer of srsRAN as it is in this repository, the C code under
  \<open>src/srsRAN_senseoran/lib\<close>. The paths below are relative to \<open>src/phy\<close> there, those of headers to
  \<open>include/srsran/phy\<close>; the specifications are those of
  3GPP TS 36.211, 36.212, 36.213 and 38.212, as the code cites them.

  \<^bold>\<open>The program.\<close> A subframe starts with control information. \<open>phch/dci.c\<close> packs and reads DCI payloads whose sizes
  it keeps distinct, \<open>phch/ra.c\<close>, \<open>ra_dl.c\<close> and \<open>ra_ul.c\<close> turn a DCI into a grant: which resource blocks, how
  many resource elements and bits, which modulation, transport block size and precoding. A transport block of the grant
  gets a checksum (\<open>fec/crc.c\<close>), is cut into code blocks (\<open>fec/cbsegm.c\<close>), turbo encoded
  (\<open>fec/turbo/turbocoder.c\<close>, with the interleaver of \<open>tc_interl_lte.c\<close>) and scrambled with a Gold sequence
  (\<open>common/sequence.c\<close>, \<open>scrambling/scrambling.c\<close>, seeded per channel in \<open>phch/sequences.c\<close>). In the other direction the
  terminal reports channel quality (\<open>phch/cqi.c\<close>). NR control channels are polar encoded
  (\<open>fec/polar/polar_encoder.c\<close>). Between the radio thread and the processing threads
  samples pass through a ring buffer (\<open>utils/ringbuffer.c\<close>). All of it stands on the bit
  packing of \<open>utils/bit.c\<close>.

  \<^bold>\<open>The theories.\<close>

  \<^item> \<open>Phy_Prelude\<close>: integers of the code as \<open>nat\<close> with \<open>add32\<close>, \<open>sub32\<close> and \<open>mul32\<close> where an unsigned sum can
    wrap around, bytes and registers as words, arrays as lists, stores through a pointer (\<open>store\<close>).
  \<^item> \<open>Phy_Types\<close>: the enumerations, \<open>srsran_cell_t\<close>, subframe and TDD configurations and DCI structures of
    \<open>common/phy_common.h\<close>, \<open>phch/ra.h\<close> and \<open>phch/dci.h\<close>; and statements that end normally, return or write outside an
    array (\<open>c_for\<close>), with the rules for loops that keep an invariant.
  \<^item> \<open>Bit_Ops\<close> (\<open>utils/bit.c\<close>), \<open>Bit_Fields\<close> (its calls on numbers, as the packers use them).
  \<^item> \<open>Linear_Register\<close>, \<open>Transducer\<close>, \<open>Interval_Codec\<close>: interfaces that several components share.
  \<^item> \<open>Crc\<close> (\<open>fec/crc.c\<close>, \<open>crc.h\<close>), \<open>Cbsegm\<close> (\<open>fec/cbsegm.c\<close>, table of \<open>fec/ldpc/base_graph.c\<close>), \<open>Turbo_Interl\<close>
    (\<open>fec/turbo/tc_interl_lte.c\<close>), \<open>Turbo_Coder\<close> (\<open>fec/turbo/turbocoder.c\<close>), \<open>Polar_Encoder\<close>
    (\<open>fec/polar/polar_encoder.c\<close>, \<open>polar_encoder_pipelined.c\<close>).
  \<^item> \<open>Sequence\<close> (\<open>common/sequence.c\<close>, generation and application), \<open>Scrambling\<close> (sequence objects with their
    allocation, \<open>scrambling/scrambling.c\<close>, the seeds of \<open>phch/sequences.c\<close>).
  \<^item> \<open>Ra_Tables\<close> (\<open>phch/tbs_tables.h\<close>), \<open>Ra_Alloc\<close> (\<open>phch/ra.c\<close>, \<open>common/sliv.c\<close>), \<open>Ra_Dl\<close> (\<open>phch/ra_dl.c\<close>) with its lemmas
    in \<open>Ra_Dl_Alloc\<close>, \<open>Ra_Dl_Count\<close> and \<open>Ra_Dl_Grant\<close>, \<open>Ra_Ul\<close> (\<open>phch/ra_ul.c\<close>).
  \<^item> \<open>Dci_Size\<close>, \<open>Dci_Pack\<close>, \<open>Dci_Pack_Dl\<close> (\<open>phch/dci.c\<close>: structures and sizes, random access responses and format 0,
    downlink formats) with their lemmas in \<open>Dci_Codec\<close>, \<open>Dci_Codec_Dl\<close> and \<open>Dci_Dl_Roundtrip\<close>.
  \<^item> \<open>Cqi\<close> (\<open>phch/cqi.c\<close>).
  \<^item> \<open>Ring_Buffer\<close> (\<open>utils/ringbuffer.c\<close>, each operation as a function of the buffer), \<open>Ring_Threads\<close> (threads, waits
    and broadcasts as a step relation).
  \<^item> this theory: the path of a random access response through \<open>dci.c\<close> and \<open>ra_ul.c\<close>.

  \<^bold>\<open>State and operations.\<close> A structure of the code is the record of its name, with a prefix where members of two
  structures have the same name; a function is the definition of its name, and the parts of a long one (a loop,
  a branch) are definitions of their own that the function composes. An operation that changes its argument returns
  the new one. \<open>srsran_crc_t\<close> holds the table and the register of \<open>srsran_crc_checksum_put_byte\<close>; the state of a
  sequence is the pair of shift registers; \<open>srsran_sequence_t\<close> has one array per representation and whether they are allocated; the state
  of the ring buffer is \<open>srsran_ringbuffer_t\<close> without mutex and condition variables, which are the atomic
  steps and the sleeping threads of \<open>ring_sys_step\<close>. The tables that \<open>srsran_tcod_gentable\<close>,
  \<open>srsran_lte_pr_pregen\<close> and \<open>srsran_crc_init\<close> fill are computed by the same loops.

  \<^bold>\<open>Errors and undefined behaviour.\<close> A returned error code is the integer the code returns, or \<open>Inl\<close> or \<open>None\<close> where a
  function returns nothing else then. Undefined behaviour is a value of its own: \<open>Undefined\<close> in the ring
  buffer (a signed overflow) and in the statements of \<open>Phy_Types\<close> (a write outside an array), \<open>None\<close> in
  \<open>Sequence\<close> (packed scrambling), in \<open>Ra_Ul\<close> (a shift by 32 or more, an unbounded loop) and in \<open>Cqi\<close>
  (a division by 0, a write past the report array), \<open>Inl Tcod_overrun\<close> in the turbo encoder. Where such a value
  exists, a property that gives a result also states that the code is defined there; elsewhere the hypotheses give the
  arrays the length the code needs. An allocation that may fail is an argument.

  \<^bold>\<open>What is shown.\<close>

  \<^item> Coding: the table-driven CRC is the remainder of the bit-serial register, attached checksums match and bursts are
    detected; the generated sequences are the Gold sequences, in every representation and after any history of
    allocations, and scrambling is an involution that can be done piecewise; segmentation meets the
    specification; the interleaver tables are inverse permutations; the bit encoder is the two recursive
    constituent encoders with termination and the byte encoder computes its stream, checksums included; the polar
    encoder multiplies with the generator matrix.
  \<^item> Allocation: resource indication values and \<open>SLIV\<close> are decoded to what was encoded, the downlink allocation never
    writes outside its arrays and is exact for bitmaps and intervals, the resource elements of a block are those
    a grid of TS 36.211 leaves free, and accepted grants are consistent; uplink grants lie in the cell, hopping of type 1
    agrees with a reference.
  \<^item> Control: payload sizes keep the formats apart; the reader of a DCI, of a random access response and of a channel
    quality report returns what was packed, outside the stated exceptions; the schedule of the reports.
  \<^item> Ring buffer: under any interleaving it is a first-in first-out queue, every branch of a call has its
    outcome, and no wake-up is lost.
  \<^item> Deviations: where the code does not do this, the property says what it does instead, for all inputs
    it happens for: fields read two bits off in TDD cells, hopping of type 2 over several subbands, empty retransmissions,
    positions of subbands that are not sent, a grant of \<open>2 ^ 32 - 3\<close> blocks, and others.

  \<^bold>\<open>Interfaces.\<close> \<open>linear_register\<close> and \<open>invertible_register\<close> (interpreted by the CRC register of each length and polynomial and
    by both registers of the sequence generator), \<open>keystream\<close> (the generator with its 24 bit step), \<open>bit_codec\<close> (the 32
    and 64 bit packers), \<open>interval_codec\<close> (resource indication value and \<open>SLIV\<close>), \<open>interleaver\<close> (the polynomial of every block
    size), \<open>blocked_transducer\<close> (the byte table of the turbo encoder against the bit step), \<open>byte_fifo\<close> (the buffer).

  \<^bold>\<open>Bounds and termination.\<close> No fuel is used: loops are recursion over lists of indices, or functions with a measure. The
  bounds in the properties are those of the code and the standard: cells of 6 to 110 blocks, 188 block sizes,
  transport blocks below \<open>2 ^ 30\<close> bits so that sums of sizes do not wrap around. Counters and lengths of arrays that
  are \<open>int\<close> in the code are numbers without a bound where no property reaches \<open>2 ^ 31\<close> elements, which is more than the code
  allocates. The type 2 hopping loop that does not end is a property.

  \<^bold>\<open>Not modelled.\<close> Floating point and complex arithmetic (OFDM, estimation, modulation, precoding, the soft decoders), whose
  kernels are SIMD code on external libraries; the physical channels that chain the modelled parts with it; the SSE variants
  of functions whose generic variant is modelled; conversions to strings, printing and \<open>srsran_*_fprint\<close>;
  codecs and NR parts that were not reached (convolutional coding, rate matching, LDPC, construction and decoding of polar codes, NR control
  information). Allocation and release of memory appear only where a later operation depends on their success.
\<close>

section \<open>Random access grants\<close>

lemma rar_riv_small: "r < 2 ^ (ceil_log2 (N * (N + 1) div 2) + 1) \<Longrightarrow> N \<le> 44 \<Longrightarrow> rar_riv N r = r"
proof -
  assume r: "r < 2 ^ (ceil_log2 (N * (N + 1) div 2) + 1)" and N: "N \<le> 44"
  define b where "b = ceil_log2 (N * (N + 1) div 2) + 1"
  have b: "b \<le> 14" using riv_nbits_le [of N] N by (simp add: b_def riv_nbits_def)
  have "(of_nat r :: u32) AND (push_bit b 1 - 1) = take_bit b (of_nat r)"
    by (simp add: take_bit_eq_mask push_bit_eq_mult mask_eq_decr_exp)
  moreover have "r mod 2 ^ 32 = r" using r b power_increasing [of b 32 "2 :: nat"] unfolding b_def [symmetric] by simp
  ultimately have "unat ((of_nat r :: u32) AND (push_bit b 1 - 1)) = r mod 2 ^ b"
    by (simp add: unat_take_bit_word unat_of_nat)
  also have "r mod 2 ^ b = r" using r unfolding b_def [symmetric] by simp
  finally show ?thesis using N unfolding rar_riv_def Let_def b_def [symmetric] by simp
qed

text \<open>
  C12: The blocks and the scheme of the grant of a random access response for \<open>L\<close> blocks from \<open>S\<close> on, in a cell of
  at most 44 blocks and without hopping, arrive as they were sent: packed into the response, unpacked, converted
  to an uplink DCI and then to a grant it is accepted, with these blocks in both slots and the given scheme. The
  power control command and the CSI request of the response do not arrive: the DCI has the
  command 0 and no request, whatever the response has.
\<close>
theorem rar_grant_exact:
  assumes "0 < L" "S + L \<le> nof_prb cell" "nof_prb cell \<le> 44"
    and rar: "rar_ok rar" "\<not> hopping_flag rar" "rba rar = srsran_ra_type2_to_riv L S (nof_prb cell)"
    and len: "length (n_prb grant) = 2" "length (n_prb_tilde grant) = 2"
  shows "let rar' = srsran_dci_rar_unpack (srsran_dci_rar_pack rar payload);
      (dci, r) = srsran_dci_rar_to_ul_dci cell rar' in
    r = 0 \<and> tpc_pusch dci = 0 \<and> \<not> cqi_request dci \<and>
    (\<exists>g. srsran_ra_ul_dci_to_grant cell sf hopping dci grant = Some (0, g) \<and>
      L_prb g = L \<and> n_prb g = [S, S] \<and> n_prb_tilde g = [S, S] \<and> ul_tb_ok dci L (pusch_last_tb grant) (pusch_tb g) \<and>
      mcs_idx (pusch_tb g) = trunc_mcs rar)"
proof -
  define N where "N = nof_prb cell"
  have N: "N < 2 ^ 15" using assms(3) by (simp add: N_def)
  have "rba rar < N * (N + 1) div 2"
    using riv.enc_bound [of N N L S] assms(1,2) N rar(3) by (simp add: N_def codec_size_def)
  also have "\<dots> \<le> 2 ^ ceil_log2 (N * (N + 1) div 2)" by (rule le_power_ceil_log2)
  finally have riv: "rar_riv N (rba rar) = rba rar" using assms(3) by (intro rar_riv_small) (simp_all add: N_def)
  define dci where "dci = fst (srsran_dci_rar_to_ul_dci cell rar)"
  have dci: "riv (ul_type2_alloc dci) = srsran_ra_type2_to_riv L S N" "freq_hop_fl dci = SRSRAN_RA_PUSCH_HOP_DISABLED"
    "dci_mcs_idx (ul_tb dci) = trunc_mcs rar"
    using riv rar by (simp_all add: dci_def srsran_dci_rar_to_ul_dci_def N_def zero_dci_tb_def)
  have SLN: "S + L \<le> N" using assms(2) by (simp add: N_def)
  note alloc = plain_allocation [OF assms(1) SLN N dci(1,2) len(1), unfolded N_def]
  define g1 where "g1 = grant\<lparr>L_prb := L, n_prb := [S, S], freq_hopping := 0\<rparr>"
  define t where "t = ul_fill_ra_mcs ((pusch_tb g1)\<lparr>mcs_idx := dci_mcs_idx (ul_tb dci), rv := dci_rv (ul_tb dci)\<rparr>)
      (pusch_last_tb g1) (L_prb g1) (cqi_request dci)"
  have L: "0 < L_prb g1" "L_prb g1 \<le> 110" using assms by (simp_all add: g1_def)
  have tb: "ul_tb_ok dci L (pusch_last_tb grant) t"
    unfolding t_def by (simp add: g1_def ul_fill_ra_mcs_ok)
  obtain x y where nt: "n_prb_tilde grant = [x, y]" using len(2) by (auto simp: numeral_2_eq_2 length_Suc_conv)
  have "mcs_idx t = trunc_mcs rar" using tb dci(3) by (simp add: ul_tb_ok_def Let_def)
  then show ?thesis
    using grant_of_allocation [OF alloc [folded g1_def] L refl t_def, of sf] tb
    unfolding rar_roundtrip [OF rar(1)]
    by (simp add: dci_def srsran_dci_rar_to_ul_dci_def g1_def nt zero_dci_ul_def)
qed

definition example_rar :: srsran_dci_rar_grant_t where
  "example_rar = \<lparr>rba = 78, trunc_mcs = 7, rar_tpc_pusch = 3, ul_delay = False, rar_cqi_request = True, hopping_flag = False\<rparr>"

theorem rar_grant_exact_witness:
  "\<exists>g. srsran_ra_ul_dci_to_grant example_cell example_ul_sf example_hopping
      (fst (srsran_dci_rar_to_ul_dci example_cell (srsran_dci_rar_unpack (srsran_dci_rar_pack example_rar (replicate 20 0)))))
      zero_pusch_grant = Some (0, g) \<and> L_prb g = 4 \<and> n_prb g = [3, 3] \<and> mcs_idx (pusch_tb g) = 7"
proof -
  have riv: "rba example_rar = srsran_ra_type2_to_riv 4 3 25"
    by (simp add: example_rar_def srsran_ra_type2_to_riv_def sub32_def add32_def mul32_def)
  show ?thesis
    using rar_grant_exact [of 4 3 example_cell example_rar zero_pusch_grant "replicate 20 0" example_ul_sf example_hopping] riv
    by (auto simp: example_cell_def example_rar_def rar_ok_def zero_pusch_grant_def split_beta Let_def)
qed

text \<open>
  C34: The truncation of the assignment of a random access response keeps one bit more than the assignment has, so
  that a value no allocation has passes. In a cell of 6 blocks the assignment 60 becomes a grant of
  \<open>2 ^ 32 - 3\<close> blocks, which the conversion accepts because the check of the last block wraps around.
\<close>
theorem rar_unused_value_accepted:
  assumes "nof_prb cell = 6" "rba rar = 60" "\<not> hopping_flag rar"
    and len: "length (n_prb grant) = 2"
  shows "let (dci, r) = srsran_dci_rar_to_ul_dci cell rar in
    r = 0 \<and> (\<exists>g. srsran_ra_ul_dci_to_grant cell sf hopping dci grant = Some (0, g) \<and> L_prb g = 2 ^ 32 - 3)"
proof -
  have b: "ceil_log2 21 = 5" by (simp add: ceil_log2.simps)
  then have riv: "rar_riv 6 60 = 60" by (simp add: rar_riv_small)
  obtain x y where np: "n_prb grant = [x, y]" using len by (auto simp: numeral_2_eq_2 length_Suc_conv)
  define dci where "dci = fst (srsran_dci_rar_to_ul_dci cell rar)"
  have dci: "riv (ul_type2_alloc dci) = 60" "freq_hop_fl dci = SRSRAN_RA_PUSCH_HOP_DISABLED"
    using assms riv by (simp_all add: dci_def srsran_dci_rar_to_ul_dci_def)
  have LS: "srsran_ra_type2_from_riv 60 6 6 = (2 ^ 32 - 3, 5)"
    by (simp add: srsran_ra_type2_from_riv_def add32_def sub32_def)
  have alloc: "ra_ul_grant_to_grant_prb_allocation dci grant (n_rb_ho hopping) 6 =
      Some (0, grant\<lparr>L_prb := 2 ^ 32 - 3, n_prb := [5, 5], freq_hopping := 0\<rparr>)"
    unfolding ra_ul_grant_to_grant_prb_allocation_def dci LS by (simp add: np add32_def Let_def)
  have pair: "srsran_dci_rar_to_ul_dci cell rar = (dci, 0)" by (simp add: dci_def srsran_dci_rar_to_ul_dci_def)
  show ?thesis
    unfolding pair srsran_ra_ul_dci_to_grant_def assms(1) prod.case Let_def
    by (subst alloc, cases "cell_cp cell") (simp_all add: srsran_ra_ul_compute_nof_re_def SRSRAN_CP_NSYMB_def mul32_def sub32_def Let_def)
qed

theorem rar_unused_value_accepted_witness:
  "case srsran_dci_rar_to_ul_dci (example_cell\<lparr>nof_prb := 6\<rparr>) (example_rar\<lparr>rba := 60\<rparr>) of (dci, r) \<Rightarrow>
     \<exists>g. srsran_ra_ul_dci_to_grant (example_cell\<lparr>nof_prb := 6\<rparr>) example_ul_sf example_hopping dci zero_pusch_grant = Some (0, g) \<and>
       L_prb g = 2 ^ 32 - 3"
  using rar_unused_value_accepted [of "example_cell\<lparr>nof_prb := 6\<rparr>" "example_rar\<lparr>rba := 60\<rparr>" zero_pusch_grant example_ul_sf example_hopping]
  by (auto simp: example_rar_def zero_pusch_grant_def split: prod.splits)

end
